(* ===== verification/Prelude.thy ===== *)
theory Prelude
  imports Main "HOL-Library.Word" "HOL-Library.AList"
begin

text \<open>
  The prelude of the development: the machine types the Rust code uses, the
  arithmetic that can leave their range, results as sums, and the generic facts
  on lists, association lists and words that the component theories share.

  \<^item> \<open>u8\<close>, \<open>u16\<close> and \<open>u32\<close> are words of that width: they are the wire types, and the
    code packs, masks and shifts them.
  \<^item> \<open>u64\<close> and \<open>usize\<close> (the target is 64-bit) are naturals. Every addition or
    subtraction of the code that could leave \<open>0 ..< 2 ^ 64\<close> is written with
    \<open>u64_add\<close> or \<open>u64_sub\<close>, which wrap the way a release build does (the workspace
    profile leaves \<open>overflow-checks\<close> off); the component invariants then show that
    the wrap-around never happens.
  \<^item> a \<open>Result\<close> is a sum, \<open>Inl\<close> the error, sequenced with \<open>and_then\<close> (the \<open>?\<close>
    operator).
\<close>

unbundle bit_operations_syntax

section \<open>Types\<close>

type_synonym u8 = "8 word"
type_synonym u16 = "16 word"
type_synonym u32 = "32 word"
type_synonym u64 = nat
type_synonym usize = nat
type_synonym bytes = "8 word list"

named_theorems codec_simps \<open>equations that evaluate the readers and writers of the wire format\<close>
named_theorems safe_intros \<open>rules that show a decoder reads within its buffer\<close>
named_theorems window_simps \<open>field selections of the window operations\<close>

section \<open>u64 arithmetic\<close>

abbreviation u64_range :: nat where
  "u64_range \<equiv> 2 ^ 64"

definition u64_add :: "u64 \<Rightarrow> u64 \<Rightarrow> u64" where
  "u64_add a b = (a + b) mod 2 ^ 64"

definition u64_sub :: "u64 \<Rightarrow> u64 \<Rightarrow> u64" where
  "u64_sub a b = (a + 2 ^ 64 - b) mod 2 ^ 64"

definition u64_mul :: "u64 \<Rightarrow> u64 \<Rightarrow> u64" where
  "u64_mul a b = (a * b) mod 2 ^ 64"

definition u64_saturating_add :: "u64 \<Rightarrow> u64 \<Rightarrow> u64" where
  "u64_saturating_add a b = min (a + b) (2 ^ 64 - 1)"

definition saturating_sub :: "u64 \<Rightarrow> u64 \<Rightarrow> u64" where
  "saturating_sub a b = a - b"

definition abs_diff :: "u64 \<Rightarrow> u64 \<Rightarrow> u64" where
  "abs_diff a b = (if a \<le> b then b - a else a - b)"

lemma u64_add_exact: "a + b < 2 ^ 64 \<Longrightarrow> u64_add a b = a + b"
  by (simp add: u64_add_def)

lemma u64_add_bound: "u64_add a b < 2 ^ 64"
  by (simp add: u64_add_def)

lemma u64_sub_exact: "b \<le> a \<Longrightarrow> a < 2 ^ 64 \<Longrightarrow> u64_sub a b = a - b"
  by (simp add: u64_sub_def mod_if)

lemma u64_mul_exact: "a * b < 2 ^ 64 \<Longrightarrow> u64_mul a b = a * b"
  by (simp add: u64_mul_def)

lemma u64_sub_add_cancel: "a < 2 ^ 64 \<Longrightarrow> b < 2 ^ 64 \<Longrightarrow> u64_sub (u64_add a b) b = a"
  unfolding u64_sub_def u64_add_def by (cases "a + b < 2 ^ 64") (auto simp: mod_if)

section \<open>Results\<close>

definition and_then :: "'e + 'a \<Rightarrow> ('a \<Rightarrow> 'e + 'b) \<Rightarrow> 'e + 'b" where
  "and_then r f = (case r of Inl e \<Rightarrow> Inl e | Inr x \<Rightarrow> f x)"

lemma and_then_Inl [simp]: "and_then (Inl e) f = Inl e"
  by (simp add: and_then_def)

lemma and_then_Inr [simp]: "and_then (Inr x) f = f x"
  by (simp add: and_then_def)

lemma and_then_Inr_iff: "and_then r f = Inr y \<longleftrightarrow> (\<exists>x. r = Inr x \<and> f x = Inr y)"
  by (cases r) simp_all

lemma and_then_eq_InrE:
  assumes "and_then r f = Inr y"
  obtains x where "r = Inr x" and "f x = Inr y"
  using assms by (cases r) auto

section \<open>Lists\<close>

lemma take_pos_slice:
  "take n (drop p xs) @ drop (p + n) xs = drop p xs"
  by (metis add.commute append_take_drop_id drop_drop)

lemma sum_list_filter_remove1:
  fixes f :: "'a \<Rightarrow> nat"
  assumes "x \<in> set xs" and "P x"
  shows "sum_list (map f (filter P xs)) = f x + sum_list (map f (filter P (remove1 x xs)))"
  using assms by (induction xs) auto

lemma upt_split: "n \<le> m \<Longrightarrow> m \<le> k \<Longrightarrow> [n..<k] = [n..<m] @ [m..<k]"
  by (metis le_add_diff_inverse upt_add_eq_append)

lemma replicate_unfold: "replicate (numeral n) x = x # replicate (pred_numeral n) x"
  by (simp add: numeral_eq_Suc)

lemma last_eq_nth: "length xs = Suc i \<Longrightarrow> last xs = xs ! i"
  by (cases xs rule: rev_cases) auto

lemma sum_list_filter_key:
  fixes f :: "'a \<Rightarrow> nat"
  assumes "distinct (map key xs)" "x \<in> set xs"
  shows "sum_list (map f (filter (\<lambda>y. key y \<noteq> key x) xs)) + f x = sum_list (map f xs)"
  using assms
proof (induction xs)
  case (Cons y ys)
  show ?case
  proof (cases "x = y")
    case True
    with Cons.prems have "filter (\<lambda>y. key y \<noteq> key x) ys = ys"
      by (intro filter_True) (auto simp: rev_image_eqI)
    with True show ?thesis by simp
  next
    case False
    with Cons.prems have "key y \<noteq> key x" by (auto simp: rev_image_eqI)
    with False Cons show ?thesis by simp
  qed
qed simp

lemma sorted_wrt_drop: "sorted_wrt P xs \<Longrightarrow> sorted_wrt P (drop n xs)"
  by (metis append_take_drop_id sorted_wrt_append)

section \<open>Association lists\<close>

text \<open>A \<open>BTreeMap\<close> is an association list with distinct keys; \<open>insert\<close> is
  \<^const>\<open>AList.update\<close>, \<open>remove\<close> is \<^const>\<open>AList.delete\<close> after a lookup.\<close>

lemma length_update_le: "length (AList.update k v al) \<le> Suc (length al)"
  by (induction al) auto

lemma length_update_present:
  "map_of al k \<noteq> None \<Longrightarrow> length (AList.update k v al) = length al"
  by (induction al) auto

lemma set_update_subset: "set (AList.update k v al) \<subseteq> insert (k, v) (set al)"
  by (induction al) auto

lemma length_delete_less:
  "map_of al k = Some v \<Longrightarrow> length (AList.delete k al) < length al"
  by (induction al) (auto simp: AList.delete_eq le_imp_less_Suc)

lemma length_delete_distinct:
  "distinct (map fst al) \<Longrightarrow> map_of al k = Some v \<Longrightarrow> Suc (length (AList.delete k al)) = length al"
proof (induction al)
  case (Cons a al)
  then show ?case
  proof (cases "fst a = k")
    case True
    with Cons.prems have "k \<notin> fst ` set al" by auto
    then have "AList.delete k al = al"
      by (simp add: delete_idem)
    with True show ?thesis by simp
  qed (auto split: if_splits)
qed simp

section \<open>Words\<close>

lemma unat_u16_bound: "unat (w :: u16) < 65536"
  using unsigned_less [of w, where 'a = nat] by simp

lemma unat_u32_bound: "unat (w :: u32) < 4294967296"
  using unsigned_less [of w, where 'a = nat] by simp

lemma unat_u8_bound: "unat (w :: u8) < 256"
  using unsigned_less [of w, where 'a = nat] by simp

lemma word_take_bit_self:
  fixes w :: "'a :: len word"
  assumes "unat w < 2 ^ n"
  shows "take_bit n w = w"
proof (rule unsigned_word_eqI [where 'a = nat])
  show "unat (take_bit n w) = unat w"
    using assms by (simp add: unsigned_take_bit_eq take_bit_nat_eq_self)
qed

end
