(* ===== verification/Seq.thy ===== *)
theory Seq
  imports Prelude
begin

text \<open>
  Sequence numbers and timestamps of the RDP-UDP2 transport
  (\<open>crates/ironrdp-rdpeudp/src/seq.rs\<close>): the 64-bit numbers the endpoints keep, the 16-bit
  and 24-bit forms that travel, and the reconstruction of one from the other around
  a nearby reference. Both reconstructions satisfy the contract \<open>wire_counter\<close>, whose
  consequences (round trip inside half the wire range, nearest value) are proved
  once in the locale.
\<close>

section \<open>Definitions\<close>

definition reconstruct_seq :: "u16 \<Rightarrow> u64 \<Rightarrow> u64" where
  "reconstruct_seq wire_seq reference =
     (let wire = unat wire_seq;
          high = reference AND 0xFFFFFFFFFFFF0000;
          candidate = high OR wire
      in if reference < candidate
         then (let diff = candidate - reference
               in if 0x8000 < diff \<and> 0x10000 \<le> candidate then candidate - 0x10000 else candidate)
         else (let diff = reference - candidate
               in if 0x8000 < diff then u64_add candidate 0x10000 else candidate))"

definition next_channel_seq :: "u64 \<Rightarrow> u64" where
  "next_channel_seq channel_seq =
     (let next = u64_add channel_seq 1
      in if next AND 0xFFFF = 0 then u64_add next 1 else next)"

definition truncate_seq :: "u64 \<Rightarrow> u16" where
  "truncate_seq full = of_nat (full AND 0xFFFF)"

definition TIMESTAMP_24BIT_MASK :: u32 where
  "TIMESTAMP_24BIT_MASK = 0x00FFFFFF"

definition TIMESTAMP_UNIT_US :: u64 where
  "TIMESTAMP_UNIT_US = 4"

definition TIMESTAMP_WRAP :: u64 where
  "TIMESTAMP_WRAP = 2 ^ 24"

definition TIMESTAMP_HALF_RANGE :: u64 where
  "TIMESTAMP_HALF_RANGE = TIMESTAMP_WRAP div 2"

definition TIMESTAMP_STALENESS_LIMIT :: u64 where
  "TIMESTAMP_STALENESS_LIMIT = 32000000 div TIMESTAMP_UNIT_US"

definition reconstruct_timestamp :: "u32 \<Rightarrow> u64 \<Rightarrow> u64" where
  "reconstruct_timestamp wire_ts reference =
     (let wire = unat (wire_ts AND TIMESTAMP_24BIT_MASK);
          high = reference AND (0xFFFFFFFFFFFFFFFF - unat TIMESTAMP_24BIT_MASK);
          candidate = high OR wire
      in if reference < candidate
         then (let diff = candidate - reference
               in if TIMESTAMP_HALF_RANGE < diff \<and> TIMESTAMP_WRAP \<le> candidate
                  then candidate - TIMESTAMP_WRAP else candidate)
         else (let diff = reference - candidate
               in if TIMESTAMP_HALF_RANGE < diff then u64_add candidate TIMESTAMP_WRAP
                  else candidate))"

definition truncate_timestamp :: "u64 \<Rightarrow> u32" where
  "truncate_timestamp full = of_nat (full AND unat TIMESTAMP_24BIT_MASK)"

definition us_to_timestamp_units :: "u64 \<Rightarrow> u64" where
  "us_to_timestamp_units us = us div TIMESTAMP_UNIT_US"

definition timestamp_units_to_us :: "u64 \<Rightarrow> u64" where
  "timestamp_units_to_us units = u64_mul units TIMESTAMP_UNIT_US"

section \<open>Bit masks as arithmetic\<close>

lemma and_high_mask:
  fixes r :: nat
  assumes "r < 2 ^ 64" and "k \<le> 64"
  shows "r AND push_bit k (mask (64 - k)) = r div 2 ^ k * 2 ^ k"
proof -
  have le: "n < 64" if "bit r n" for n
    using that assms(1) by (metis bit_take_bit_iff take_bit_nat_eq_self)
  have "r AND push_bit k (mask (64 - k)) = push_bit k (drop_bit k r)"
    using assms(2) by (intro bit_eqI) (auto simp: bit_simps dest: le)
  then show ?thesis
    by (simp add: push_bit_eq_mult drop_bit_eq_div)
qed

lemma or_disjoint_low:
  fixes v q :: nat
  assumes "v < 2 ^ k"
  shows "(q * 2 ^ k) OR v = q * 2 ^ k + v"
proof -
  have le: "n < k" if "bit v n" for n
    using that assms by (metis bit_take_bit_iff take_bit_nat_eq_self)
  have "push_bit k q AND v = 0"
    by (intro bit_eqI) (auto simp: bit_simps dest: le)
  then have "push_bit k q + v = push_bit k q OR v"
    by (simp add: disjunctive_add_eq_or)
  then show ?thesis
    by (simp add: push_bit_eq_mult mult.commute)
qed

lemma and_low_mask: "(r :: nat) AND (2 ^ k - 1) = r mod 2 ^ k"
  by (metis and.commute mask_eq_exp_minus_1 take_bit_eq_mask take_bit_eq_mod and.commute)

lemma high_mask_16: "(0xFFFFFFFFFFFF0000 :: nat) = push_bit 16 (mask (64 - 16))"
  by (simp add: push_bit_eq_mult mask_eq_exp_minus_1)

lemma high_mask_24: "(0xFFFFFFFFFF000000 :: nat) = push_bit 24 (mask (64 - 24))"
  by (simp add: push_bit_eq_mult mask_eq_exp_minus_1)

lemma candidate_16:
  assumes "r < 2 ^ 64"
  shows "(r AND 0xFFFFFFFFFFFF0000) OR unat (w :: u16) = r div 65536 * 65536 + unat w"
  using and_high_mask [OF assms, of 16] or_disjoint_low [of "unat w" 16 "r div 65536"]
    unat_u16_bound [of w]
  by (simp add: high_mask_16)

lemma unat_ts_mask: "unat (w AND TIMESTAMP_24BIT_MASK) = unat w mod 2 ^ 24"
  using and_low_mask [of "unat w" 24]
  by (simp add: TIMESTAMP_24BIT_MASK_def unsigned_and_eq)

lemma candidate_24:
  assumes "r < 2 ^ 64"
  shows "(r AND (0xFFFFFFFFFFFFFFFF - unat TIMESTAMP_24BIT_MASK)) OR unat (w AND TIMESTAMP_24BIT_MASK)
    = r div 2 ^ 24 * 2 ^ 24 + unat (w AND TIMESTAMP_24BIT_MASK)"
  using and_high_mask [OF assms, of 24]
    or_disjoint_low [of "unat (w AND TIMESTAMP_24BIT_MASK)" 24 "r div 2 ^ 24"]
    unat_ts_mask [of w]
  by (simp add: high_mask_24 TIMESTAMP_24BIT_MASK_def)

section \<open>The nearest value of a residue class\<close>

text \<open>The case analysis both reconstructions make, with the wire range as a variable:
  the chosen value is in the residue class of the wire value, and no value of that
  class is nearer to the reference.\<close>

definition pick_nearest :: "nat \<Rightarrow> nat \<Rightarrow> nat \<Rightarrow> nat" where
  "pick_nearest wrap reference c =
     (if reference < c
      then (if wrap div 2 < c - reference \<and> wrap \<le> c then c - wrap else c)
      else (if wrap div 2 < reference - c then c + wrap else c))"

lemma pick_nearest_mod:
  assumes "v < wrap"
  shows "pick_nearest wrap reference (reference div wrap * wrap + v) mod wrap = v"
proof -
  define c where "c = reference div wrap * wrap + v"
  have c: "c mod wrap = v"
    using assms by (simp add: c_def)
  then have "(c - wrap) mod wrap = v" if "wrap \<le> c"
    using that by (simp add: le_mod_geq)
  with c show ?thesis
    by (simp add: pick_nearest_def c_def [symmetric])
qed

lemma pick_nearest_le:
  assumes "v < wrap" and "even wrap" and "x mod wrap = v"
  shows "abs_diff (pick_nearest wrap reference (reference div wrap * wrap + v)) reference
    \<le> abs_diff x reference"
proof -
  define q where "q = reference div wrap"
  define s where "s = reference mod wrap"
  define k where "k = x div wrap"
  have ref: "reference = q * wrap + s" and s: "s < wrap"
    using assms(1) by (auto simp: q_def s_def)
  have x: "x = k * wrap + v"
    using assms(3) by (metis k_def div_mult_mod_eq)
  obtain h where h: "wrap = 2 * h"
    using assms(2) by (rule evenE)
  consider "k < q" | "k = q" | "q < k"
    by linarith
  then show ?thesis
  proof cases
    case 1
    then have "k * wrap + wrap \<le> q * wrap"
      by (metis Suc_leI mult_Suc mult_le_mono1 add.commute)
    with ref s x h assms(1) show ?thesis
      by (simp add: pick_nearest_def abs_diff_def q_def [symmetric]) linarith
  next
    case 2
    with ref s x h assms(1) show ?thesis
      by (auto simp: pick_nearest_def abs_diff_def q_def [symmetric])
  next
    case 3
    then have "q * wrap + wrap \<le> k * wrap"
      by (metis Suc_leI mult_Suc mult_le_mono1 add.commute)
    with ref s x h assms(1) show ?thesis
      by (simp add: pick_nearest_def abs_diff_def q_def [symmetric]) linarith
  qed
qed

section \<open>The contract of a truncated counter\<close>

locale wire_counter =
  fixes reconstruct :: "'w \<Rightarrow> u64 \<Rightarrow> u64"
    and truncate :: "u64 \<Rightarrow> 'w"
    and wire_value :: "'w \<Rightarrow> nat"
    and wrap :: nat
  assumes wire_value_truncate: "wire_value (truncate full) = full mod wrap"
    and reconstruct_class: "reference + wrap < 2 ^ 64 \<Longrightarrow> reconstruct w reference mod wrap = wire_value w"
    and reconstruct_nearest: "reference + wrap < 2 ^ 64 \<Longrightarrow> x mod wrap = wire_value w \<Longrightarrow>
      abs_diff (reconstruct w reference) reference \<le> abs_diff x reference"
begin

lemma class_gap:
  assumes "a mod wrap = b mod wrap" and "a \<noteq> b"
  shows "wrap \<le> abs_diff a b"
proof -
  have gap: "wrap \<le> y - x" if "x mod wrap = y mod wrap" and "x < y" for x y :: nat
  proof -
    have "wrap dvd y - x"
      using that by (metis mod_eq_dvd_iff_nat order_less_imp_le)
    with that(2) show ?thesis
      by (meson dvd_imp_le zero_less_diff)
  qed
  show ?thesis
    using assms gap [of a b] gap [of b a] by (auto simp: abs_diff_def not_le)
qed

lemma reconstruct_truncate:
  assumes "reference + wrap < 2 ^ 64" and "2 * abs_diff full reference < wrap"
  shows "reconstruct (truncate full) reference = full"
proof (rule ccontr)
  let ?r = "reconstruct (truncate full) reference"
  assume "?r \<noteq> full"
  moreover have "?r mod wrap = full mod wrap"
    using assms(1) by (simp add: reconstruct_class wire_value_truncate)
  ultimately have "wrap \<le> abs_diff ?r full"
    by (simp add: class_gap)
  moreover have "abs_diff ?r reference \<le> abs_diff full reference"
    using assms(1) by (simp add: reconstruct_nearest wire_value_truncate)
  ultimately show False
    using assms(2) by (auto simp: abs_diff_def split: if_splits)
qed

lemma truncate_inject_near:
  assumes "reference + wrap < 2 ^ 64" and "truncate a = truncate b"
    and "2 * abs_diff a reference < wrap" and "2 * abs_diff b reference < wrap"
  shows "a = b"
  using reconstruct_truncate [OF assms(1,3)] reconstruct_truncate [OF assms(1,4)] assms(2) by metis

end

lemma reconstruct_seq_pick:
  assumes "reference + 65536 < 2 ^ 64"
  shows "reconstruct_seq w reference = pick_nearest 65536 reference (reference div 65536 * 65536 + unat w)"
proof -
  let ?c = "reference div 65536 * 65536 + unat w"
  have r: "reference < 2 ^ 64"
    using assms by linarith
  have "u64_add ?c 65536 = ?c + 65536" if "?c \<le> reference"
    using that assms by (intro u64_add_exact) linarith
  then show ?thesis
    unfolding reconstruct_seq_def Let_def candidate_16 [OF r] by (simp add: pick_nearest_def)
qed

lemma unat_truncate_seq: "unat (truncate_seq full) = full mod 65536"
  using and_low_mask [of full 16]
  by (simp add: truncate_seq_def unat_of_nat)

interpretation data_seq: wire_counter reconstruct_seq truncate_seq unat 65536
proof
  fix full :: u64
  show "unat (truncate_seq full) = full mod 65536"
    by (rule unat_truncate_seq)
next
  fix reference :: u64 and w :: u16
  assume "reference + 65536 < 2 ^ 64"
  then show "reconstruct_seq w reference mod 65536 = unat w"
    using unat_u16_bound [of w] by (simp add: reconstruct_seq_pick pick_nearest_mod)
next
  fix reference x :: u64 and w :: u16
  assume "reference + 65536 < 2 ^ 64" and "x mod 65536 = unat w"
  then show "abs_diff (reconstruct_seq w reference) reference \<le> abs_diff x reference"
    using unat_u16_bound [of w] by (simp add: reconstruct_seq_pick pick_nearest_le)
qed

lemma unat_truncate_timestamp: "unat (truncate_timestamp full) = full mod 2 ^ 24"
proof -
  have "full AND unat TIMESTAMP_24BIT_MASK = full mod 2 ^ 24"
    using and_low_mask [of full 24] by (simp add: TIMESTAMP_24BIT_MASK_def)
  moreover have "full mod 2 ^ 24 < 2 ^ 32"
    by (rule order_less_trans [of _ "2 ^ 24"]) simp_all
  ultimately show ?thesis
    by (simp add: truncate_timestamp_def unat_of_nat)
qed

lemma reconstruct_timestamp_pick:
  assumes "reference + 2 ^ 24 < 2 ^ 64"
  shows "reconstruct_timestamp w reference =
    pick_nearest (2 ^ 24) reference (reference div 2 ^ 24 * 2 ^ 24 + unat (w AND TIMESTAMP_24BIT_MASK))"
proof -
  let ?c = "reference div 2 ^ 24 * 2 ^ 24 + unat (w AND TIMESTAMP_24BIT_MASK)"
  have r: "reference < 2 ^ 64"
    using assms by linarith
  have "u64_add ?c (2 ^ 24) = ?c + 2 ^ 24" if "?c \<le> reference"
    using that assms by (intro u64_add_exact) linarith
  then show ?thesis
    unfolding reconstruct_timestamp_def Let_def candidate_24 [OF r]
    by (simp add: pick_nearest_def TIMESTAMP_WRAP_def TIMESTAMP_HALF_RANGE_def)
qed

lemma ts_value_bound: "unat (w AND TIMESTAMP_24BIT_MASK) < 2 ^ 24"
  unfolding unat_ts_mask by simp

interpretation timestamps: wire_counter reconstruct_timestamp truncate_timestamp
  "\<lambda>w. unat (w AND TIMESTAMP_24BIT_MASK)" "2 ^ 24"
proof
  fix full :: u64
  show "unat (truncate_timestamp full AND TIMESTAMP_24BIT_MASK) = full mod 2 ^ 24"
    by (simp add: unat_ts_mask unat_truncate_timestamp)
next
  fix reference :: u64 and w :: u32
  assume "reference + 2 ^ 24 < 2 ^ 64"
  then show "reconstruct_timestamp w reference mod 2 ^ 24 = unat (w AND TIMESTAMP_24BIT_MASK)"
    by (subst reconstruct_timestamp_pick) (auto intro!: pick_nearest_mod ts_value_bound simp del: power_numeral)
next
  fix reference x :: u64 and w :: u32
  assume "reference + 2 ^ 24 < 2 ^ 64" and "x mod 2 ^ 24 = unat (w AND TIMESTAMP_24BIT_MASK)"
  then show "abs_diff (reconstruct_timestamp w reference) reference \<le> abs_diff x reference"
    by (subst reconstruct_timestamp_pick) (auto intro!: pick_nearest_le ts_value_bound simp del: power_numeral)
qed

section \<open>The channel numbering\<close>

lemma next_channel_seq_eq:
  assumes "c + 2 < 2 ^ 64"
  shows "next_channel_seq c = (if Suc c mod 65536 = 0 then c + 2 else c + 1)"
proof -
  have 1: "u64_add c 1 = c + 1"
    using assms by (intro u64_add_exact) linarith
  have 2: "u64_add (c + 1) 1 = c + 2"
    using assms by (subst u64_add_exact) linarith+
  have 3: "(c + 1) AND 0xFFFF = Suc c mod 65536"
    using and_low_mask [of "c + 1" 16] by simp
  show ?thesis
    unfolding next_channel_seq_def Let_def 1 2 3 by simp
qed

lemma next_channel_seq_gt: "c + 2 < 2 ^ 64 \<Longrightarrow> c < next_channel_seq c"
  by (subst next_channel_seq_eq) (linarith | simp)+

lemma next_channel_seq_nonzero: "c + 2 < 2 ^ 64 \<Longrightarrow> next_channel_seq c mod 65536 \<noteq> 0"
proof -
  assume b: "c + 2 < 2 ^ 64"
  have "(c + 2) mod 65536 \<noteq> 0" if "Suc c mod 65536 = 0"
    using that by (simp add: mod_Suc)
  then show ?thesis
    using b by (auto simp: next_channel_seq_eq)
qed

text \<open>The number of the \<open>k\<close>-th payload of a stream that starts at channel 1.\<close>

definition channel_number :: "nat \<Rightarrow> u64" where
  "channel_number k = 1 + k + k div 65535"

lemma channel_number_Suc:
  assumes "channel_number k + 2 < 2 ^ 64"
  shows "next_channel_seq (channel_number k) = channel_number (Suc k)"
proof -
  define q where "q = k div 65535"
  define r where "r = k mod 65535"
  have k: "k = 65535 * q + r" and r: "r < 65535"
    by (simp_all add: q_def r_def)
  have "Suc (channel_number k) = r + 2 + 65536 * q"
    unfolding channel_number_def q_def [symmetric] using k by simp
  then have "Suc (channel_number k) mod 65536 = (r + 2) mod 65536"
    by (metis mod_mult_self2)
  moreover have "(r + 2) mod 65536 = 0 \<longleftrightarrow> r = 65534"
    using r mod_less [of "r + 2" 65536] by (cases "r = 65534") (simp, linarith)
  ultimately have "Suc (channel_number k) mod 65536 = 0 \<longleftrightarrow> r = 65534"
    by simp
  also have "\<dots> \<longleftrightarrow> Suc k mod 65535 = 0"
    by (simp add: r_def mod_Suc)
  finally have "Suc (channel_number k) mod 65536 = 0 \<longleftrightarrow> Suc k mod 65535 = 0" .
  moreover have "Suc k div 65535 = (if Suc k mod 65535 = 0 then Suc (k div 65535) else k div 65535)"
    by (simp add: div_Suc)
  ultimately show ?thesis
    using assms by (simp add: next_channel_seq_eq channel_number_def)
qed

lemma channel_number_bound: "k < 2 ^ 62 \<Longrightarrow> channel_number k + 2 < 2 ^ 64"
  unfolding channel_number_def using div_le_dividend [of k 65535] by simp

lemma channel_number_mod: "channel_number k mod 65536 \<noteq> 0"
proof -
  have "channel_number k = Suc (k mod 65535) + 65536 * (k div 65535)"
    unfolding channel_number_def using mult_div_mod_eq [of 65535 k] by linarith
  then have "channel_number k mod 65536 = Suc (k mod 65535) mod 65536"
    by simp
  also have "\<dots> = Suc (k mod 65535)"
    by (rule mod_less) (simp add: less_Suc_eq_le order_less_imp_le)
  finally show ?thesis by simp
qed

lemma channel_number_mono: "j < k \<Longrightarrow> channel_number j < channel_number k"
  unfolding channel_number_def using div_le_mono [of j k 65535] by linarith

lemma channel_number_inject: "channel_number j = channel_number k \<longleftrightarrow> j = k"
  by (metis channel_number_mono linorder_neq_iff order_less_irrefl)

lemma channel_number_less_iff: "channel_number j < channel_number k \<longleftrightarrow> j < k"
  by (metis channel_number_mono linorder_neq_iff order_less_asym)

lemma channel_number_0: "channel_number 0 = 1"
  by (simp add: channel_number_def)

lemma next_channel_seq_funpow: "k < 2 ^ 62 \<Longrightarrow> (next_channel_seq ^^ k) 1 = channel_number k"
proof (induction k)
  case (Suc k)
  then have "(next_channel_seq ^^ k) 1 = channel_number k"
    by linarith
  moreover have "channel_number k + 2 < 2 ^ 64"
    using Suc.prems by (intro channel_number_bound) linarith
  ultimately show ?case
    by (simp add: channel_number_Suc)
qed (simp add: channel_number_0)

section \<open>Properties\<close>

text \<open>
  C23. Round trip of sequence numbers: a full sequence number within half the 16-bit range of the
  receiver's reference survives truncation to the wire and reconstruction, on both sides
  of the reference and across a 16-bit epoch.
\<close>

theorem reconstruct_truncate_seq:
  assumes "reference + 65536 < 2 ^ 64" and "abs_diff full reference < 0x8000"
  shows "reconstruct_seq (truncate_seq full) reference = full"
  using assms(2) by (intro data_seq.reconstruct_truncate [OF assms(1)]) linarith

theorem reconstruct_truncate_seq_witness:
  "reconstruct_seq (truncate_seq 0x20005) 0x1FFFA = 0x20005"
  by (rule reconstruct_truncate_seq) (simp_all add: abs_diff_def)

text \<open>
  Reconstruction returns the closest value: whatever 16-bit number arrives, the result has
  exactly these low 16 bits, and no 64-bit number with these low bits is closer to the
  reference.
\<close>

theorem reconstruct_seq_closest:
  assumes "reference + 65536 < 2 ^ 64"
  shows "truncate_seq (reconstruct_seq w reference) = w \<and>
    (\<forall>x. truncate_seq x = w \<longrightarrow>
      abs_diff (reconstruct_seq w reference) reference \<le> abs_diff x reference)"
proof (intro conjI allI impI)
  show "truncate_seq (reconstruct_seq w reference) = w"
    using data_seq.reconstruct_class [OF assms] by (metis unat_truncate_seq word_unat_eq_iff)
  show "abs_diff (reconstruct_seq w reference) reference \<le> abs_diff x reference" if "truncate_seq x = w" for x
    using that unat_truncate_seq [of x] by (intro data_seq.reconstruct_nearest [OF assms]) simp
qed

text \<open>
  Round trip of timestamps: a full timestamp within half of the 24-bit range (about 33 s) of
  the reference survives truncation and reconstruction.
\<close>

theorem reconstruct_truncate_timestamp:
  assumes "reference + 2 ^ 24 < 2 ^ 64" and "abs_diff full reference < TIMESTAMP_HALF_RANGE"
  shows "reconstruct_timestamp (truncate_timestamp full) reference = full"
  using assms(2) unfolding TIMESTAMP_HALF_RANGE_def TIMESTAMP_WRAP_def
  by (intro timestamps.reconstruct_truncate [OF assms(1)]) linarith

text \<open>
  The channel numbering: starting from channel 1, the \<open>k\<close>-th number assigned is
  \<open>1 + k + k div 65535\<close>, so the numbers increase strictly and none of them has the wire
  form 0, which Windows never delivers.
\<close>

theorem channel_numbering:
  assumes "k < 2 ^ 62"
  shows "(next_channel_seq ^^ k) 1 = 1 + k + k div 65535 \<and>
    truncate_seq ((next_channel_seq ^^ k) 1) \<noteq> 0 \<and>
    (\<forall>j. j < k \<longrightarrow> (next_channel_seq ^^ j) 1 < (next_channel_seq ^^ k) 1)"
proof (intro conjI allI impI)
  show "(next_channel_seq ^^ k) 1 = 1 + k + k div 65535"
    using next_channel_seq_funpow [OF assms] by (simp add: channel_number_def)
  show "truncate_seq ((next_channel_seq ^^ k) 1) \<noteq> 0"
    using next_channel_seq_funpow [OF assms] channel_number_mod [of k] unat_truncate_seq
    by (metis unat_0)
  show "(next_channel_seq ^^ j) 1 < (next_channel_seq ^^ k) 1" if "j < k" for j
  proof -
    from that assms have "j < 2 ^ 62"
      by linarith
    with that show ?thesis
      by (simp only: next_channel_seq_funpow [OF assms] next_channel_seq_funpow channel_number_mono)
  qed
qed

end
