(* ===== verification/Wire.thy ===== *)
theory Wire
  imports Prelude
begin

text \<open>
  The byte cursors every PDU of the program is read from and written to
  (\<open>crates/ironrdp-core/src/cursor.rs\<close>, \<open>encode.rs\<close>, \<open>decode.rs\<close>, \<open>padding.rs\<close>, the
  \<open>ensure_size!\<close> macros), and the contracts of a codec: \<open>tail_codec\<close> for a PDU that
  extends to the end of its buffer, \<open>wire_codec\<close> for one that can be followed by
  others. An out-of-range slice access, a panic in Rust, is the error \<open>Panic\<close>, so
  that "this decoder never panics" is a statement about its results. The context
  string of an error, the name of the PDU for the log, is left out.
\<close>

section \<open>Cursors\<close>

datatype codec_error =
    NotEnoughBytes usize usize "usize option"
  | InvalidField string string "usize option"
  | UnexpectedMessageType u8 "usize option"
  | UnsupportedVersion u8 "usize option"
  | UnsupportedValue string string "usize option"
  | OtherError string
  | Panic

record read_cursor =
  rc_inner :: bytes
  rc_pos :: usize

record write_cursor =
  wc_inner :: bytes
  wc_pos :: usize

type_synonym 'a decoder = "read_cursor \<Rightarrow> codec_error + 'a \<times> read_cursor"
type_synonym writer = "write_cursor \<Rightarrow> codec_error + write_cursor"

definition rc_new :: "bytes \<Rightarrow> read_cursor" where
  "rc_new bs = \<lparr>rc_inner = bs, rc_pos = 0\<rparr>"

definition rc_len :: "read_cursor \<Rightarrow> usize" where
  "rc_len src = length (rc_inner src) - rc_pos src"

definition rc_advance :: "usize \<Rightarrow> read_cursor \<Rightarrow> read_cursor" where
  "rc_advance n src = src\<lparr>rc_pos := rc_pos src + n\<rparr>"

definition wc_new :: "bytes \<Rightarrow> write_cursor" where
  "wc_new bs = \<lparr>wc_inner = bs, wc_pos = 0\<rparr>"

definition wc_len :: "write_cursor \<Rightarrow> usize" where
  "wc_len dst = length (wc_inner dst) - wc_pos dst"

text \<open>Sequencing of the \<open>?\<close> operator for code that threads a cursor.\<close>

definition dreturn :: "'a \<Rightarrow> 'a decoder" where
  "dreturn x src = Inr (x, src)"

definition dfail :: "codec_error \<Rightarrow> 'a decoder" where
  "dfail e src = Inl e"

definition dbind :: "'a decoder \<Rightarrow> ('a \<Rightarrow> 'b decoder) \<Rightarrow> 'b decoder" where
  "dbind d f src = and_then (d src) (\<lambda>(x, src'). f x src')"

definition wseq :: "writer \<Rightarrow> writer \<Rightarrow> writer" where
  "wseq w1 w2 dst = and_then (w1 dst) w2"

definition wskip :: writer where
  "wskip dst = Inr dst"

definition wfail :: "codec_error \<Rightarrow> writer" where
  "wfail e dst = Inl e"

section \<open>Readers\<close>

definition ensure_size :: "usize \<Rightarrow> unit decoder" where
  "ensure_size expected src =
     (if expected \<le> rc_len src then Inr ((), src)
      else Inl (NotEnoughBytes (rc_len src) expected (Some (rc_pos src))))"

definition read_slice :: "usize \<Rightarrow> bytes decoder" where
  "read_slice n src =
     (if rc_pos src + n \<le> length (rc_inner src)
      then Inr (take n (drop (rc_pos src) (rc_inner src)), rc_advance n src)
      else Inl Panic)"

definition read_remaining :: "bytes decoder" where
  "read_remaining src = read_slice (rc_len src) src"

definition u16_from_le_bytes :: "u8 \<Rightarrow> u8 \<Rightarrow> u16" where
  "u16_from_le_bytes b0 b1 = ucast b0 OR push_bit 8 (ucast b1)"

definition u32_from_le_bytes :: "u8 \<Rightarrow> u8 \<Rightarrow> u8 \<Rightarrow> u8 \<Rightarrow> u32" where
  "u32_from_le_bytes b0 b1 b2 b3 =
     ucast b0 OR push_bit 8 (ucast b1) OR push_bit 16 (ucast b2) OR push_bit 24 (ucast b3)"

definition u16_to_le_bytes :: "u16 \<Rightarrow> bytes" where
  "u16_to_le_bytes w = [ucast w, ucast (drop_bit 8 w)]"

definition u32_to_le_bytes :: "u32 \<Rightarrow> bytes" where
  "u32_to_le_bytes w = [ucast w, ucast (drop_bit 8 w), ucast (drop_bit 16 w), ucast (drop_bit 24 w)]"

definition read_u8 :: "u8 decoder" where
  "read_u8 = dbind (read_slice 1) (\<lambda>bs. dreturn (bs ! 0))"

definition read_u16 :: "u16 decoder" where
  "read_u16 = dbind (read_slice 2) (\<lambda>bs. dreturn (u16_from_le_bytes (bs ! 0) (bs ! 1)))"

definition read_u16_be :: "u16 decoder" where
  "read_u16_be = dbind (read_slice 2) (\<lambda>bs. dreturn (u16_from_le_bytes (bs ! 1) (bs ! 0)))"

definition read_u32 :: "u32 decoder" where
  "read_u32 = dbind (read_slice 4)
     (\<lambda>bs. dreturn (u32_from_le_bytes (bs ! 0) (bs ! 1) (bs ! 2) (bs ! 3)))"

definition read_u32_be :: "u32 decoder" where
  "read_u32_be = dbind (read_slice 4)
     (\<lambda>bs. dreturn (u32_from_le_bytes (bs ! 3) (bs ! 2) (bs ! 1) (bs ! 0)))"

definition read_padding :: "usize \<Rightarrow> unit decoder" where
  "read_padding n src = Inr ((), rc_advance n src)"

section \<open>Writers\<close>

definition wc_put :: "bytes \<Rightarrow> write_cursor \<Rightarrow> write_cursor" where
  "wc_put bs dst =
     dst\<lparr>wc_inner := take (wc_pos dst) (wc_inner dst) @ bs @ drop (wc_pos dst + length bs) (wc_inner dst),
         wc_pos := wc_pos dst + length bs\<rparr>"

definition ensure_size_in :: "usize \<Rightarrow> writer" where
  "ensure_size_in expected dst =
     (if expected \<le> wc_len dst then Inr dst
      else Inl (NotEnoughBytes (wc_len dst) expected (Some (wc_pos dst))))"

definition write_slice :: "bytes \<Rightarrow> writer" where
  "write_slice bs dst =
     (if wc_pos dst + length bs \<le> length (wc_inner dst) then Inr (wc_put bs dst) else Inl Panic)"

definition write_u8 :: "u8 \<Rightarrow> writer" where
  "write_u8 b = write_slice [b]"

definition write_u16 :: "u16 \<Rightarrow> writer" where
  "write_u16 w = write_slice (u16_to_le_bytes w)"

definition write_u16_be :: "u16 \<Rightarrow> writer" where
  "write_u16_be w = write_slice (rev (u16_to_le_bytes w))"

definition write_u32 :: "u32 \<Rightarrow> writer" where
  "write_u32 w = write_slice (u32_to_le_bytes w)"

definition write_u32_be :: "u32 \<Rightarrow> writer" where
  "write_u32_be w = write_slice (rev (u32_to_le_bytes w))"

definition write_u64_zero :: writer where
  "write_u64_zero = write_slice (replicate 8 0)"

fun write_padding :: "usize \<Rightarrow> writer" where
  "write_padding n =
     (if n = 0 then wskip
      else if n = 1 then wseq (write_u8 0) (write_padding (n - 1))
      else if n \<le> 3 then wseq (write_u16 0) (write_padding (n - 2))
      else if n \<le> 7 then wseq (write_u32 0) (write_padding (n - 4))
      else wseq write_u64_zero (write_padding (n - 8)))"

declare write_padding.simps [simp del]

text \<open>The \<open>for\<close> loops over the elements of a repeated field.\<close>

primrec write_many :: "('a \<Rightarrow> writer) \<Rightarrow> 'a list \<Rightarrow> writer" where
  "write_many w [] = wskip"
| "write_many w (x # xs) = wseq (w x) (write_many w xs)"

primrec read_many :: "nat \<Rightarrow> 'a decoder \<Rightarrow> 'a list decoder" where
  "read_many 0 d = dreturn []"
| "read_many (Suc n) d = dbind d (\<lambda>x. dbind (read_many n d) (\<lambda>xs. dreturn (x # xs)))"

text \<open>A check that fails with an error before or after bytes are moved.\<close>

definition dcheck :: "codec_error + unit \<Rightarrow> unit decoder" where
  "dcheck r src = and_then r (\<lambda>_. Inr ((), src))"

definition wcheck :: "codec_error + unit \<Rightarrow> writer" where
  "wcheck r dst = and_then r (\<lambda>_. Inr dst)"

definition cast_length_u16 :: "string \<Rightarrow> usize \<Rightarrow> codec_error + u16" where
  "cast_length_u16 field n =
     (if n < 2 ^ 16 then Inr (of_nat n) else Inl (InvalidField field ''too many elements'' None))"

definition cast_length_u8 :: "string \<Rightarrow> usize \<Rightarrow> codec_error + u8" where
  "cast_length_u8 field n =
     (if n < 2 ^ 8 then Inr (of_nat n) else Inl (InvalidField field ''too many elements'' None))"

section \<open>Whole buffers and optional parts\<close>

definition encode_vec :: "('a \<Rightarrow> usize) \<Rightarrow> ('a \<Rightarrow> writer) \<Rightarrow> 'a \<Rightarrow> codec_error + bytes" where
  "encode_vec size_of enc pdu =
     and_then (enc pdu (wc_new (replicate (size_of pdu) 0))) (\<lambda>dst. Inr (wc_inner dst))"

definition decode :: "'a decoder \<Rightarrow> bytes \<Rightarrow> codec_error + 'a" where
  "decode dec bs = and_then (dec (rc_new bs)) (\<lambda>(x, src). Inr x)"

definition encode_opt :: "('a \<Rightarrow> writer) \<Rightarrow> 'a option \<Rightarrow> writer" where
  "encode_opt enc part = (case part of None \<Rightarrow> wskip | Some x \<Rightarrow> enc x)"

definition size_opt :: "('a \<Rightarrow> usize) \<Rightarrow> 'a option \<Rightarrow> usize" where
  "size_opt size_of part = (case part of None \<Rightarrow> 0 | Some x \<Rightarrow> size_of x)"

definition decode_if :: "bool \<Rightarrow> 'a decoder \<Rightarrow> 'a option decoder" where
  "decode_if present dec =
     (if present then dbind dec (\<lambda>x. dreturn (Some x)) else dreturn None)"


section \<open>What the cursors do\<close>

definition rc_ok :: "read_cursor \<Rightarrow> bool" where
  "rc_ok src \<longleftrightarrow> rc_pos src \<le> length (rc_inner src)"

definition rc_rest :: "read_cursor \<Rightarrow> bytes" where
  "rc_rest src = drop (rc_pos src) (rc_inner src)"

abbreviation wc_room :: "write_cursor \<Rightarrow> nat \<Rightarrow> bool" where
  "wc_room dst n \<equiv> wc_pos dst + n \<le> length (wc_inner dst)"

lemma rc_new_simps [simp]: "rc_pos (rc_new bs) = 0" "rc_inner (rc_new bs) = bs"
  by (simp_all add: rc_new_def)

lemma rc_advance_simps [simp]:
  "rc_pos (rc_advance n src) = rc_pos src + n"
  "rc_inner (rc_advance n src) = rc_inner src"
  "rc_advance m (rc_advance n src) = rc_advance (n + m) src"
  "rc_advance 0 src = src"
  by (simp_all add: rc_advance_def)

lemma rc_rest_simps [simp]:
  "rc_rest (rc_new bs) = bs"
  "rc_rest (rc_advance n src) = drop n (rc_rest src)"
  "rc_ok (rc_new bs)"
  "rc_ok src \<Longrightarrow> rc_ok (rc_advance n src) \<longleftrightarrow> n \<le> length (rc_rest src)"
  by (auto simp: rc_rest_def rc_ok_def add.commute)

lemma rc_rest_ok: "rc_rest src \<noteq> [] \<Longrightarrow> rc_ok src"
  by (auto simp: rc_rest_def rc_ok_def)

lemma wc_put_simps [simp]:
  "wc_pos (wc_put bs dst) = wc_pos dst + length bs"
  "wc_room dst (length bs) \<Longrightarrow> length (wc_inner (wc_put bs dst)) = length (wc_inner dst)"
  by (simp_all add: wc_put_def)

lemma wc_put_put [simp]:
  "wc_pos dst \<le> length (wc_inner dst) \<Longrightarrow> wc_put bs' (wc_put bs dst) = wc_put (bs @ bs') dst"
  by (simp add: wc_put_def min_def ac_simps)

lemma wc_put_nil [simp]: "wc_put [] dst = dst"
  by (simp add: wc_put_def)

lemma rc_len_eq: "rc_len src = length (rc_rest src)"
  by (simp add: rc_len_def rc_rest_def)

lemma dbind_simps [codec_simps]:
  "dbind d f src = and_then (d src) (\<lambda>(x, src'). f x src')"
  "dreturn x src = Inr (x, src)"
  "dfail e src = Inl e"
  by (simp_all add: dbind_def dreturn_def dfail_def)

lemma wseq_simps [codec_simps]:
  "wseq w1 w2 dst = and_then (w1 dst) w2"
  "wskip dst = Inr dst"
  "wfail e dst = Inl e"
  by (simp_all add: wseq_def wskip_def wfail_def)

lemma ensure_size_rest [codec_simps]:
  "ensure_size n src =
     (if n \<le> length (rc_rest src) then Inr ((), src)
      else Inl (NotEnoughBytes (length (rc_rest src)) n (Some (rc_pos src))))"
  by (simp add: ensure_size_def rc_len_eq)

lemma read_slice_rest:
  "rc_ok src \<Longrightarrow> read_slice n src =
     (if n \<le> length (rc_rest src) then Inr (take n (rc_rest src), rc_advance n src) else Inl Panic)"
  by (auto simp: read_slice_def rc_ok_def rc_rest_def)

lemma read_slice_append:
  assumes "rc_rest src = bs @ r" and "rc_ok src"
  shows "read_slice (length bs) src = Inr (bs, rc_advance (length bs) src)"
proof -
  have "length bs \<le> length (rc_rest src)" "take (length bs) (rc_rest src) = bs"
    unfolding assms(1) by simp_all
  then show ?thesis by (simp only: read_slice_rest [OF assms(2)] if_True)
qed

lemma read_slice_short:
  "length (rc_rest src) < n \<Longrightarrow> read_slice n src = Inl Panic"
  by (auto simp: read_slice_def rc_rest_def)

lemma read_slice_few_rest:
  "read_slice 1 src =
     (case rc_rest src of b0 # r \<Rightarrow> Inr ([b0], rc_advance 1 src) | _ \<Rightarrow> Inl Panic)"
  "read_slice 2 src =
     (case rc_rest src of b0 # b1 # r \<Rightarrow> Inr ([b0, b1], rc_advance 2 src) | _ \<Rightarrow> Inl Panic)"
  "read_slice 4 src =
     (case rc_rest src of b0 # b1 # b2 # b3 # r \<Rightarrow> Inr ([b0, b1, b2, b3], rc_advance 4 src)
                        | _ \<Rightarrow> Inl Panic)"
  by (auto simp: read_slice_rest rc_rest_ok read_slice_short split: list.splits)

lemma read_uint_rest [codec_simps]:
  "read_u8 src = (case rc_rest src of b0 # r \<Rightarrow> Inr (b0, rc_advance 1 src) | _ \<Rightarrow> Inl Panic)"
  "read_u16 src = (case rc_rest src of b0 # b1 # r \<Rightarrow> Inr (u16_from_le_bytes b0 b1, rc_advance 2 src)
                                    | _ \<Rightarrow> Inl Panic)"
  "read_u16_be src = (case rc_rest src of b1 # b0 # r \<Rightarrow> Inr (u16_from_le_bytes b0 b1, rc_advance 2 src)
                                    | _ \<Rightarrow> Inl Panic)"
  "read_u32 src = (case rc_rest src of b0 # b1 # b2 # b3 # r \<Rightarrow>
       Inr (u32_from_le_bytes b0 b1 b2 b3, rc_advance 4 src) | _ \<Rightarrow> Inl Panic)"
  "read_u32_be src = (case rc_rest src of b3 # b2 # b1 # b0 # r \<Rightarrow>
       Inr (u32_from_le_bytes b0 b1 b2 b3, rc_advance 4 src) | _ \<Rightarrow> Inl Panic)"
  by (auto simp: read_u8_def read_u16_def read_u16_be_def read_u32_def read_u32_be_def dbind_simps
      read_slice_few_rest simp del: One_nat_def split: list.splits)

lemma le_bytes_u16 [simp]:
  "u16_from_le_bytes (ucast w) (ucast (drop_bit 8 w)) = w"
  by (rule bit_eqI) (auto simp: u16_from_le_bytes_def bit_simps)

lemma le_bytes_u32 [simp]:
  "u32_from_le_bytes (ucast w) (ucast (drop_bit 8 w)) (ucast (drop_bit 16 w)) (ucast (drop_bit 24 w)) = w"
proof (rule bit_word_eqI)
  fix n assume "n < LENGTH(32)"
  then consider "n < 8" | "8 \<le> n" "n < 16" | "16 \<le> n" "n < 24" | "24 \<le> n" "n < 32"
    by force
  then show "bit (u32_from_le_bytes (ucast w) (ucast (drop_bit 8 w)) (ucast (drop_bit 16 w))
      (ucast (drop_bit 24 w))) n = bit w n"
    by cases (auto simp: u32_from_le_bytes_def bit_simps)
qed

lemma length_le_bytes [simp]:
  "length (u16_to_le_bytes w) = 2" "length (u32_to_le_bytes v) = 4"
  by (simp_all add: u16_to_le_bytes_def u32_to_le_bytes_def)

lemma ensure_size_in_room [codec_simps]:
  "wc_pos dst \<le> length (wc_inner dst) \<Longrightarrow> wc_room dst n \<Longrightarrow> ensure_size_in n dst = Inr dst"
  by (simp add: ensure_size_in_def wc_len_def)

lemma write_slice_room [codec_simps]:
  "wc_room dst (length bs) \<Longrightarrow> write_slice bs dst = Inr (wc_put bs dst)"
  by (simp add: write_slice_def)

lemmas write_uint_defs [codec_simps] =
  write_u8_def write_u16_def write_u16_be_def write_u32_def write_u32_be_def

lemma write_many_u8_room [codec_simps]:
  "wc_room dst (length xs) \<Longrightarrow>
   write_many (\<lambda>x. write_slice [f x]) xs dst = Inr (wc_put (map f xs) dst)"
  by (induction xs arbitrary: dst) (auto simp: codec_simps)

lemma read_many_u8_rest [codec_simps]:
  "rc_ok src \<Longrightarrow> read_many n (dbind read_u8 (\<lambda>b. dreturn (f b))) src =
     (if n \<le> length (rc_rest src) then Inr (map f (take n (rc_rest src)), rc_advance n src)
      else Inl Panic)"
proof (induction n arbitrary: src)
  case (Suc n)
  then show ?case
    by (cases "rc_rest src") (auto simp: codec_simps)
qed (simp add: codec_simps)

lemma check_simps [codec_simps]:
  "dcheck r src = and_then r (\<lambda>_. Inr ((), src))"
  "wcheck r dst = and_then r (\<lambda>_. Inr dst)"
  by (simp_all add: dcheck_def wcheck_def)

lemma wseq_zeros:
  assumes "k \<le> n" "wc_room dst n" "w1 dst = Inr (wc_put (replicate k 0) dst)"
    "\<And>dst'. wc_room dst' (n - k) \<Longrightarrow> w2 dst' = Inr (wc_put (replicate (n - k) 0) dst')"
  shows "wseq w1 w2 dst = Inr (wc_put (replicate n 0) dst)"
  using assms by (simp add: wseq_def replicate_add [symmetric])

lemma write_zeros:
  "wc_room dst 1 \<Longrightarrow> write_u8 0 dst = Inr (wc_put (replicate 1 0) dst)"
  "wc_room dst 2 \<Longrightarrow> write_u16 0 dst = Inr (wc_put (replicate 2 0) dst)"
  "wc_room dst 4 \<Longrightarrow> write_u32 0 dst = Inr (wc_put (replicate 4 0) dst)"
  "wc_room dst 8 \<Longrightarrow> write_u64_zero dst = Inr (wc_put (replicate 8 0) dst)"
  by (simp_all add: codec_simps write_u64_zero_def u16_to_le_bytes_def u32_to_le_bytes_def
      numeral_eq_Suc)

lemma write_padding_room [codec_simps]:
  "wc_room dst n \<Longrightarrow> write_padding n dst = Inr (wc_put (replicate n 0) dst)"
proof (induction n arbitrary: dst rule: write_padding.induct)
  case (1 n)
  consider "n = 0" | "n = 1" | "2 \<le> n" "n \<le> 3" | "4 \<le> n" "n \<le> 7" | "8 \<le> n" by linarith
  then show ?case
  proof cases
    case 1 then show ?thesis by (subst write_padding.simps) (simp add: wskip_def)
  next
    case 2
    have "write_padding 0 = wskip" by (subst write_padding.simps) simp
    with 2 "1.prems" show ?thesis
      by (subst write_padding.simps) (simp add: write_zeros(1) [simplified] codec_simps)
  next
    case 3
    with "1.prems" "1.IH"(2) show ?thesis
      by (subst write_padding.simps) (auto intro!: wseq_zeros write_zeros)
  next
    case 4
    with "1.prems" "1.IH"(3) show ?thesis
      by (subst write_padding.simps) (auto intro!: wseq_zeros write_zeros)
  next
    case 5
    with "1.prems" "1.IH"(4) show ?thesis
      by (subst write_padding.simps) (auto intro!: wseq_zeros write_zeros)
  qed
qed

text \<open>The byte layouts of integers, in terms of which the layouts of PDUs are written.\<close>

definition be16 :: "u16 \<Rightarrow> bytes" where "be16 w = rev (u16_to_le_bytes w)"
definition be32 :: "u32 \<Rightarrow> bytes" where "be32 w = rev (u32_to_le_bytes w)"

lemma be_lengths [simp]: "length (be16 w) = 2" "length (be32 v) = 4"
  by (simp_all add: be16_def be32_def)

lemmas byte_layouts = be16_def be32_def u16_to_le_bytes_def u32_to_le_bytes_def

section \<open>The contract of a codec\<close>

text \<open>
  A PDU type comes with an encoder, a decoder, a size and the byte layout the two
  agree on. In \<open>tail_codec\<close> the layout extends to the end of the buffer (the decoder
  takes all remaining bytes as payload); a \<open>wire_codec\<close> stops by itself and so can
  be followed by other parts of a packet.
\<close>

locale tail_codec =
  fixes enc :: "'a \<Rightarrow> writer"
    and dec :: "'a decoder"
    and size_of :: "'a \<Rightarrow> usize"
    and layout :: "'a \<Rightarrow> bytes"
    and valid :: "'a \<Rightarrow> bool"
  assumes enc_layout:
      "valid x \<Longrightarrow> wc_room dst (length (layout x)) \<Longrightarrow> enc x dst = Inr (wc_put (layout x) dst)"
    and size_layout: "valid x \<Longrightarrow> size_of x = length (layout x)"
    and dec_tail:
      "valid x \<Longrightarrow> rc_ok src \<Longrightarrow> rc_rest src = layout x \<Longrightarrow>
       dec src = Inr (x, rc_advance (length (layout x)) src)"
begin

lemma encode_vec_layout: "valid x \<Longrightarrow> encode_vec size_of enc x = Inr (layout x)"
  by (simp add: encode_vec_def enc_layout size_layout wc_new_def wc_put_def)

lemma decode_layout: "valid x \<Longrightarrow> decode dec (layout x) = Inr x"
  by (simp add: decode_def dec_tail)

lemma round_trip: "valid x \<Longrightarrow> and_then (encode_vec size_of enc x) (decode dec) = Inr x"
  by (simp add: encode_vec_layout decode_layout)

lemma layout_inject: "valid x \<Longrightarrow> valid y \<Longrightarrow> layout x = layout y \<Longrightarrow> x = y"
  using decode_layout by (metis sum.inject(2))

end

locale wire_codec = tail_codec +
  assumes dec_layout:
    "valid x \<Longrightarrow> rc_ok src \<Longrightarrow> rc_rest src = layout x @ r \<Longrightarrow>
     dec src = Inr (x, rc_advance (length (layout x)) src)"
begin

definition opt_layout :: "'a option \<Rightarrow> bytes" where
  "opt_layout part = (case part of None \<Rightarrow> [] | Some x \<Rightarrow> layout x)"

definition opt_valid :: "'a option \<Rightarrow> bool" where
  "opt_valid part = (case part of None \<Rightarrow> True | Some x \<Rightarrow> valid x)"

lemma encode_opt_layout:
  "opt_valid part \<Longrightarrow> wc_room dst (length (opt_layout part)) \<Longrightarrow>
   encode_opt enc part dst = Inr (wc_put (opt_layout part) dst)"
  by (cases part) (simp_all add: encode_opt_def opt_layout_def opt_valid_def codec_simps enc_layout)

lemma size_opt_layout: "opt_valid part \<Longrightarrow> size_opt size_of part = length (opt_layout part)"
  by (cases part) (simp_all add: size_opt_def opt_layout_def opt_valid_def size_layout)

lemma decode_if_layout:
  "opt_valid part \<Longrightarrow> rc_ok src \<Longrightarrow> rc_rest src = opt_layout part @ r \<Longrightarrow>
   decode_if (part \<noteq> None) dec src = Inr (part, rc_advance (length (opt_layout part)) src)"
  by (cases part) (simp_all add: decode_if_def opt_layout_def opt_valid_def codec_simps dec_layout)

lemma decode_prefix: "valid x \<Longrightarrow> decode dec (layout x @ r) = Inr x"
  by (simp add: decode_def dec_layout)

lemma layout_prefix_free:
  "valid x \<Longrightarrow> valid y \<Longrightarrow> layout x @ r = layout y @ r' \<Longrightarrow> x = y \<and> r = r'"
  using decode_prefix by (metis same_append_eq sum.inject(2))

end

section \<open>Decoders that never read out of range\<close>

text \<open>
  \<open>dec_safe n d\<close>: whenever at least \<open>n\<close> bytes are left, \<open>d\<close> does not panic and leaves the
  cursor inside its buffer. The rules follow the shape of the decoders: every
  \<open>ensure_size!\<close> buys a number of bytes that the reads after it use up.
\<close>

definition dec_safe :: "nat \<Rightarrow> 'a decoder \<Rightarrow> bool" where
  "dec_safe n d \<longleftrightarrow>
     (\<forall>src. rc_ok src \<longrightarrow> n \<le> length (rc_rest src) \<longrightarrow>
       (case d src of
          Inl e \<Rightarrow> e \<noteq> Panic
        | Inr (x, src') \<Rightarrow> rc_ok src' \<and> rc_inner src' = rc_inner src \<and> rc_pos src \<le> rc_pos src'))"

lemma dec_safe_weaken: "dec_safe m d \<Longrightarrow> m \<le> n \<Longrightarrow> dec_safe n d"
  by (auto simp: dec_safe_def)

lemma dec_safe_return [safe_intros]: "dec_safe n (dreturn x)"
  by (simp add: dec_safe_def codec_simps)

lemma dec_safe_fail [safe_intros]: "e \<noteq> Panic \<Longrightarrow> dec_safe n (dfail e)"
  by (simp add: dec_safe_def codec_simps)

lemma dec_safe_if [safe_intros]:
  "(b \<Longrightarrow> dec_safe n d1) \<Longrightarrow> (\<not> b \<Longrightarrow> dec_safe n d2) \<Longrightarrow> dec_safe n (if b then d1 else d2)"
  by simp

lemma dec_safe_prod [safe_intros]:
  "(\<And>a b. dec_safe n (f a b)) \<Longrightarrow> dec_safe n (case p of (a, b) \<Rightarrow> f a b)"
  by (cases p) simp

lemma dec_safe_peek_len [safe_intros]:
  "(b \<Longrightarrow> dec_safe m d1) \<Longrightarrow> dec_safe n d2 \<Longrightarrow>
   dec_safe n (\<lambda>src. if b \<and> m \<le> rc_len src then d1 src else d2 src)"
  by (auto simp: dec_safe_def rc_len_eq)

lemma dec_safe_bind:
  assumes "dec_safe n d" "\<And>x. dec_safe 0 (f x)"
  shows "dec_safe n (dbind d f)"
  unfolding dec_safe_def
proof (intro allI impI)
  fix src assume src: "rc_ok src" "n \<le> length (rc_rest src)"
  show "case dbind d f src of Inl e \<Rightarrow> e \<noteq> Panic
        | Inr (x, src') \<Rightarrow> rc_ok src' \<and> rc_inner src' = rc_inner src \<and> rc_pos src \<le> rc_pos src'"
  proof (cases "d src")
    case (Inl e)
    with assms(1) src show ?thesis by (auto simp: dec_safe_def codec_simps dest!: spec [of _ src])
  next
    case (Inr p)
    obtain x src' where p: "p = (x, src')" by fastforce
    have "rc_ok src'" "rc_inner src' = rc_inner src" "rc_pos src \<le> rc_pos src'"
      using assms(1) src Inr p by (auto simp: dec_safe_def dest!: spec [of _ src])
    moreover have "case f x src' of Inl e \<Rightarrow> e \<noteq> Panic
        | Inr (x, src'') \<Rightarrow> rc_ok src'' \<and> rc_inner src'' = rc_inner src' \<and> rc_pos src' \<le> rc_pos src''"
      using assms(2) [of x] \<open>rc_ok src'\<close> by (auto simp: dec_safe_def dest!: spec [of _ src'])
    ultimately show ?thesis
      by (auto simp: Inr p codec_simps split: sum.splits)
  qed
qed

lemma dec_safe_ensure [safe_intros]:
  "dec_safe (max n m) (f ()) \<Longrightarrow> dec_safe n (dbind (ensure_size m) f)"
  by (auto simp: dec_safe_def codec_simps)

lemma dec_safe_read_slice [safe_intros]:
  assumes "k \<le> n" "\<And>bs. length bs = k \<Longrightarrow> dec_safe (n - k) (f bs)"
  shows "dec_safe n (dbind (read_slice k) f)"
  unfolding dec_safe_def
proof (intro allI impI)
  fix src assume src: "rc_ok src" "n \<le> length (rc_rest src)"
  let ?src = "rc_advance k src"
  have "dec_safe (n - k) (f (take k (rc_rest src)))" using assms src by simp
  moreover have "rc_ok ?src" "n - k \<le> length (rc_rest ?src)" using src assms(1) by auto
  ultimately have "case f (take k (rc_rest src)) ?src of Inl e \<Rightarrow> e \<noteq> Panic
     | Inr (x, src') \<Rightarrow> rc_ok src' \<and> rc_inner src' = rc_inner ?src \<and> rc_pos ?src \<le> rc_pos src'"
    unfolding dec_safe_def by blast
  then show "case dbind (read_slice k) f src of Inl e \<Rightarrow> e \<noteq> Panic
     | Inr (x, src') \<Rightarrow> rc_ok src' \<and> rc_inner src' = rc_inner src \<and> rc_pos src \<le> rc_pos src'"
    using src assms(1) by (auto simp: codec_simps read_slice_rest split: sum.splits)
qed

lemma dbind_assoc:
  "dbind (dbind d g) f = dbind d (\<lambda>x. dbind (g x) f)" "dbind (dreturn x) f = f x"
  by (auto simp: codec_simps and_then_def split: sum.splits)

lemma dec_safe_reads [safe_intros]:
  "1 \<le> n \<Longrightarrow> (\<And>x. dec_safe (n - 1) (f8 x)) \<Longrightarrow> dec_safe n (dbind read_u8 f8)"
  "2 \<le> n \<Longrightarrow> (\<And>x. dec_safe (n - 2) (f16 x)) \<Longrightarrow> dec_safe n (dbind read_u16 f16)"
  "2 \<le> n \<Longrightarrow> (\<And>x. dec_safe (n - 2) (f16 x)) \<Longrightarrow> dec_safe n (dbind read_u16_be f16)"
  "4 \<le> n \<Longrightarrow> (\<And>x. dec_safe (n - 4) (f32 x)) \<Longrightarrow> dec_safe n (dbind read_u32 f32)"
  "4 \<le> n \<Longrightarrow> (\<And>x. dec_safe (n - 4) (f32 x)) \<Longrightarrow> dec_safe n (dbind read_u32_be f32)"
  unfolding read_u8_def read_u16_def read_u16_be_def read_u32_def read_u32_be_def dbind_assoc
  by (auto intro!: dec_safe_read_slice simp del: One_nat_def)

lemma dec_safe_check [safe_intros]:
  "r \<noteq> Inl Panic \<Longrightarrow> dec_safe n (f ()) \<Longrightarrow> dec_safe n (dbind (dcheck r) f)"
  by (cases r) (auto simp: dec_safe_def codec_simps)

lemma dec_safe_read_padding [safe_intros]:
  assumes "k \<le> n" "dec_safe (n - k) (f ())"
  shows "dec_safe n (dbind (read_padding k) f)"
proof -
  have "dec_safe n (dbind (read_slice k) (\<lambda>_. f ()))"
    using assms by (intro dec_safe_read_slice)
  moreover have "dbind (read_padding k) f src = dbind (read_slice k) (\<lambda>_. f ()) src"
    if "rc_ok src" "n \<le> length (rc_rest src)" for src
    using that assms(1) by (simp add: codec_simps read_slice_rest read_padding_def)
  ultimately show ?thesis by (simp add: dec_safe_def)
qed

lemma dec_safe_read_many_u8 [safe_intros]:
  assumes "k \<le> n" "\<And>xs. length xs = k \<Longrightarrow> dec_safe (n - k) (f xs)"
  shows "dec_safe n (dbind (read_many k (dbind read_u8 (\<lambda>b. dreturn (g b)))) f)"
proof -
  have "dec_safe n (dbind (read_slice k) (\<lambda>bs. f (map g bs)))"
    using assms by (intro dec_safe_read_slice) simp_all
  moreover have "dbind (read_many k (dbind read_u8 (\<lambda>b. dreturn (g b)))) f src =
      dbind (read_slice k) (\<lambda>bs. f (map g bs)) src"
    if "rc_ok src" "n \<le> length (rc_rest src)" for src
    using that assms(1) by (simp add: codec_simps read_slice_rest)
  ultimately show ?thesis by (simp add: dec_safe_def)
qed

lemma dec_safe_decode_if:
  "dec_safe 0 d \<Longrightarrow> dec_safe n (decode_if b d)"
  unfolding decode_if_def
  by (auto intro!: dec_safe_bind safe_intros intro: dec_safe_weaken)

lemma dec_safe_decode: "dec_safe 0 d \<Longrightarrow> decode d bs \<noteq> Inl Panic"
  by (auto simp: dec_safe_def decode_def and_then_def dest!: spec [of _ "rc_new bs"]
      split: sum.splits prod.splits)

end
