(* ===== verification/Pdu_V1.thy ===== *)
theory Pdu_V1
  imports Wire
begin

text \<open>
  The MS-RDPEUDP (version 1) handshake datagrams: \<open>pdu/v1_flags.rs\<close>, \<open>v1_header.rs\<close>,
  \<open>v1_syn.rs\<close>, \<open>v1_ack.rs\<close> and \<open>V1Datagram\<close> of \<open>pdu/mod.rs\<close> in
  \<open>crates/ironrdp-rdpeudp\<close>. Each structure is an instance of the codec contract of
  \<open>Wire\<close>; the datagram's round trip and the absence of out-of-range reads follow.
\<close>

section \<open>Flags\<close>

definition V1_SYN :: u16 where "V1_SYN = 0x0001"
definition V1_FIN :: u16 where "V1_FIN = 0x0002"
definition V1_ACK :: u16 where "V1_ACK = 0x0004"
definition V1_DATA :: u16 where "V1_DATA = 0x0008"
definition V1_FEC :: u16 where "V1_FEC = 0x0010"
definition V1_CN :: u16 where "V1_CN = 0x0020"
definition V1_CWR :: u16 where "V1_CWR = 0x0040"
definition V1_SACK_OPTION :: u16 where "V1_SACK_OPTION = 0x0080"
definition V1_ACK_OF_ACKS :: u16 where "V1_ACK_OF_ACKS = 0x0100"
definition V1_SYNLOSSY :: u16 where "V1_SYNLOSSY = 0x0200"
definition V1_ACKDELAYED :: u16 where "V1_ACKDELAYED = 0x0400"
definition V1_CORRELATION_ID :: u16 where "V1_CORRELATION_ID = 0x0800"
definition V1_SYNEX :: u16 where "V1_SYNEX = 0x1000"

lemmas V1_flag_defs =
  V1_SYN_def V1_FIN_def V1_ACK_def V1_DATA_def V1_FEC_def V1_CN_def V1_CWR_def V1_SACK_OPTION_def
  V1_ACK_OF_ACKS_def V1_SYNLOSSY_def V1_ACKDELAYED_def V1_CORRELATION_ID_def V1_SYNEX_def

definition v1_flags_from_bits_truncate :: "u16 \<Rightarrow> u16" where
  "v1_flags_from_bits_truncate raw = raw AND
     (V1_SYN OR V1_FIN OR V1_ACK OR V1_DATA OR V1_FEC OR V1_CN OR V1_CWR OR V1_SACK_OPTION OR
      V1_ACK_OF_ACKS OR V1_SYNLOSSY OR V1_ACKDELAYED OR V1_CORRELATION_ID OR V1_SYNEX)"

definition flags_contain :: "u16 \<Rightarrow> u16 \<Rightarrow> bool" where
  "flags_contain flags other \<longleftrightarrow> flags AND other = other"

section \<open>Structures of a datagram\<close>

subsection \<open>RDPUDP_FEC_HEADER\<close>

record fec_header =
  sn_source_ack :: u32
  receive_window_size :: u16
  fec_flags :: u16

definition fec_header_size :: "fec_header \<Rightarrow> usize" where
  "fec_header_size h = 8"

definition encode_fec_header :: "fec_header \<Rightarrow> writer" where
  "encode_fec_header h =
     wseq (ensure_size_in 8)
    (wseq (write_u32_be (sn_source_ack h))
    (wseq (write_u16_be (receive_window_size h))
          (write_u16_be (fec_flags h))))"

definition decode_fec_header :: "fec_header decoder" where
  "decode_fec_header =
     dbind (ensure_size 8) (\<lambda>_.
     dbind read_u32_be (\<lambda>sn.
     dbind read_u16_be (\<lambda>win.
     dbind read_u16_be (\<lambda>flags_raw.
     dreturn \<lparr>sn_source_ack = sn, receive_window_size = win,
              fec_flags = v1_flags_from_bits_truncate flags_raw\<rparr>))))"

subsection \<open>RDPUDP_SYNDATA_PAYLOAD\<close>

definition MTU_MIN :: u16 where "MTU_MIN = 1132"
definition MTU_MAX :: u16 where "MTU_MAX = 1232"

record syn_data_payload =
  initial_sequence_number :: u32
  upstream_mtu :: u16
  downstream_mtu :: u16

definition validate_mtu :: "u16 \<Rightarrow> string \<Rightarrow> codec_error + unit" where
  "validate_mtu v field =
     (if \<not> (MTU_MIN \<le> v \<and> v \<le> MTU_MAX)
      then Inl (InvalidField field ''mtu must be in 1132..=1232'' None) else Inr ())"

definition syn_data_size :: "syn_data_payload \<Rightarrow> usize" where
  "syn_data_size p = 8"

definition encode_syn_data :: "syn_data_payload \<Rightarrow> writer" where
  "encode_syn_data p =
     wseq (ensure_size_in 8)
    (wseq (wcheck (validate_mtu (upstream_mtu p) ''uUpStreamMtu''))
    (wseq (wcheck (validate_mtu (downstream_mtu p) ''uDownStreamMtu''))
    (wseq (write_u32_be (initial_sequence_number p))
    (wseq (write_u16_be (upstream_mtu p))
          (write_u16_be (downstream_mtu p))))))"

definition decode_syn_data :: "syn_data_payload decoder" where
  "decode_syn_data =
     dbind (ensure_size 8) (\<lambda>_.
     dbind read_u32_be (\<lambda>isn.
     dbind read_u16_be (\<lambda>up.
     dbind read_u16_be (\<lambda>down.
     dbind (dcheck (validate_mtu up ''uUpStreamMtu'')) (\<lambda>_.
     dbind (dcheck (validate_mtu down ''uDownStreamMtu'')) (\<lambda>_.
     dreturn \<lparr>initial_sequence_number = isn, upstream_mtu = up, downstream_mtu = down\<rparr>))))))"

subsection \<open>RDPUDP_SYNDATAEX_PAYLOAD\<close>

definition SYNEX_VERSION_INFO_VALID :: u16 where "SYNEX_VERSION_INFO_VALID = 0x0001"

definition syn_ex_flags_from_bits_truncate :: "u16 \<Rightarrow> u16" where
  "syn_ex_flags_from_bits_truncate raw = raw AND SYNEX_VERSION_INFO_VALID"

definition UDP_V1 :: u16 where "UDP_V1 = 0x0001"
definition UDP_V2 :: u16 where "UDP_V2 = 0x0002"
definition UDP_V3 :: u16 where "UDP_V3 = 0x0101"

definition uses_v2_wire_format :: "u16 \<Rightarrow> bool" where
  "uses_v2_wire_format ver \<longleftrightarrow> ver = UDP_V3"

record syn_data_ex_payload =
  syn_ex_flags :: u16
  udp_ver :: u16
  cookie_hash :: "bytes option"

definition syn_data_ex_size :: "syn_data_ex_payload \<Rightarrow> usize" where
  "syn_data_ex_size p = (if cookie_hash p \<noteq> None then 4 + 32 else 4)"

definition encode_syn_data_ex :: "syn_data_ex_payload \<Rightarrow> writer" where
  "encode_syn_data_ex p =
     (if cookie_hash p \<noteq> None \<and> udp_ver p \<noteq> UDP_V3
      then wfail (InvalidField ''cookieHash'' ''is only carried when uUdpVer is version 3'' None)
      else
       wseq (ensure_size_in (syn_data_ex_size p))
      (wseq (write_u16_be (syn_ex_flags p))
      (wseq (write_u16_be (udp_ver p))
            (case cookie_hash p of None \<Rightarrow> wskip | Some hash \<Rightarrow> write_slice hash))))"

definition decode_syn_data_ex_fixed_part :: "(u16 \<times> u16) decoder" where
  "decode_syn_data_ex_fixed_part =
     dbind (ensure_size 4) (\<lambda>_.
     dbind read_u16_be (\<lambda>raw.
     dbind read_u16_be (\<lambda>ver.
     dreturn (syn_ex_flags_from_bits_truncate raw, ver))))"

definition decode_directional :: "bool \<Rightarrow> syn_data_ex_payload decoder" where
  "decode_directional is_client_syn =
     dbind decode_syn_data_ex_fixed_part (\<lambda>(flags, ver).
     dbind (if is_client_syn \<and> ver = UDP_V3
            then dbind (ensure_size 32) (\<lambda>_. dbind (read_slice 32) (\<lambda>h. dreturn (Some h)))
            else dreturn None) (\<lambda>hash.
     dreturn \<lparr>syn_ex_flags = flags, udp_ver = ver, cookie_hash = hash\<rparr>))"

definition decode_syn_data_ex :: "syn_data_ex_payload decoder" where
  "decode_syn_data_ex =
     dbind decode_syn_data_ex_fixed_part (\<lambda>(flags, ver).
     dbind (\<lambda>src. if ver = UDP_V3 \<and> 32 \<le> rc_len src
                  then dbind (read_slice 32) (\<lambda>h. dreturn (Some h)) src
                  else dreturn None src) (\<lambda>hash.
     dreturn \<lparr>syn_ex_flags = flags, udp_ver = ver, cookie_hash = hash\<rparr>))"

subsection \<open>RDPUDP_ACK_VECTOR_HEADER\<close>

datatype vector_element_state =
  DatagramReceived | Reserved1 | Reserved2 | DatagramNotYetReceived

fun state_to_bits :: "vector_element_state \<Rightarrow> u8" where
  "state_to_bits DatagramReceived = 0"
| "state_to_bits Reserved1 = 1"
| "state_to_bits Reserved2 = 2"
| "state_to_bits DatagramNotYetReceived = 3"

definition state_from_bits :: "u8 \<Rightarrow> vector_element_state" where
  "state_from_bits bits =
     (if bits AND 0x03 = 0 then DatagramReceived
      else if bits AND 0x03 = 1 then Reserved1
      else if bits AND 0x03 = 2 then Reserved2
      else DatagramNotYetReceived)"

definition is_received :: "vector_element_state \<Rightarrow> bool" where
  "is_received s \<longleftrightarrow> s = DatagramReceived"

record v1_ack_vector_element =
  el_state :: vector_element_state
  el_length :: u8

definition MAX_LENGTH :: u8 where "MAX_LENGTH = 0x3F"

definition element_to_byte :: "v1_ack_vector_element \<Rightarrow> u8" where
  "element_to_byte e = push_bit 6 (state_to_bits (el_state e)) OR (el_length e AND MAX_LENGTH)"

definition element_from_byte :: "u8 \<Rightarrow> v1_ack_vector_element" where
  "element_from_byte b =
     \<lparr>el_state = state_from_bits (drop_bit 6 b), el_length = b AND MAX_LENGTH\<rparr>"

record v1_ack_vector_header =
  elements :: "v1_ack_vector_element list"

definition next_multiple_of_4 :: "usize \<Rightarrow> usize" where
  "next_multiple_of_4 n = (if n mod 4 = 0 then n else n + (4 - n mod 4))"

definition v1_padding_len :: "usize \<Rightarrow> usize" where
  "v1_padding_len count = next_multiple_of_4 (2 + count) - 2 - count"

definition validate_element_count :: "usize \<Rightarrow> codec_error + unit" where
  "validate_element_count count =
     (if count > 2048
      then Inl (InvalidField ''uAckVectorSize'' ''ack vector must not exceed 2048 bytes'' None)
      else Inr ())"

definition v1_ack_vector_size :: "v1_ack_vector_header \<Rightarrow> usize" where
  "v1_ack_vector_size h = 2 + length (elements h) + v1_padding_len (length (elements h))"

definition encode_v1_ack_vector :: "v1_ack_vector_header \<Rightarrow> writer" where
  "encode_v1_ack_vector h =
     wseq (wcheck (validate_element_count (length (elements h))))
    (\<lambda>dst. and_then (cast_length_u16 ''uAckVectorSize'' (length (elements h))) (\<lambda>count.
     wseq (ensure_size_in (v1_ack_vector_size h))
    (wseq (write_u16_be count)
    (wseq (write_many (\<lambda>e. write_u8 (element_to_byte e)) (elements h))
          (write_padding (v1_padding_len (length (elements h)))))) dst))"

definition decode_v1_ack_vector :: "v1_ack_vector_header decoder" where
  "decode_v1_ack_vector =
     dbind (ensure_size 2) (\<lambda>_.
     dbind read_u16_be (\<lambda>count.
     dbind (dcheck (validate_element_count (unat count))) (\<lambda>_.
     dbind (ensure_size (unat count + v1_padding_len (unat count))) (\<lambda>_.
     dbind (read_many (unat count) (dbind read_u8 (\<lambda>b. dreturn (element_from_byte b)))) (\<lambda>els.
     dbind (read_padding (v1_padding_len (unat count))) (\<lambda>_.
     dreturn \<lparr>elements = els\<rparr>))))))"

subsection \<open>RDPUDP_ACK_OF_ACKVECTOR_HEADER and RDPUDP_CORRELATION_ID_PAYLOAD\<close>

record v1_ack_of_acks_header =
  reset_seq_num :: u32

definition v1_ack_of_acks_size :: "v1_ack_of_acks_header \<Rightarrow> usize" where
  "v1_ack_of_acks_size h = 4"

definition encode_v1_ack_of_acks :: "v1_ack_of_acks_header \<Rightarrow> writer" where
  "encode_v1_ack_of_acks h = wseq (ensure_size_in 4) (write_u32_be (reset_seq_num h))"

definition decode_v1_ack_of_acks :: "v1_ack_of_acks_header decoder" where
  "decode_v1_ack_of_acks =
     dbind (ensure_size 4) (\<lambda>_. dbind read_u32_be (\<lambda>n. dreturn \<lparr>reset_seq_num = n\<rparr>))"

record correlation_id_payload =
  correlation_id :: bytes

definition correlation_id_size :: "correlation_id_payload \<Rightarrow> usize" where
  "correlation_id_size p = 32"

definition encode_correlation_id :: "correlation_id_payload \<Rightarrow> writer" where
  "encode_correlation_id p =
     wseq (ensure_size_in 32) (wseq (write_slice (correlation_id p)) (write_padding 16))"

definition decode_correlation_id :: "correlation_id_payload decoder" where
  "decode_correlation_id =
     dbind (ensure_size 32) (\<lambda>_.
     dbind (read_slice 16) (\<lambda>cid.
     dbind (read_padding 16) (\<lambda>_.
     dreturn \<lparr>correlation_id = cid\<rparr>)))"

section \<open>The datagram\<close>

record v1_datagram =
  v1_header :: fec_header
  v1_ack_vector :: "v1_ack_vector_header option"
  v1_ack_of_acks :: "v1_ack_of_acks_header option"
  v1_syn_data :: "syn_data_payload option"
  v1_correlation_id :: "correlation_id_payload option"
  v1_syn_data_ex :: "syn_data_ex_payload option"

definition V1_STANDALONE_FLAGS :: u16 where
  "V1_STANDALONE_FLAGS = V1_FIN OR V1_CN OR V1_CWR OR V1_SACK_OPTION OR V1_SYNLOSSY OR V1_ACKDELAYED"

definition v1_compute_flags :: "v1_datagram \<Rightarrow> u16" where
  "v1_compute_flags d =
     (let flags = v1_flags_from_bits_truncate (fec_flags (v1_header d) AND V1_STANDALONE_FLAGS);
          flags = (if v1_ack_vector d \<noteq> None then flags OR V1_ACK else flags);
          flags = (if v1_ack_of_acks d \<noteq> None then flags OR V1_ACK_OF_ACKS else flags);
          flags = (if v1_syn_data d \<noteq> None
                   then flags OR V1_SYN OR (fec_flags (v1_header d) AND V1_ACK) else flags);
          flags = (if v1_correlation_id d \<noteq> None then flags OR V1_CORRELATION_ID else flags);
          flags = (if v1_syn_data_ex d \<noteq> None then flags OR V1_SYNEX else flags)
      in flags)"

definition v1_datagram_size :: "v1_datagram \<Rightarrow> usize" where
  "v1_datagram_size d =
     fec_header_size (v1_header d)
     + size_opt v1_ack_vector_size (v1_ack_vector d)
     + size_opt v1_ack_of_acks_size (v1_ack_of_acks d)
     + size_opt syn_data_size (v1_syn_data d)
     + size_opt correlation_id_size (v1_correlation_id d)
     + size_opt syn_data_ex_size (v1_syn_data_ex d)"

definition v1_is_client_syn :: "u16 \<Rightarrow> bool" where
  "v1_is_client_syn flags \<longleftrightarrow> flags_contain flags V1_SYN \<and> \<not> flags_contain flags V1_ACK"

definition v1_check_cookie_hash :: "u16 \<Rightarrow> syn_data_ex_payload option \<Rightarrow> codec_error + unit" where
  "v1_check_cookie_hash flags part =
     (case part of
        None \<Rightarrow> Inr ()
      | Some p \<Rightarrow>
          if (cookie_hash p \<noteq> None) \<noteq> (v1_is_client_syn flags \<and> udp_ver p = UDP_V3)
          then Inl (InvalidField ''syn_data_ex''
            ''cookieHash must be present if and only if this is a version 3 client-to-server SYN'' None)
          else Inr ())"

definition encode_v1_datagram :: "v1_datagram \<Rightarrow> writer" where
  "encode_v1_datagram d =
     (if v1_syn_data d \<noteq> None \<and> v1_ack_vector d \<noteq> None
      then wfail (InvalidField ''ack_vector'' ''a SYN datagram cannot carry an ACK vector'' None)
      else
       let flags = v1_compute_flags d in
       wseq (wcheck (v1_check_cookie_hash flags (v1_syn_data_ex d)))
      (wseq (ensure_size_in (v1_datagram_size d))
      (wseq (encode_fec_header ((v1_header d)\<lparr>fec_flags := flags\<rparr>))
      (wseq (encode_opt encode_v1_ack_vector (v1_ack_vector d))
      (wseq (encode_opt encode_v1_ack_of_acks (v1_ack_of_acks d))
      (wseq (encode_opt encode_syn_data (v1_syn_data d))
      (wseq (encode_opt encode_correlation_id (v1_correlation_id d))
            (encode_opt encode_syn_data_ex (v1_syn_data_ex d)))))))))"

definition decode_v1_datagram :: "v1_datagram decoder" where
  "decode_v1_datagram =
     dbind decode_fec_header (\<lambda>header.
     if flags_contain (fec_flags header) V1_DATA
     then dfail (InvalidField ''flags'' ''DATA flag is not supported in handshake datagrams'' None)
     else if flags_contain (fec_flags header) V1_FEC
     then dfail (InvalidField ''flags'' ''FEC flag is not supported in handshake datagrams'' None)
     else
       dbind (decode_if (flags_contain (fec_flags header) V1_ACK \<and>
                         \<not> flags_contain (fec_flags header) V1_SYN) decode_v1_ack_vector) (\<lambda>av.
       dbind (decode_if (flags_contain (fec_flags header) V1_ACK_OF_ACKS) decode_v1_ack_of_acks) (\<lambda>aoa.
       dbind (decode_if (flags_contain (fec_flags header) V1_SYN) decode_syn_data) (\<lambda>sd.
       dbind (decode_if (flags_contain (fec_flags header) V1_CORRELATION_ID) decode_correlation_id) (\<lambda>cid.
       dbind (decode_if (flags_contain (fec_flags header) V1_SYNEX)
                (decode_directional (v1_is_client_syn (fec_flags header)))) (\<lambda>sdx.
       dreturn \<lparr>v1_header = header, v1_ack_vector = av, v1_ack_of_acks = aoa, v1_syn_data = sd,
                v1_correlation_id = cid, v1_syn_data_ex = sdx\<rparr>))))))"

section \<open>Each structure is a codec\<close>

text \<open>Byte layouts the encoders and decoders agree on, in wire order.\<close>

definition fec_layout :: "fec_header \<Rightarrow> bytes" where
  "fec_layout h = be32 (sn_source_ack h) @ be16 (receive_window_size h) @ be16 (fec_flags h)"

definition fec_valid :: "fec_header \<Rightarrow> bool" where
  "fec_valid h \<longleftrightarrow> v1_flags_from_bits_truncate (fec_flags h) = fec_flags h"

interpretation fec: wire_codec encode_fec_header decode_fec_header fec_header_size fec_layout fec_valid
  by unfold_locales
    (simp_all add: encode_fec_header_def decode_fec_header_def fec_header_size_def fec_layout_def
      fec_valid_def codec_simps byte_layouts)

definition syn_data_layout :: "syn_data_payload \<Rightarrow> bytes" where
  "syn_data_layout p =
     be32 (initial_sequence_number p) @ be16 (upstream_mtu p) @ be16 (downstream_mtu p)"

definition syn_data_valid :: "syn_data_payload \<Rightarrow> bool" where
  "syn_data_valid p \<longleftrightarrow>
     upstream_mtu p \<in> {MTU_MIN..MTU_MAX} \<and> downstream_mtu p \<in> {MTU_MIN..MTU_MAX}"

interpretation syn_data: wire_codec encode_syn_data decode_syn_data syn_data_size
    syn_data_layout syn_data_valid
  by unfold_locales
    (simp_all add: encode_syn_data_def decode_syn_data_def syn_data_size_def syn_data_layout_def
      syn_data_valid_def validate_mtu_def codec_simps byte_layouts)

definition syn_data_ex_layout :: "syn_data_ex_payload \<Rightarrow> bytes" where
  "syn_data_ex_layout p =
     be16 (syn_ex_flags p) @ be16 (udp_ver p) @ (case cookie_hash p of None \<Rightarrow> [] | Some h \<Rightarrow> h)"

text \<open>A payload a peer that knows the direction of the datagram can read back.\<close>

definition syn_data_ex_valid :: "bool \<Rightarrow> syn_data_ex_payload \<Rightarrow> bool" where
  "syn_data_ex_valid is_client_syn p \<longleftrightarrow>
     syn_ex_flags_from_bits_truncate (syn_ex_flags p) = syn_ex_flags p \<and>
     (case cookie_hash p of
        None \<Rightarrow> \<not> (is_client_syn \<and> udp_ver p = UDP_V3)
      | Some h \<Rightarrow> is_client_syn \<and> udp_ver p = UDP_V3 \<and> length h = 32)"

interpretation syn_data_ex: wire_codec encode_syn_data_ex "decode_directional client" syn_data_ex_size
    syn_data_ex_layout "syn_data_ex_valid client" for client
  by unfold_locales
    (auto simp: encode_syn_data_ex_def decode_directional_def decode_syn_data_ex_fixed_part_def
      syn_data_ex_size_def syn_data_ex_layout_def syn_data_ex_valid_def codec_simps byte_layouts
      read_slice_rest split: option.splits)

text \<open>
  Read on its own, without a direction, the same payload is the \<open>tail_codec\<close> the doc
  comment describes: right only when the buffer holds exactly this structure.
\<close>

interpretation syn_data_ex_alone: tail_codec encode_syn_data_ex decode_syn_data_ex syn_data_ex_size
    syn_data_ex_layout "\<lambda>p. syn_data_ex_valid True p \<or> syn_data_ex_valid False p"
  by unfold_locales
    (auto simp: encode_syn_data_ex_def decode_syn_data_ex_def decode_syn_data_ex_fixed_part_def
      syn_data_ex_size_def syn_data_ex_layout_def syn_data_ex_valid_def codec_simps byte_layouts
      read_slice_rest rc_len_eq split: option.splits)

lemma element_byte_parts:
  fixes s l :: u8
  assumes "s \<le> 3"
  shows "drop_bit 6 (push_bit 6 s OR (l AND 0x3F)) AND 3 = s"
    and "(push_bit 6 s OR (l AND 0x3F)) AND 0x3F = l AND 0x3F"
proof -
  have mask: "(0x3F :: u8) = mask 6" "(3 :: u8) = mask 2" by (simp_all add: mask_eq_exp_minus_1)
  have s: "take_bit 2 s = s"
    using assms by (intro word_take_bit_self) (simp add: word_le_nat_alt)
  show "drop_bit 6 (push_bit 6 s OR (l AND 0x3F)) AND 3 = s"
    by (subst s [symmetric], unfold mask, rule bit_word_eqI)
       (auto simp: bit_simps)
  show "(push_bit 6 s OR (l AND 0x3F)) AND 0x3F = l AND 0x3F"
    unfolding mask by (rule bit_word_eqI) (auto simp: bit_simps)
qed

lemma element_byte_round_trip:
  assumes "el_length e \<le> MAX_LENGTH"
  shows "element_from_byte (element_to_byte e) = e"
proof -
  have mask: "(0x3F :: u8) = mask 6" by (simp add: mask_eq_exp_minus_1)
  have "unat (el_length e) < 2 ^ 6"
    using assms unat_mono [of "el_length e" 64] by (simp add: MAX_LENGTH_def word_le_nat_alt)
  then have "el_length e AND 0x3F = el_length e"
    unfolding mask take_bit_eq_mask [symmetric] by (rule word_take_bit_self)
  then show ?thesis
    using element_byte_parts [of "state_to_bits (el_state e)" "el_length e"]
    by (cases e; cases "el_state e")
       (simp_all add: element_from_byte_def element_to_byte_def MAX_LENGTH_def state_from_bits_def)
qed

definition v1_ack_vector_layout :: "v1_ack_vector_header \<Rightarrow> bytes" where
  "v1_ack_vector_layout h =
     be16 (of_nat (length (elements h))) @ map element_to_byte (elements h)
     @ replicate (v1_padding_len (length (elements h))) 0"

definition v1_ack_vector_valid :: "v1_ack_vector_header \<Rightarrow> bool" where
  "v1_ack_vector_valid h \<longleftrightarrow>
     length (elements h) \<le> 2048 \<and> list_all (\<lambda>e. el_length e \<le> MAX_LENGTH) (elements h)"

lemma map_element_round_trip:
  "list_all (\<lambda>e. el_length e \<le> MAX_LENGTH) es \<Longrightarrow>
   map (element_from_byte \<circ> element_to_byte) es = es"
  by (induction es) (simp_all add: element_byte_round_trip)

interpretation v1_ack_vector: wire_codec encode_v1_ack_vector decode_v1_ack_vector
    v1_ack_vector_size v1_ack_vector_layout v1_ack_vector_valid
  by unfold_locales
    (auto simp: encode_v1_ack_vector_def decode_v1_ack_vector_def v1_ack_vector_size_def
      v1_ack_vector_layout_def v1_ack_vector_valid_def validate_element_count_def
      cast_length_u16_def read_padding_def codec_simps byte_layouts unat_of_nat
      map_element_round_trip)

definition v1_ack_of_acks_layout :: "v1_ack_of_acks_header \<Rightarrow> bytes" where
  "v1_ack_of_acks_layout h = be32 (reset_seq_num h)"

interpretation v1_ack_of_acks: wire_codec encode_v1_ack_of_acks decode_v1_ack_of_acks
    v1_ack_of_acks_size v1_ack_of_acks_layout "\<lambda>_. True"
  by unfold_locales
    (simp_all add: encode_v1_ack_of_acks_def decode_v1_ack_of_acks_def v1_ack_of_acks_size_def
      v1_ack_of_acks_layout_def codec_simps byte_layouts)

definition correlation_id_layout :: "correlation_id_payload \<Rightarrow> bytes" where
  "correlation_id_layout p = correlation_id p @ replicate 16 0"

definition correlation_id_valid :: "correlation_id_payload \<Rightarrow> bool" where
  "correlation_id_valid p \<longleftrightarrow> length (correlation_id p) = 16"

interpretation correlation_id: wire_codec encode_correlation_id decode_correlation_id
    correlation_id_size correlation_id_layout correlation_id_valid
  by unfold_locales
    (simp_all add: encode_correlation_id_def decode_correlation_id_def correlation_id_size_def
      correlation_id_layout_def correlation_id_valid_def read_padding_def codec_simps read_slice_rest)

section \<open>The datagram is a codec\<close>

lemmas flag_eval = flags_contain_def V1_flag_defs V1_STANDALONE_FLAGS_def
  v1_flags_from_bits_truncate_def bit.conj_disj_distrib bit.conj_disj_distrib2 and.assoc

lemma v1_compute_flags_contain:
  "flags_contain (v1_compute_flags d) V1_SYN \<longleftrightarrow> v1_syn_data d \<noteq> None"
  "flags_contain (v1_compute_flags d) V1_ACK \<longleftrightarrow>
     v1_ack_vector d \<noteq> None \<or> (v1_syn_data d \<noteq> None \<and> flags_contain (fec_flags (v1_header d)) V1_ACK)"
  "flags_contain (v1_compute_flags d) V1_ACK_OF_ACKS \<longleftrightarrow> v1_ack_of_acks d \<noteq> None"
  "flags_contain (v1_compute_flags d) V1_CORRELATION_ID \<longleftrightarrow> v1_correlation_id d \<noteq> None"
  "flags_contain (v1_compute_flags d) V1_SYNEX \<longleftrightarrow> v1_syn_data_ex d \<noteq> None"
  "\<not> flags_contain (v1_compute_flags d) V1_DATA"
  "\<not> flags_contain (v1_compute_flags d) V1_FEC"
  by (simp_all add: v1_compute_flags_def Let_def flag_eval)

lemma v1_compute_flags_truncate:
  "v1_flags_from_bits_truncate (v1_compute_flags d) = v1_compute_flags d"
  by (simp add: v1_compute_flags_def Let_def flag_eval)

definition v1_normal :: "v1_datagram \<Rightarrow> v1_datagram" where
  "v1_normal d = d\<lparr>v1_header := (v1_header d)\<lparr>fec_flags := v1_compute_flags d\<rparr>\<rparr>"

definition v1_datagram_valid :: "v1_datagram \<Rightarrow> bool" where
  "v1_datagram_valid d \<longleftrightarrow>
     (v1_syn_data d = None \<or> v1_ack_vector d = None) \<and>
     v1_ack_vector.opt_valid (v1_ack_vector d) \<and>
     syn_data.opt_valid (v1_syn_data d) \<and>
     correlation_id.opt_valid (v1_correlation_id d) \<and>
     syn_data_ex.opt_valid (v1_is_client_syn (v1_compute_flags d)) (v1_syn_data_ex d)"

definition v1_datagram_layout :: "v1_datagram \<Rightarrow> bytes" where
  "v1_datagram_layout d =
     fec_layout ((v1_header d)\<lparr>fec_flags := v1_compute_flags d\<rparr>)
     @ v1_ack_vector.opt_layout (v1_ack_vector d)
     @ v1_ack_of_acks.opt_layout (v1_ack_of_acks d)
     @ syn_data.opt_layout (v1_syn_data d)
     @ correlation_id.opt_layout (v1_correlation_id d)
     @ syn_data_ex.opt_layout (v1_syn_data_ex d)"

lemma v1_ack_of_acks_opt_valid: "v1_ack_of_acks.opt_valid part"
  by (cases part) (simp_all add: v1_ack_of_acks.opt_valid_def)

lemma v1_check_cookie_hash_valid:
  "syn_data_ex.opt_valid (v1_is_client_syn flags) part \<Longrightarrow> v1_check_cookie_hash flags part = Inr ()"
  by (auto simp: v1_check_cookie_hash_def syn_data_ex.opt_valid_def syn_data_ex_valid_def
      split: option.splits)

lemma v1_datagram_size_layout:
  assumes "v1_datagram_valid d"
  shows "v1_datagram_size d = length (v1_datagram_layout d)"
  using assms v1_ack_of_acks_opt_valid
  by (simp add: v1_datagram_valid_def v1_datagram_size_def v1_datagram_layout_def
      v1_ack_vector.size_opt_layout v1_ack_of_acks.size_opt_layout syn_data.size_opt_layout
      correlation_id.size_opt_layout fec_header_size_def fec_layout_def
      syn_data_ex.size_opt_layout [of "v1_is_client_syn (v1_compute_flags d)"])

lemma encode_v1_datagram_layout:
  assumes "v1_datagram_valid d" "wc_room dst (length (v1_datagram_layout d))"
  shows "encode_v1_datagram d dst = Inr (wc_put (v1_datagram_layout d) dst)"
proof -
  let ?h = "(v1_header d)\<lparr>fec_flags := v1_compute_flags d\<rparr>"
  have "fec_valid ?h" by (simp add: fec_valid_def v1_compute_flags_truncate)
  then show ?thesis
    using assms v1_ack_of_acks_opt_valid [of "v1_ack_of_acks d"] v1_datagram_size_layout [OF assms(1)]
    by (auto simp: v1_datagram_valid_def encode_v1_datagram_def v1_datagram_layout_def Let_def
        codec_simps v1_check_cookie_hash_valid fec.enc_layout v1_ack_vector.encode_opt_layout
        v1_ack_of_acks.encode_opt_layout syn_data.encode_opt_layout
        correlation_id.encode_opt_layout syn_data_ex.encode_opt_layout)
qed

lemma decode_v1_datagram_layout:
  assumes "v1_datagram_valid d" "rc_ok src" "rc_rest src = v1_datagram_layout d @ r"
  shows "decode_v1_datagram src = Inr (v1_normal d, rc_advance (length (v1_datagram_layout d)) src)"
proof -
  let ?h = "(v1_header d)\<lparr>fec_flags := v1_compute_flags d\<rparr>"
  have h: "fec_valid ?h" by (simp add: fec_valid_def v1_compute_flags_truncate)
  have gate: "flags_contain (v1_compute_flags d) V1_ACK \<and> v1_syn_data d = None \<longleftrightarrow> v1_ack_vector d \<noteq> None"
    using assms(1) by (auto simp: v1_compute_flags_contain v1_datagram_valid_def)
  show ?thesis
    using assms h v1_ack_of_acks_opt_valid [of "v1_ack_of_acks d"]
    by (simp add: v1_datagram_valid_def decode_v1_datagram_def v1_datagram_layout_def codec_simps gate
        v1_normal_def v1_compute_flags_contain(1,3-7) fec.dec_layout v1_ack_vector.decode_if_layout
        v1_ack_of_acks.decode_if_layout syn_data.decode_if_layout
        correlation_id.decode_if_layout syn_data_ex.decode_if_layout del: not_None_eq)
qed

interpretation v1_datagram: wire_codec encode_v1_datagram decode_v1_datagram v1_datagram_size
    v1_datagram_layout "\<lambda>d. v1_datagram_valid d \<and> v1_normal d = d"
  by unfold_locales
    (auto simp: encode_v1_datagram_layout v1_datagram_size_layout decode_v1_datagram_layout
      dest: decode_v1_datagram_layout [where r = "[]"])

text \<open>
  The field types of the source: arrays of 32 and 16 bytes, a run length of six bits,
  flags without unknown bits.
\<close>

definition v1_typed :: "v1_datagram \<Rightarrow> bool" where
  "v1_typed d \<longleftrightarrow>
     pred_option (\<lambda>h. list_all (\<lambda>e. el_length e \<le> MAX_LENGTH) (elements h)) (v1_ack_vector d) \<and>
     pred_option (\<lambda>p. length (correlation_id p) = 16) (v1_correlation_id d) \<and>
     pred_option (\<lambda>p. syn_ex_flags_from_bits_truncate (syn_ex_flags p) = syn_ex_flags p \<and>
       pred_option (\<lambda>h. length h = 32) (cookie_hash p)) (v1_syn_data_ex d)"

lemma encode_accepts_parts:
  "encode_v1_ack_vector h dst = Inr dst' \<Longrightarrow> length (elements h) \<le> 2048"
  "encode_syn_data p dst = Inr dst' \<Longrightarrow> syn_data_valid p"
  by (auto simp: encode_v1_ack_vector_def validate_element_count_def encode_syn_data_def
      syn_data_valid_def validate_mtu_def codec_simps and_then_Inr_iff split: if_splits)

lemma encode_v1_datagram_accepts:
  assumes "v1_typed d" "encode_v1_datagram d dst = Inr dst'"
  shows "v1_datagram_valid d"
proof -
  have 1: "v1_syn_data d = None \<or> v1_ack_vector d = None"
    using assms(2) by (auto simp: encode_v1_datagram_def codec_simps split: if_splits)
  with assms(2) obtain dst1 dst2 where parts:
      "v1_check_cookie_hash (v1_compute_flags d) (v1_syn_data_ex d) = Inr ()"
      "\<exists>c c'. encode_opt encode_v1_ack_vector (v1_ack_vector d) c = Inr c'"
      "\<exists>c c'. encode_opt encode_syn_data (v1_syn_data d) c = Inr c'"
    by (auto simp: encode_v1_datagram_def Let_def codec_simps and_then_Inr_iff split: if_splits)
  have "v1_ack_vector.opt_valid (v1_ack_vector d)"
    using parts(2) assms(1)
    by (auto simp: v1_typed_def v1_ack_vector.opt_valid_def v1_ack_vector_valid_def encode_opt_def
        dest: encode_accepts_parts split: option.splits)
  moreover have "syn_data.opt_valid (v1_syn_data d)"
    using parts(3) by (auto simp: syn_data.opt_valid_def encode_opt_def
        dest: encode_accepts_parts split: option.splits)
  moreover have "correlation_id.opt_valid (v1_correlation_id d)"
    using assms(1) by (auto simp: v1_typed_def correlation_id.opt_valid_def correlation_id_valid_def
        split: option.splits)
  moreover have "syn_data_ex.opt_valid (v1_is_client_syn (v1_compute_flags d)) (v1_syn_data_ex d)"
    using parts(1) assms(1)
    by (auto simp: v1_typed_def v1_check_cookie_hash_def syn_data_ex.opt_valid_def
        syn_data_ex_valid_def split: option.splits if_splits)
  ultimately show ?thesis using 1 by (simp add: v1_datagram_valid_def)
qed

lemma encode_vec_v1_layout:
  "v1_datagram_valid d \<Longrightarrow>
   encode_vec v1_datagram_size encode_v1_datagram d = Inr (v1_datagram_layout d)"
  by (simp add: encode_vec_def encode_v1_datagram_layout v1_datagram_size_layout wc_new_def wc_put_def)

lemma encode_vec_v1_accepts:
  "v1_typed d \<Longrightarrow> encode_vec v1_datagram_size encode_v1_datagram d = Inr bs \<Longrightarrow> v1_datagram_valid d"
  by (auto simp: encode_vec_def and_then_Inr_iff dest: encode_v1_datagram_accepts)

lemmas v1_decoder_defs =
  decode_fec_header_def decode_syn_data_def decode_syn_data_ex_fixed_part_def decode_directional_def
  decode_syn_data_ex_def decode_v1_ack_vector_def decode_v1_ack_of_acks_def decode_correlation_id_def

lemma v1_checks_no_panic:
  "validate_mtu v field \<noteq> Inl Panic" "validate_element_count n \<noteq> Inl Panic"
  by (simp_all add: validate_mtu_def validate_element_count_def)

lemma v1_decoders_safe:
  "dec_safe 0 decode_fec_header" "dec_safe 0 decode_syn_data" "dec_safe 0 (decode_directional c)"
  "dec_safe 0 decode_syn_data_ex"
  "dec_safe 0 decode_v1_ack_vector" "dec_safe 0 decode_v1_ack_of_acks" "dec_safe 0 decode_correlation_id"
  unfolding v1_decoder_defs
  by ((rule safe_intros | rule dec_safe_bind | simp add: v1_checks_no_panic)+)

lemma decode_v1_datagram_safe: "dec_safe 0 decode_v1_datagram"
  unfolding decode_v1_datagram_def
  by (intro dec_safe_bind v1_decoders_safe dec_safe_decode_if safe_intros) simp_all


definition sample_client_syn :: v1_datagram where
  "sample_client_syn =
     \<lparr>v1_header = \<lparr>sn_source_ack = 0xFFFFFFFF, receive_window_size = 1024,
                   fec_flags = V1_SYN OR V1_SYNLOSSY OR V1_SYNEX\<rparr>,
      v1_ack_vector = None, v1_ack_of_acks = None,
      v1_syn_data = Some \<lparr>initial_sequence_number = 7, upstream_mtu = 1232, downstream_mtu = 1232\<rparr>,
      v1_correlation_id = None,
      v1_syn_data_ex = Some \<lparr>syn_ex_flags = SYNEX_VERSION_INFO_VALID, udp_ver = UDP_V3,
                             cookie_hash = Some (replicate 32 5)\<rparr>\<rparr>"

lemma sample_client_syn_valid: "v1_datagram_valid sample_client_syn"
  by (simp add: sample_client_syn_def v1_datagram_valid_def v1_compute_flags_def v1_is_client_syn_def
      flag_eval v1_ack_vector.opt_valid_def syn_data.opt_valid_def correlation_id.opt_valid_def
      syn_data_ex.opt_valid_def syn_data_valid_def MTU_MIN_def MTU_MAX_def syn_data_ex_valid_def
      syn_ex_flags_from_bits_truncate_def)


text \<open>
  A version 1 datagram from the network, whatever its bytes, never makes the
  decoder read out of range: \<open>V1Datagram::decode\<close> returns a datagram or a decode error.
\<close>

theorem v1_decode_never_panics: "decode decode_v1_datagram bs \<noteq> Inl Panic"
  by (rule dec_safe_decode [OF decode_v1_datagram_safe])

end
