(* ===== verification/Pdu_V2.thy ===== *)
theory Pdu_V2
  imports Pdu_V1
begin

text \<open>
  The MS-RDPEUDP2 (version 2 wire format) data-transfer packets: \<open>pdu/v2_flags.rs\<close>,
  \<open>v2_header.rs\<close>, \<open>v2_ack.rs\<close>, \<open>v2_control.rs\<close>, \<open>v2_data.rs\<close> and \<open>V2Packet\<close> of \<open>pdu/mod.rs\<close>.
  Every payload but the last is a \<open>wire_codec\<close>; \<open>DataBody\<close> and with it the packet take
  the rest of the buffer and are a \<open>tail_codec\<close>.
\<close>

section \<open>Header\<close>

definition V2_ACK :: u16 where "V2_ACK = 0x001"
definition V2_DATA :: u16 where "V2_DATA = 0x004"
definition V2_ACKVEC :: u16 where "V2_ACKVEC = 0x008"
definition V2_AOA :: u16 where "V2_AOA = 0x010"
definition V2_OVERHEADSIZE :: u16 where "V2_OVERHEADSIZE = 0x040"
definition V2_DELAYACKINFO :: u16 where "V2_DELAYACKINFO = 0x100"

lemmas V2_flag_defs =
  V2_ACK_def V2_DATA_def V2_ACKVEC_def V2_AOA_def V2_OVERHEADSIZE_def V2_DELAYACKINFO_def

definition V2_FLAGS_MASK :: u16 where "V2_FLAGS_MASK = 0x0FFF"

definition v2_flags_from_bits_truncate :: "u16 \<Rightarrow> u16" where
  "v2_flags_from_bits_truncate raw = raw AND
     (V2_ACK OR V2_DATA OR V2_ACKVEC OR V2_AOA OR V2_OVERHEADSIZE OR V2_DELAYACKINFO)"

definition ack_flags_valid :: "u16 \<Rightarrow> bool" where
  "ack_flags_valid flags \<longleftrightarrow> \<not> flags_contain flags (V2_ACK OR V2_ACKVEC)"

definition LOG_WINDOW_SIZE_MAX :: u8 where "LOG_WINDOW_SIZE_MAX = 15"

record v2_header =
  v2_flags :: u16
  log_window_size :: u8

definition v2_header_to_wire :: "v2_header \<Rightarrow> u16" where
  "v2_header_to_wire h =
     (v2_flags h AND V2_FLAGS_MASK) OR push_bit 12 (ucast (log_window_size h AND 0x0F))"

definition v2_header_from_wire :: "u16 \<Rightarrow> codec_error + v2_header" where
  "v2_header_from_wire wire =
     (let flags = v2_flags_from_bits_truncate (wire AND V2_FLAGS_MASK);
          lws = ucast (drop_bit 12 wire AND 0x0F)
      in if \<not> ack_flags_valid flags
         then Inl (InvalidField ''flags'' ''ACK and ACKVEC are mutually exclusive'' None)
         else Inr \<lparr>v2_flags = flags, log_window_size = lws\<rparr>)"

definition window_size :: "v2_header \<Rightarrow> u32" where
  "window_size h = push_bit (unat (log_window_size h) mod 32) 1"

definition v2_header_size :: "v2_header \<Rightarrow> usize" where
  "v2_header_size h = 2"

definition encode_v2_header :: "v2_header \<Rightarrow> writer" where
  "encode_v2_header h =
     wseq (ensure_size_in 2)
     (if log_window_size h > LOG_WINDOW_SIZE_MAX
      then wfail (InvalidField ''log_window_size'' ''exceeds 4-bit maximum (15)'' None)
      else if \<not> ack_flags_valid (v2_flags h)
      then wfail (InvalidField ''flags'' ''ACK and ACKVEC are mutually exclusive'' None)
      else write_u16 (v2_header_to_wire h))"

definition decode_v2_header :: "v2_header decoder" where
  "decode_v2_header =
     dbind (ensure_size 2) (\<lambda>_.
     dbind read_u16 (\<lambda>wire src.
       and_then (v2_header_from_wire wire) (\<lambda>h. Inr (h, src))))"

section \<open>Acknowledgement payloads\<close>

definition ACK_VECTOR_MAX_ENTRIES :: usize where "ACK_VECTOR_MAX_ENTRIES = 127"

definition TIMESTAMP_MASK :: u32 where "TIMESTAMP_MASK = 0x00FFFFFF"

record ack_payload =
  seq_num :: u16
  received_ts :: u32
  send_ack_time_gap :: u8
  delay_ack_time_scale :: u8
  delay_ack_time_additions :: bytes

definition ack_payload_size :: "ack_payload \<Rightarrow> usize" where
  "ack_payload_size p = 7 + length (delay_ack_time_additions p)"

definition num_delayed_acks :: "bytes \<Rightarrow> codec_error + u8" where
  "num_delayed_acks additions =
     (if length additions < 2 ^ 8 \<and> (of_nat (length additions) :: u8) \<le> 0x0F
      then Inr (of_nat (length additions))
      else Inl (InvalidField ''numDelayedAcks'' ''exceeds 4-bit maximum (15)'' None))"

definition timestamp_to_bytes :: "u32 \<Rightarrow> bytes" where
  "timestamp_to_bytes ts = u32_to_le_bytes (ts AND TIMESTAMP_MASK)"

definition pack_delayed_acks :: "u8 \<Rightarrow> u8 \<Rightarrow> u8" where
  "pack_delayed_acks scale n = push_bit 4 (scale AND 0x0F) OR n"

definition encode_ack_payload :: "ack_payload \<Rightarrow> writer" where
  "encode_ack_payload p =
     (let ts_bytes = timestamp_to_bytes (received_ts p) in
     wseq (ensure_size_in (ack_payload_size p))
    (wseq (write_u16 (seq_num p))
    (wseq (write_u8 (ts_bytes ! 0))
    (wseq (write_u8 (ts_bytes ! 1))
    (wseq (write_u8 (ts_bytes ! 2))
    (wseq (write_u8 (send_ack_time_gap p))
    (\<lambda>dst. and_then (num_delayed_acks (delay_ack_time_additions p)) (\<lambda>n.
       wseq (write_u8 (pack_delayed_acks (delay_ack_time_scale p) n))
            (write_slice (delay_ack_time_additions p)) dst))))))))"

definition timestamp_from_bytes :: "u8 \<Rightarrow> u8 \<Rightarrow> u8 \<Rightarrow> u32" where
  "timestamp_from_bytes b0 b1 b2 = ucast b0 OR push_bit 8 (ucast b1) OR push_bit 16 (ucast b2)"

definition decode_ack_payload :: "ack_payload decoder" where
  "decode_ack_payload =
     dbind (ensure_size 7) (\<lambda>_.
     dbind read_u16 (\<lambda>seq.
     dbind read_u8 (\<lambda>ts_b0.
     dbind read_u8 (\<lambda>ts_b1.
     dbind read_u8 (\<lambda>ts_b2.
     dbind read_u8 (\<lambda>gap.
     dbind read_u8 (\<lambda>packed.
     dbind (ensure_size (unat (packed AND 0x0F))) (\<lambda>_.
     dbind (read_slice (unat (packed AND 0x0F))) (\<lambda>additions.
     dreturn \<lparr>seq_num = seq, received_ts = timestamp_from_bytes ts_b0 ts_b1 ts_b2,
              send_ack_time_gap = gap, delay_ack_time_scale = drop_bit 4 packed AND 0x0F,
              delay_ack_time_additions = additions\<rparr>)))))))))"

datatype ack_vector_entry =
    StateMap (sm_bitmap: u8)
  | RunLength (rl_received: bool) (rl_length: u8)

fun entry_to_byte :: "ack_vector_entry \<Rightarrow> u8" where
  "entry_to_byte (StateMap bitmap) = bitmap AND 0x7F"
| "entry_to_byte (RunLength received len) =
     (if received then 0x80 OR 0x40 else 0x80) OR (len AND 0x3F)"

definition entry_from_byte :: "u8 \<Rightarrow> ack_vector_entry" where
  "entry_from_byte byte =
     (if byte AND 0x80 = 0 then StateMap (byte AND 0x7F)
      else RunLength (byte AND 0x40 \<noteq> 0) (byte AND 0x3F))"

fun coverage :: "ack_vector_entry \<Rightarrow> u16" where
  "coverage (StateMap bitmap) = 7"
| "coverage (RunLength received len) = ucast len"

record ack_vector_payload =
  base_seq_num :: u16
  timestamp :: "u32 option"
  send_ack_time_gap_ms :: "u8 option"
  entries :: "ack_vector_entry list"

definition ack_vector_size :: "ack_vector_payload \<Rightarrow> usize" where
  "ack_vector_size p =
     (if timestamp p \<noteq> None \<and> send_ack_time_gap_ms p \<noteq> None then 3 + 4 else 3) + length (entries p)"

fun check_entry :: "ack_vector_entry \<Rightarrow> codec_error + unit" where
  "check_entry (StateMap bitmap) =
     (if bitmap > 0x7F
      then Inl (InvalidField ''entries'' ''StateMap bitmap exceeds 7-bit maximum (0x7F)'' None)
      else Inr ())"
| "check_entry (RunLength received len) =
     (if len > 0x3F
      then Inl (InvalidField ''entries'' ''RunLength length exceeds 6-bit maximum (0x3F)'' None)
      else Inr ())"

primrec check_entries :: "ack_vector_entry list \<Rightarrow> codec_error + unit" where
  "check_entries [] = Inr ()"
| "check_entries (e # es) = and_then (check_entry e) (\<lambda>_. check_entries es)"

definition encode_timestamp_block :: "u32 option \<Rightarrow> u8 option \<Rightarrow> writer" where
  "encode_timestamp_block ts_opt gap_opt =
     (case (ts_opt, gap_opt) of
        (Some ts, Some gap) \<Rightarrow>
          let ts_bytes = timestamp_to_bytes ts in
          wseq (write_u8 (ts_bytes ! 0)) (wseq (write_u8 (ts_bytes ! 1))
         (wseq (write_u8 (ts_bytes ! 2)) (write_u8 gap)))
      | _ \<Rightarrow> wskip)"

definition encode_ack_vector :: "ack_vector_payload \<Rightarrow> writer" where
  "encode_ack_vector p =
     wseq (ensure_size_in (ack_vector_size p))
    (wseq (wcheck (check_entries (entries p)))
     (if (timestamp p \<noteq> None) \<noteq> (send_ack_time_gap_ms p \<noteq> None)
      then wfail (InvalidField ''timestamp''
             ''timestamp and send_ack_time_gap_ms must be both present or both absent'' None)
      else wseq (write_u16 (base_seq_num p))
        (\<lambda>dst. and_then (cast_length_u8 ''codedAckVecSize'' (length (entries p))) (\<lambda>vec_size.
          (if unat vec_size > ACK_VECTOR_MAX_ENTRIES
           then wfail (InvalidField ''codedAckVecSize'' ''exceeds 7-bit maximum (127)'' None)
           else
             wseq (write_u8 ((vec_size AND 0x7F) OR
                    (if timestamp p \<noteq> None \<and> send_ack_time_gap_ms p \<noteq> None then 0x80 else 0x00)))
            (wseq (encode_timestamp_block (timestamp p) (send_ack_time_gap_ms p))
                  (write_many (\<lambda>e. write_u8 (entry_to_byte e)) (entries p)))) dst))))"

definition decode_timestamp_block :: "bool \<Rightarrow> (u32 option \<times> u8 option) decoder" where
  "decode_timestamp_block timestamp_present =
     (if timestamp_present then
        dbind (ensure_size 4) (\<lambda>_.
        dbind read_u8 (\<lambda>ts_b0.
        dbind read_u8 (\<lambda>ts_b1.
        dbind read_u8 (\<lambda>ts_b2.
        dbind read_u8 (\<lambda>gap.
        dreturn (Some (timestamp_from_bytes ts_b0 ts_b1 ts_b2), Some gap))))))
      else dreturn (None, None))"

definition decode_ack_vector :: "ack_vector_payload decoder" where
  "decode_ack_vector =
     dbind (ensure_size 3) (\<lambda>_.
     dbind read_u16 (\<lambda>base.
     dbind read_u8 (\<lambda>packed.
     dbind (decode_timestamp_block (packed AND 0x80 \<noteq> 0)) (\<lambda>(ts, gap).
     dbind (ensure_size (unat (packed AND 0x7F))) (\<lambda>_.
     dbind (read_many (unat (packed AND 0x7F)) (dbind read_u8 (\<lambda>b. dreturn (entry_from_byte b)))) (\<lambda>es.
     dreturn \<lparr>base_seq_num = base, timestamp = ts, send_ack_time_gap_ms = gap, entries = es\<rparr>))))))"

section \<open>Control and data payloads\<close>

record overhead_size_payload =
  overhead_size :: u8

definition overhead_size_size :: "overhead_size_payload \<Rightarrow> usize" where
  "overhead_size_size p = 1"

definition encode_overhead_size :: "overhead_size_payload \<Rightarrow> writer" where
  "encode_overhead_size p = wseq (ensure_size_in 1) (write_u8 (overhead_size p))"

definition decode_overhead_size :: "overhead_size_payload decoder" where
  "decode_overhead_size = dbind (ensure_size 1) (\<lambda>_. dbind read_u8 (\<lambda>n. dreturn \<lparr>overhead_size = n\<rparr>))"

record delay_ack_info_payload =
  max_delayed_acks :: u8
  delayed_ack_timeout_ms :: u16

definition DEFAULT_MAX_DELAYED_ACKS :: u8 where "DEFAULT_MAX_DELAYED_ACKS = 8"

definition delay_ack_info_size :: "delay_ack_info_payload \<Rightarrow> usize" where
  "delay_ack_info_size p = 3"

definition encode_delay_ack_info :: "delay_ack_info_payload \<Rightarrow> writer" where
  "encode_delay_ack_info p =
     wseq (ensure_size_in 3)
    (wseq (write_u8 (max_delayed_acks p)) (write_u16 (delayed_ack_timeout_ms p)))"

definition decode_delay_ack_info :: "delay_ack_info_payload decoder" where
  "decode_delay_ack_info =
     dbind (ensure_size 3) (\<lambda>_.
     dbind read_u8 (\<lambda>n.
     dbind read_u16 (\<lambda>t.
     dreturn \<lparr>max_delayed_acks = n, delayed_ack_timeout_ms = t\<rparr>)))"

record ack_of_acks_payload =
  ack_of_acks_seq_num :: u16

definition ack_of_acks_size :: "ack_of_acks_payload \<Rightarrow> usize" where
  "ack_of_acks_size p = 2"

definition encode_ack_of_acks :: "ack_of_acks_payload \<Rightarrow> writer" where
  "encode_ack_of_acks p = wseq (ensure_size_in 2) (write_u16 (ack_of_acks_seq_num p))"

definition decode_ack_of_acks :: "ack_of_acks_payload decoder" where
  "decode_ack_of_acks =
     dbind (ensure_size 2) (\<lambda>_. dbind read_u16 (\<lambda>n. dreturn \<lparr>ack_of_acks_seq_num = n\<rparr>))"

record data_header =
  data_seq_num :: u16

definition data_header_size :: "data_header \<Rightarrow> usize" where
  "data_header_size p = 2"

definition encode_data_header :: "data_header \<Rightarrow> writer" where
  "encode_data_header p = wseq (ensure_size_in 2) (write_u16 (data_seq_num p))"

definition decode_data_header :: "data_header decoder" where
  "decode_data_header = dbind (ensure_size 2) (\<lambda>_. dbind read_u16 (\<lambda>n. dreturn \<lparr>data_seq_num = n\<rparr>))"

record data_body =
  channel_seq_num :: u16
  body_data :: bytes

definition data_body_size :: "data_body \<Rightarrow> usize" where
  "data_body_size p = 2 + length (body_data p)"

definition encode_data_body :: "data_body \<Rightarrow> writer" where
  "encode_data_body p =
     wseq (ensure_size_in (data_body_size p))
    (wseq (write_u16 (channel_seq_num p)) (write_slice (body_data p)))"

definition decode_data_body :: "data_body decoder" where
  "decode_data_body =
     dbind (ensure_size 2) (\<lambda>_.
     dbind read_u16 (\<lambda>n.
     dbind read_remaining (\<lambda>bs.
     dreturn \<lparr>channel_seq_num = n, body_data = bs\<rparr>)))"

section \<open>The packet\<close>

record v2_packet =
  v2_hdr :: v2_header
  v2_ack :: "ack_payload option"
  v2_overhead_size :: "overhead_size_payload option"
  v2_delay_ack_info :: "delay_ack_info_payload option"
  v2_ack_of_acks :: "ack_of_acks_payload option"
  v2_data_header :: "data_header option"
  v2_ack_vector :: "ack_vector_payload option"
  v2_data_body :: "data_body option"

definition v2_compute_flags :: "v2_packet \<Rightarrow> u16" where
  "v2_compute_flags p =
     (let flags = 0;
          flags = (if v2_ack p \<noteq> None then flags OR V2_ACK else flags);
          flags = (if v2_overhead_size p \<noteq> None then flags OR V2_OVERHEADSIZE else flags);
          flags = (if v2_delay_ack_info p \<noteq> None then flags OR V2_DELAYACKINFO else flags);
          flags = (if v2_ack_of_acks p \<noteq> None then flags OR V2_AOA else flags);
          flags = (if v2_data_header p \<noteq> None then flags OR V2_DATA else flags);
          flags = (if v2_ack_vector p \<noteq> None then flags OR V2_ACKVEC else flags)
      in flags)"

definition v2_packet_size :: "v2_packet \<Rightarrow> usize" where
  "v2_packet_size p =
     v2_header_size (v2_hdr p)
     + size_opt ack_payload_size (v2_ack p)
     + size_opt overhead_size_size (v2_overhead_size p)
     + size_opt delay_ack_info_size (v2_delay_ack_info p)
     + size_opt ack_of_acks_size (v2_ack_of_acks p)
     + size_opt data_header_size (v2_data_header p)
     + size_opt ack_vector_size (v2_ack_vector p)
     + size_opt data_body_size (v2_data_body p)"

definition encode_v2_packet :: "v2_packet \<Rightarrow> writer" where
  "encode_v2_packet p =
     (if (v2_data_header p \<noteq> None) \<noteq> (v2_data_body p \<noteq> None)
      then wfail (InvalidField ''DATA'' ''data_header and data_body must be both present or both absent'' None)
      else if v2_ack p \<noteq> None \<and> v2_ack_vector p \<noteq> None
      then wfail (InvalidField ''ACK/ACKVEC'' ''ACK and ACKVEC are mutually exclusive'' None)
      else
       wseq (ensure_size_in (v2_packet_size p))
      (wseq (encode_v2_header ((v2_hdr p)\<lparr>v2_flags := v2_compute_flags p\<rparr>))
      (wseq (encode_opt encode_ack_payload (v2_ack p))
      (wseq (encode_opt encode_overhead_size (v2_overhead_size p))
      (wseq (encode_opt encode_delay_ack_info (v2_delay_ack_info p))
      (wseq (encode_opt encode_ack_of_acks (v2_ack_of_acks p))
      (wseq (encode_opt encode_data_header (v2_data_header p))
      (wseq (encode_opt encode_ack_vector (v2_ack_vector p))
            (encode_opt encode_data_body (v2_data_body p))))))))))"

definition decode_v2_packet :: "v2_packet decoder" where
  "decode_v2_packet =
     dbind decode_v2_header (\<lambda>h.
     dbind (decode_if (flags_contain (v2_flags h) V2_ACK) decode_ack_payload) (\<lambda>ack.
     dbind (decode_if (flags_contain (v2_flags h) V2_OVERHEADSIZE) decode_overhead_size) (\<lambda>os.
     dbind (decode_if (flags_contain (v2_flags h) V2_DELAYACKINFO) decode_delay_ack_info) (\<lambda>dai.
     dbind (decode_if (flags_contain (v2_flags h) V2_AOA) decode_ack_of_acks) (\<lambda>aoa.
     dbind (decode_if (flags_contain (v2_flags h) V2_DATA) decode_data_header) (\<lambda>dh.
     dbind (decode_if (flags_contain (v2_flags h) V2_ACKVEC) decode_ack_vector) (\<lambda>av.
     dbind (decode_if (flags_contain (v2_flags h) V2_DATA) decode_data_body) (\<lambda>db.
     dreturn \<lparr>v2_hdr = h, v2_ack = ack, v2_overhead_size = os, v2_delay_ack_info = dai,
              v2_ack_of_acks = aoa, v2_data_header = dh, v2_ack_vector = av,
              v2_data_body = db\<rparr>))))))))"

section \<open>Each payload is a codec\<close>

lemma header_word_parts:
  fixes f :: u16 and l :: u8
  shows "((f AND 0x0FFF) OR push_bit 12 (ucast (l AND 0x0F))) AND 0x0FFF = f AND 0x0FFF"
    and "ucast (drop_bit 12 ((f AND 0x0FFF) OR push_bit 12 (ucast (l AND 0x0F))) AND 0x0F) = l AND 0x0F"
proof -
  have mask: "(0x0FFF :: u16) = mask 12" "(0x0F :: u8) = mask 4" "(0x0F :: u16) = mask 4"
    by (simp_all add: mask_eq_exp_minus_1)
  show "((f AND 0x0FFF) OR push_bit 12 (ucast (l AND 0x0F))) AND 0x0FFF = f AND 0x0FFF"
    unfolding mask by (rule bit_word_eqI) (auto simp: bit_simps)
  show "ucast (drop_bit 12 ((f AND 0x0FFF) OR push_bit 12 (ucast (l AND 0x0F))) AND 0x0F) = l AND 0x0F"
    unfolding mask by (rule bit_word_eqI) (auto simp: bit_simps)
qed

lemma low_bits_self:
  fixes w :: u8
  shows "w \<le> 0x0F \<Longrightarrow> w AND 0x0F = w" "w \<le> 0x3F \<Longrightarrow> w AND 0x3F = w" "w \<le> 0x7F \<Longrightarrow> w AND 0x7F = w"
proof -
  have mask: "(0x0F :: u8) = mask 4" "(0x3F :: u8) = mask 6" "(0x7F :: u8) = mask 7"
    by (simp_all add: mask_eq_exp_minus_1)
  show "w AND 0x0F = w" if "w \<le> 0x0F"
    unfolding mask take_bit_eq_mask [symmetric]
    using that by (intro word_take_bit_self) (simp add: word_le_nat_alt)
  show "w AND 0x3F = w" if "w \<le> 0x3F"
    unfolding mask take_bit_eq_mask [symmetric]
    using that by (intro word_take_bit_self) (simp add: word_le_nat_alt)
  show "w AND 0x7F = w" if "w \<le> 0x7F"
    unfolding mask take_bit_eq_mask [symmetric]
    using that by (intro word_take_bit_self) (simp add: word_le_nat_alt)
qed

definition v2_header_valid :: "v2_header \<Rightarrow> bool" where
  "v2_header_valid h \<longleftrightarrow>
     log_window_size h \<le> 15 \<and> v2_flags_from_bits_truncate (v2_flags h) = v2_flags h \<and>
     ack_flags_valid (v2_flags h)"

lemma v2_header_wire_round_trip:
  assumes "v2_header_valid h"
  shows "v2_header_from_wire (v2_header_to_wire h) = Inr h"
proof -
  have t: "v2_flags h AND 0x15D = v2_flags h"
    using assms by (simp add: v2_header_valid_def v2_flags_from_bits_truncate_def V2_flag_defs)
  have "v2_flags h AND 0xFFF = (v2_flags h AND 0x15D) AND 0xFFF" by (simp only: t)
  also have "\<dots> = v2_flags h AND (0x15D AND 0xFFF)" by (simp only: and.assoc)
  also have "\<dots> = v2_flags h" using t by simp
  finally have "v2_flags h AND 0xFFF = v2_flags h" .
  then show ?thesis
    using assms t header_word_parts [of "v2_flags h" "log_window_size h"]
    by (simp add: v2_header_from_wire_def v2_header_to_wire_def v2_header_valid_def Let_def
        V2_FLAGS_MASK_def low_bits_self)
qed

interpretation v2_header: wire_codec encode_v2_header decode_v2_header v2_header_size
    "\<lambda>h. u16_to_le_bytes (v2_header_to_wire h)" v2_header_valid
  by unfold_locales
    (auto simp: encode_v2_header_def decode_v2_header_def v2_header_size_def codec_simps byte_layouts
      v2_header_wire_round_trip, auto simp: v2_header_valid_def LOG_WINDOW_SIZE_MAX_def)

lemma timestamp_bytes:
  fixes ts :: u32
  assumes "unat ts < 2 ^ 24"
  shows "timestamp_to_bytes ts = u32_to_le_bytes ts"
    and "timestamp_from_bytes (ucast ts) (ucast (drop_bit 8 ts)) (ucast (drop_bit 16 ts)) = ts"
proof -
  have mask: "TIMESTAMP_MASK = mask 24" by (simp add: TIMESTAMP_MASK_def mask_eq_exp_minus_1)
  have ts: "take_bit 24 ts = ts" using assms by (rule word_take_bit_self)
  show "timestamp_to_bytes ts = u32_to_le_bytes ts"
    using ts by (simp only: timestamp_to_bytes_def mask take_bit_eq_mask)
  have "timestamp_from_bytes (ucast ts) (ucast (drop_bit 8 ts)) (ucast (drop_bit 16 ts)) = take_bit 24 ts"
  proof (rule bit_word_eqI)
    fix n assume "n < LENGTH(32)"
    then consider "n < 8" | "8 \<le> n" "n < 16" | "16 \<le> n" "n < 24" | "24 \<le> n" "n < 32" by force
    then show "bit (timestamp_from_bytes (ucast ts) (ucast (drop_bit 8 ts)) (ucast (drop_bit 16 ts))) n
        = bit (take_bit 24 ts) n"
      by cases (auto simp: timestamp_from_bytes_def bit_simps)
  qed
  with ts show "timestamp_from_bytes (ucast ts) (ucast (drop_bit 8 ts)) (ucast (drop_bit 16 ts)) = ts"
    by simp
qed

lemma packed_nibbles:
  fixes s n :: u8
  assumes "s \<le> 0x0F" "n \<le> 0x0F"
  shows "pack_delayed_acks s n AND 0x0F = n" "drop_bit 4 (pack_delayed_acks s n) AND 0x0F = s"
proof -
  have mask: "(0x0F :: u8) = mask 4" by (simp add: mask_eq_exp_minus_1)
  have "pack_delayed_acks s (n AND 0x0F) AND 0x0F = n AND 0x0F"
       "drop_bit 4 (pack_delayed_acks s (n AND 0x0F)) AND 0x0F = s AND 0x0F"
    unfolding mask pack_delayed_acks_def by (rule bit_word_eqI; auto simp: bit_simps)+
  then show "pack_delayed_acks s n AND 0x0F = n" "drop_bit 4 (pack_delayed_acks s n) AND 0x0F = s"
    by (simp_all only: low_bits_self(1) [OF assms(1)] low_bits_self(1) [OF assms(2)])
qed

lemma packed_count:
  fixes n :: u8
  assumes "n \<le> 0x7F"
  shows "(n OR 0x80) AND 0x7F = n" "(n OR 0x80) AND 0x80 \<noteq> 0" "n AND 0x80 = 0"
proof -
  have n: "n AND 0x7F = n" using assms by (rule low_bits_self(3))
  then show "(n OR 0x80) AND 0x7F = n" "(n OR 0x80) AND 0x80 \<noteq> 0"
    by (simp_all add: bit.conj_disj_distrib2)
  have "n AND 0x80 = n AND (0x7F AND 0x80)" by (metis n and.assoc)
  then show "n AND 0x80 = 0" by simp
qed

lemma entry_byte_round_trip:
  assumes "check_entry e = Inr ()"
  shows "entry_from_byte (entry_to_byte e) = e"
proof (cases e)
  case (StateMap b)
  with assms have "b \<le> 0x7F" by (simp split: if_splits)
  with packed_count(3) low_bits_self(3) show ?thesis
    by (simp add: StateMap entry_from_byte_def)
next
  case (RunLength r l)
  with assms have l: "l AND 0x3F = l" using low_bits_self(2) by (simp split: if_splits)
  have "l AND 0x80 = 0" "l AND 0x40 = 0"
    by (subst l [symmetric], simp add: and.assoc)+
  with l show ?thesis
    by (simp add: RunLength entry_from_byte_def bit.conj_disj_distrib2 and.assoc)
qed

lemma map_entry_round_trip:
  "check_entries es = Inr () \<Longrightarrow> map (entry_from_byte \<circ> entry_to_byte) es = es"
  by (induction es) (auto simp: entry_byte_round_trip and_then_Inr_iff)

definition ack_payload_valid :: "ack_payload \<Rightarrow> bool" where
  "ack_payload_valid p \<longleftrightarrow>
     unat (received_ts p) < 2 ^ 24 \<and> delay_ack_time_scale p \<le> 0x0F \<and>
     length (delay_ack_time_additions p) \<le> 15"

definition ack_payload_layout :: "ack_payload \<Rightarrow> bytes" where
  "ack_payload_layout p =
     u16_to_le_bytes (seq_num p) @ take 3 (u32_to_le_bytes (received_ts p)) @ [send_ack_time_gap p,
       pack_delayed_acks (delay_ack_time_scale p) (of_nat (length (delay_ack_time_additions p)))]
     @ delay_ack_time_additions p"

lemma of_nat_small_u8: "n \<le> 15 \<Longrightarrow> (of_nat n :: u8) \<le> 0x0F" "n \<le> 127 \<Longrightarrow> (of_nat n :: u8) \<le> 0x7F"
  by (simp_all add: word_le_nat_alt unat_of_nat)

interpretation ack_payload: wire_codec encode_ack_payload decode_ack_payload ack_payload_size
    ack_payload_layout ack_payload_valid
  by unfold_locales
    (auto simp: encode_ack_payload_def decode_ack_payload_def ack_payload_size_def
      ack_payload_layout_def ack_payload_valid_def num_delayed_acks_def codec_simps byte_layouts
      timestamp_bytes packed_nibbles of_nat_small_u8 unat_of_nat read_slice_rest)

definition ack_vector_valid :: "ack_vector_payload \<Rightarrow> bool" where
  "ack_vector_valid p \<longleftrightarrow>
     check_entries (entries p) = Inr () \<and> length (entries p) \<le> 127 \<and>
     (timestamp p = None \<longleftrightarrow> send_ack_time_gap_ms p = None) \<and>
     pred_option (\<lambda>ts. unat ts < 2 ^ 24) (timestamp p)"

definition ack_vector_layout :: "ack_vector_payload \<Rightarrow> bytes" where
  "ack_vector_layout p =
     u16_to_le_bytes (base_seq_num p)
     @ (case (timestamp p, send_ack_time_gap_ms p) of
          (Some ts, Some gap) \<Rightarrow>
            [(of_nat (length (entries p)) AND 0x7F) OR 0x80] @ take 3 (u32_to_le_bytes ts) @ [gap]
        | _ \<Rightarrow> [of_nat (length (entries p)) AND 0x7F])
     @ map entry_to_byte (entries p)"

interpretation ack_vector: wire_codec encode_ack_vector decode_ack_vector ack_vector_size
    ack_vector_layout ack_vector_valid
  by unfold_locales
    (auto simp: encode_ack_vector_def decode_ack_vector_def ack_vector_size_def
      ack_vector_layout_def ack_vector_valid_def encode_timestamp_block_def decode_timestamp_block_def
      cast_length_u8_def ACK_VECTOR_MAX_ENTRIES_def Let_def
      codec_simps byte_layouts timestamp_bytes packed_count of_nat_small_u8 unat_of_nat
      low_bits_self map_entry_round_trip split: option.splits)

lemmas v2_small_payload_defs =
  encode_overhead_size_def decode_overhead_size_def overhead_size_size_def
  encode_delay_ack_info_def decode_delay_ack_info_def delay_ack_info_size_def
  encode_ack_of_acks_def decode_ack_of_acks_def ack_of_acks_size_def
  encode_data_header_def decode_data_header_def data_header_size_def

interpretation overhead_size: wire_codec encode_overhead_size decode_overhead_size overhead_size_size
    "\<lambda>p. [overhead_size p]" "\<lambda>_. True"
  by unfold_locales (simp_all add: v2_small_payload_defs codec_simps)

interpretation delay_ack_info: wire_codec encode_delay_ack_info decode_delay_ack_info
    delay_ack_info_size "\<lambda>p. max_delayed_acks p # u16_to_le_bytes (delayed_ack_timeout_ms p)" "\<lambda>_. True"
  by unfold_locales (simp_all add: v2_small_payload_defs codec_simps byte_layouts)

interpretation ack_of_acks: wire_codec encode_ack_of_acks decode_ack_of_acks ack_of_acks_size
    "\<lambda>p. u16_to_le_bytes (ack_of_acks_seq_num p)" "\<lambda>_. True"
  by unfold_locales (simp_all add: v2_small_payload_defs codec_simps byte_layouts)

interpretation data_header: wire_codec encode_data_header decode_data_header data_header_size
    "\<lambda>p. u16_to_le_bytes (data_seq_num p)" "\<lambda>_. True"
  by unfold_locales (simp_all add: v2_small_payload_defs codec_simps byte_layouts)

interpretation data_body: tail_codec encode_data_body decode_data_body data_body_size
    "\<lambda>p. u16_to_le_bytes (channel_seq_num p) @ body_data p" "\<lambda>_. True"
  by unfold_locales
    (simp_all add: encode_data_body_def decode_data_body_def data_body_size_def codec_simps byte_layouts
      read_remaining_def read_slice_rest rc_len_eq)

section \<open>The packet is a codec\<close>

lemma v2_compute_flags_contain:
  "flags_contain (v2_compute_flags p) V2_ACK \<longleftrightarrow> v2_ack p \<noteq> None"
  "flags_contain (v2_compute_flags p) V2_OVERHEADSIZE \<longleftrightarrow> v2_overhead_size p \<noteq> None"
  "flags_contain (v2_compute_flags p) V2_DELAYACKINFO \<longleftrightarrow> v2_delay_ack_info p \<noteq> None"
  "flags_contain (v2_compute_flags p) V2_AOA \<longleftrightarrow> v2_ack_of_acks p \<noteq> None"
  "flags_contain (v2_compute_flags p) V2_DATA \<longleftrightarrow> v2_data_header p \<noteq> None"
  "flags_contain (v2_compute_flags p) V2_ACKVEC \<longleftrightarrow> v2_ack_vector p \<noteq> None"
  by (simp_all add: v2_compute_flags_def Let_def flags_contain_def V2_flag_defs bit.conj_disj_distrib2)

lemma v2_compute_flags_truncate:
  "v2_flags_from_bits_truncate (v2_compute_flags p) = v2_compute_flags p"
  by (simp add: v2_flags_from_bits_truncate_def v2_compute_flags_def Let_def V2_flag_defs
      bit.conj_disj_distrib2)

lemma v2_compute_flags_ack_valid:
  "ack_flags_valid (v2_compute_flags p) \<longleftrightarrow> v2_ack p = None \<or> v2_ack_vector p = None"
  by (simp add: ack_flags_valid_def v2_compute_flags_def Let_def flags_contain_def V2_flag_defs
      bit.conj_disj_distrib2)

definition v2_normal :: "v2_packet \<Rightarrow> v2_packet" where
  "v2_normal p = p\<lparr>v2_hdr := (v2_hdr p)\<lparr>v2_flags := v2_compute_flags p\<rparr>\<rparr>"

definition v2_packet_valid :: "v2_packet \<Rightarrow> bool" where
  "v2_packet_valid p \<longleftrightarrow>
     log_window_size (v2_hdr p) \<le> 15 \<and>
     (v2_data_header p = None \<longleftrightarrow> v2_data_body p = None) \<and>
     (v2_ack p = None \<or> v2_ack_vector p = None) \<and>
     ack_payload.opt_valid (v2_ack p) \<and> ack_vector.opt_valid (v2_ack_vector p)"

definition v2_body_layout :: "data_body option \<Rightarrow> bytes" where
  "v2_body_layout part =
     (case part of None \<Rightarrow> [] | Some b \<Rightarrow> u16_to_le_bytes (channel_seq_num b) @ body_data b)"

definition v2_packet_layout :: "v2_packet \<Rightarrow> bytes" where
  "v2_packet_layout p =
     u16_to_le_bytes (v2_header_to_wire ((v2_hdr p)\<lparr>v2_flags := v2_compute_flags p\<rparr>))
     @ ack_payload.opt_layout (v2_ack p)
     @ overhead_size.opt_layout (v2_overhead_size p)
     @ delay_ack_info.opt_layout (v2_delay_ack_info p)
     @ ack_of_acks.opt_layout (v2_ack_of_acks p)
     @ data_header.opt_layout (v2_data_header p)
     @ ack_vector.opt_layout (v2_ack_vector p)
     @ v2_body_layout (v2_data_body p)"

lemma v2_opt_valid:
  "overhead_size.opt_valid a" "delay_ack_info.opt_valid b" "ack_of_acks.opt_valid c"
  "data_header.opt_valid d"
  by (cases a; cases b; cases c; cases d;
      simp add: overhead_size.opt_valid_def delay_ack_info.opt_valid_def ack_of_acks.opt_valid_def
        data_header.opt_valid_def)+

lemma v2_body_codec:
  "size_opt data_body_size part = length (v2_body_layout part)"
  "wc_room dst (length (v2_body_layout part)) \<Longrightarrow>
     encode_opt encode_data_body part dst = Inr (wc_put (v2_body_layout part) dst)"
  "rc_ok src \<Longrightarrow> rc_rest src = v2_body_layout part \<Longrightarrow>
     decode_if (part \<noteq> None) decode_data_body src
       = Inr (part, rc_advance (length (v2_body_layout part)) src)"
  by (cases part; simp add: size_opt_def encode_opt_def decode_if_def v2_body_layout_def codec_simps
      data_body.size_layout data_body.enc_layout data_body.dec_tail)+

lemma v2_packet_size_layout:
  assumes "v2_packet_valid p"
  shows "v2_packet_size p = length (v2_packet_layout p)"
  using assms
  by (simp add: v2_packet_valid_def v2_packet_size_def v2_packet_layout_def v2_header_size_def
      v2_opt_valid v2_body_codec ack_payload.size_opt_layout overhead_size.size_opt_layout
      delay_ack_info.size_opt_layout ack_of_acks.size_opt_layout data_header.size_opt_layout
      ack_vector.size_opt_layout)

lemma encode_v2_packet_layout:
  assumes "v2_packet_valid p" "wc_room dst (length (v2_packet_layout p))"
  shows "encode_v2_packet p dst = Inr (wc_put (v2_packet_layout p) dst)"
proof -
  have "v2_header_valid ((v2_hdr p)\<lparr>v2_flags := v2_compute_flags p\<rparr>)"
    using assms(1) by (simp add: v2_header_valid_def v2_packet_valid_def v2_compute_flags_truncate
      v2_compute_flags_ack_valid)
  then show ?thesis
    using assms v2_packet_size_layout [OF assms(1)]
    by (auto simp: v2_packet_valid_def encode_v2_packet_def v2_packet_layout_def codec_simps
        v2_opt_valid v2_body_codec v2_header.enc_layout ack_payload.encode_opt_layout
        overhead_size.encode_opt_layout delay_ack_info.encode_opt_layout
        ack_of_acks.encode_opt_layout data_header.encode_opt_layout ack_vector.encode_opt_layout)
qed

lemma decode_v2_packet_layout:
  assumes "v2_packet_valid p" "rc_ok src" "rc_rest src = v2_packet_layout p"
  shows "decode_v2_packet src = Inr (v2_normal p, rc_advance (length (v2_packet_layout p)) src)"
proof -
  have h: "v2_header_valid ((v2_hdr p)\<lparr>v2_flags := v2_compute_flags p\<rparr>)"
    using assms(1) by (simp add: v2_header_valid_def v2_packet_valid_def v2_compute_flags_truncate
      v2_compute_flags_ack_valid)
  have body: "v2_data_header p \<noteq> None \<longleftrightarrow> v2_data_body p \<noteq> None"
    using assms(1) by (simp add: v2_packet_valid_def)
  have rest: "rc_rest src = u16_to_le_bytes (v2_header_to_wire ((v2_hdr p)\<lparr>v2_flags := v2_compute_flags p\<rparr>))
     @ ack_payload.opt_layout (v2_ack p) @ overhead_size.opt_layout (v2_overhead_size p)
     @ delay_ack_info.opt_layout (v2_delay_ack_info p) @ ack_of_acks.opt_layout (v2_ack_of_acks p)
     @ data_header.opt_layout (v2_data_header p) @ ack_vector.opt_layout (v2_ack_vector p)
     @ v2_body_layout (v2_data_body p)"
    using assms(3) by (simp add: v2_packet_layout_def)
  show ?thesis
    using assms(1,2) h rest
    by (simp add: v2_packet_valid_def decode_v2_packet_def v2_packet_layout_def codec_simps
        v2_normal_def v2_compute_flags_contain v2_opt_valid
        v2_header.dec_layout ack_payload.decode_if_layout overhead_size.decode_if_layout
        delay_ack_info.decode_if_layout ack_of_acks.decode_if_layout
        data_header.decode_if_layout [of "v2_data_header p", unfolded body]
        ack_vector.decode_if_layout v2_body_codec(3) del: not_None_eq)
qed

lemma encode_vec_v2_layout:
  "v2_packet_valid p \<Longrightarrow> encode_vec v2_packet_size encode_v2_packet p = Inr (v2_packet_layout p)"
  by (simp add: encode_vec_def encode_v2_packet_layout v2_packet_size_layout wc_new_def wc_put_def)

interpretation v2_packet: tail_codec encode_v2_packet decode_v2_packet v2_packet_size
    v2_packet_layout "\<lambda>p. v2_packet_valid p \<and> v2_normal p = p"
  by unfold_locales
    (auto simp: encode_v2_packet_layout v2_packet_size_layout dest: decode_v2_packet_layout)

text \<open>The fields the source cannot widen: timestamps of 24 bits, a scale of 4 bits.\<close>

definition v2_typed :: "v2_packet \<Rightarrow> bool" where
  "v2_typed p \<longleftrightarrow>
     pred_option (\<lambda>a. unat (received_ts a) < 2 ^ 24 \<and> delay_ack_time_scale a \<le> 0x0F) (v2_ack p) \<and>
     pred_option (\<lambda>a. pred_option (\<lambda>ts. unat ts < 2 ^ 24) (timestamp a)) (v2_ack_vector p)"

lemma u8_le_15_iff: "n < 256 \<Longrightarrow> (of_nat n :: u8) \<le> 15 \<longleftrightarrow> n \<le> 15"
  by (simp add: word_le_nat_alt unat_of_nat)

lemma encode_v2_accepts_parts:
  "encode_v2_header h dst = Inr dst' \<Longrightarrow> log_window_size h \<le> 15"
  "encode_ack_payload a dst = Inr dst' \<Longrightarrow> length (delay_ack_time_additions a) \<le> 15"
  "encode_ack_vector v dst = Inr dst' \<Longrightarrow>
     check_entries (entries v) = Inr () \<and> length (entries v) \<le> 127 \<and>
     (timestamp v = None \<longleftrightarrow> send_ack_time_gap_ms v = None)"
  by (auto simp: encode_v2_header_def LOG_WINDOW_SIZE_MAX_def encode_ack_payload_def Let_def
      num_delayed_acks_def encode_ack_vector_def cast_length_u8_def ACK_VECTOR_MAX_ENTRIES_def
      unat_of_nat u8_le_15_iff codec_simps and_then_Inr_iff split: if_splits)

lemma encode_v2_packet_accepts:
  assumes "v2_typed p" "encode_v2_packet p dst = Inr dst'"
  shows "v2_packet_valid p"
proof -
  have shape: "v2_data_header p = None \<longleftrightarrow> v2_data_body p = None" "v2_ack p = None \<or> v2_ack_vector p = None"
    using assms(2) by (auto simp: encode_v2_packet_def codec_simps split: if_splits)
  with assms(2) have parts:
      "\<exists>c c'. encode_v2_header ((v2_hdr p)\<lparr>v2_flags := v2_compute_flags p\<rparr>) c = Inr c'"
      "\<exists>c c'. encode_opt encode_ack_payload (v2_ack p) c = Inr c'"
      "\<exists>c c'. encode_opt encode_ack_vector (v2_ack_vector p) c = Inr c'"
    by (auto simp: encode_v2_packet_def codec_simps and_then_Inr_iff split: if_splits)
  have "log_window_size (v2_hdr p) \<le> 15"
    using parts(1) by (auto dest: encode_v2_accepts_parts)
  moreover have "ack_payload.opt_valid (v2_ack p)"
    using parts(2) assms(1) by (auto simp: v2_typed_def ack_payload.opt_valid_def ack_payload_valid_def
        encode_opt_def dest: encode_v2_accepts_parts split: option.splits)
  moreover have "ack_vector.opt_valid (v2_ack_vector p)"
    using parts(3) assms(1) by (auto simp: v2_typed_def ack_vector.opt_valid_def ack_vector_valid_def
        encode_opt_def dest: encode_v2_accepts_parts split: option.splits)
  ultimately show ?thesis using shape by (simp add: v2_packet_valid_def)
qed

lemma encode_vec_v2_accepts:
  "v2_typed p \<Longrightarrow> encode_vec v2_packet_size encode_v2_packet p = Inr bs \<Longrightarrow> v2_packet_valid p"
  by (auto simp: encode_vec_def and_then_Inr_iff dest: encode_v2_packet_accepts)

lemmas v2_decoder_defs =
  decode_v2_header_def decode_ack_payload_def decode_timestamp_block_def decode_ack_vector_def
  decode_overhead_size_def decode_delay_ack_info_def decode_ack_of_acks_def decode_data_header_def
  decode_data_body_def

lemma dec_safe_result [safe_intros]:
  "r \<noteq> Inl Panic \<Longrightarrow> dec_safe n (\<lambda>src. and_then r (\<lambda>x. Inr (x, src)))"
  by (cases r) (simp_all add: dec_safe_def)

lemma dec_safe_read_remaining [safe_intros]:
  "(\<And>bs. dec_safe 0 (f bs)) \<Longrightarrow> dec_safe n (dbind read_remaining f)"
  by (rule dec_safe_bind)
     (simp_all add: dec_safe_def read_remaining_def read_slice_rest rc_len_eq)

lemma v2_header_from_wire_no_panic: "v2_header_from_wire w \<noteq> Inl Panic"
  by (simp add: v2_header_from_wire_def Let_def)

lemma v2_decoders_safe:
  "dec_safe 0 decode_v2_header" "dec_safe 0 decode_ack_payload" "dec_safe 0 decode_ack_vector"
  "dec_safe 0 decode_overhead_size" "dec_safe 0 decode_delay_ack_info" "dec_safe 0 decode_ack_of_acks"
  "dec_safe 0 decode_data_header" "dec_safe 0 decode_data_body"
  unfolding v2_decoder_defs
  by ((rule safe_intros | rule dec_safe_bind | simp add: v2_header_from_wire_no_panic)+)

lemma decode_v2_packet_safe: "dec_safe 0 decode_v2_packet"
  unfolding decode_v2_packet_def
  by (intro dec_safe_bind v2_decoders_safe dec_safe_decode_if safe_intros)


definition sample_data_packet :: v2_packet where
  "sample_data_packet =
     \<lparr>v2_hdr = \<lparr>v2_flags = V2_DATA OR V2_ACKVEC, log_window_size = 6\<rparr>,
      v2_ack = None, v2_overhead_size = None, v2_delay_ack_info = None, v2_ack_of_acks = None,
      v2_data_header = Some \<lparr>data_seq_num = 105\<rparr>,
      v2_ack_vector = Some \<lparr>base_seq_num = 98, timestamp = Some 4096, send_ack_time_gap_ms = Some 3,
        entries = [RunLength True 2, StateMap 0x15]\<rparr>,
      v2_data_body = Some \<lparr>channel_seq_num = 6, body_data = [1, 2, 3]\<rparr>\<rparr>"


text \<open>
  No packet makes the version 2 decoder panic: on every byte string it returns a
  packet or a decoding error, and never reads outside the buffer.
\<close>

theorem v2_decode_never_panics: "decode decode_v2_packet bs \<noteq> Inl Panic"
  by (rule dec_safe_decode [OF decode_v2_packet_safe])

end
