(* ===== verification/Prefix_Frame.thy ===== *)
theory Prefix_Frame
  imports Pdu_V2
begin

text \<open>
  The framing of an RDP-UDP2 packet on the wire: the \<open>PacketPrefixByte\<close> and its swap with
  the eighth byte (\<open>pdu/prefix.rs\<close>). \<open>encode_with_prefix\<close> and \<open>decode_with_prefix\<close> are
  the two directions the connection uses around the packet codec.
\<close>

section \<open>The prefix byte\<close>

record packet_prefix_byte =
  packet_type_index :: u8
  short_packet_length :: u8

datatype prefix_error =
    PayloadTooShort usize
  | InvalidPacketType u8

definition PREFIX_SWAP_INDEX :: usize where "PREFIX_SWAP_INDEX = 7"

definition MIN_WIRE_SIZE :: usize where "MIN_WIRE_SIZE = 8"

definition compute_short_length :: "usize \<Rightarrow> u8" where
  "compute_short_length packet_size = (if packet_size < 7 then of_nat packet_size else 7)"

definition prefix_normal :: "usize \<Rightarrow> packet_prefix_byte" where
  "prefix_normal packet_size =
     \<lparr>packet_type_index = 0, short_packet_length = compute_short_length packet_size\<rparr>"

definition prefix_dummy :: "usize \<Rightarrow> packet_prefix_byte" where
  "prefix_dummy packet_size =
     \<lparr>packet_type_index = 8, short_packet_length = compute_short_length packet_size\<rparr>"

definition is_dummy :: "packet_prefix_byte \<Rightarrow> bool" where
  "is_dummy p \<longleftrightarrow> packet_type_index p = 8"

definition prefix_to_byte :: "packet_prefix_byte \<Rightarrow> u8" where
  "prefix_to_byte p =
     push_bit 5 (short_packet_length p AND 0x07) OR push_bit 1 (packet_type_index p AND 0x0F)"

definition prefix_from_byte :: "u8 \<Rightarrow> packet_prefix_byte" where
  "prefix_from_byte b =
     \<lparr>packet_type_index = drop_bit 1 b AND 0x0F, short_packet_length = drop_bit 5 b AND 0x07\<rparr>"

section \<open>Send and receive transforms\<close>

definition swap_bytes :: "nat \<Rightarrow> nat \<Rightarrow> bytes \<Rightarrow> bytes" where
  "swap_bytes i j bs = bs[i := bs ! j, j := bs ! i]"

text \<open>The loop that pads the buffer with zero bytes.\<close>

function pad_to :: "usize \<Rightarrow> bytes \<Rightarrow> bytes" where
  "pad_to n buf = (if length buf < n then pad_to n (buf @ [0]) else buf)"
  by auto
termination by (relation "measure (\<lambda>(n, buf). n - length buf)") auto

declare pad_to.simps [simp del]

definition encode_with_prefix :: "bytes \<Rightarrow> bool \<Rightarrow> prefix_error + bytes" where
  "encode_with_prefix packet dummy =
     (let prefix = (if dummy then prefix_dummy (length packet) else prefix_normal (length packet));
          padded_size = max (length packet) 7;
          wire_buf = pad_to (1 + padded_size) (prefix_to_byte prefix # packet)
      in if length wire_buf < MIN_WIRE_SIZE then Inl (PayloadTooShort (length wire_buf))
         else Inr (swap_bytes 0 PREFIX_SWAP_INDEX wire_buf))"

definition decode_with_prefix :: "bytes \<Rightarrow> prefix_error + packet_prefix_byte \<times> bytes" where
  "decode_with_prefix wire =
     (if length wire < MIN_WIRE_SIZE then Inl (PayloadTooShort (length wire))
      else
       let wire = swap_bytes 0 PREFIX_SWAP_INDEX wire;
           prefix = prefix_from_byte (wire ! 0)
       in if packet_type_index prefix \<noteq> 0 \<and> packet_type_index prefix \<noteq> 8
          then Inl (InvalidPacketType (packet_type_index prefix))
          else
           let packet_data = drop 1 wire;
               actual_len = (if short_packet_length prefix > 0 \<and> short_packet_length prefix < 7
                             then unat (short_packet_length prefix) else length packet_data)
           in if actual_len > length packet_data then Inl (PayloadTooShort (length packet_data))
              else Inr (prefix, take actual_len packet_data))"

section \<open>Framing\<close>

lemma pad_to_eq: "pad_to n buf = buf @ replicate (n - length buf) 0"
proof (induction n buf rule: pad_to.induct)
  case (1 n buf)
  show ?case
  proof (cases "length buf < n")
    case True
    with 1 have "pad_to n buf = (buf @ [0]) @ replicate (n - length (buf @ [0])) 0"
      by (subst pad_to.simps) simp
    also have "\<dots> = buf @ replicate (Suc (n - Suc (length buf))) 0" by simp
    also have "Suc (n - Suc (length buf)) = n - length buf" using True by simp
    finally show ?thesis .
  qed (subst pad_to.simps, simp)
qed

lemma swap_bytes_length [simp]: "length (swap_bytes i j bs) = length bs"
  by (simp add: swap_bytes_def)

lemma swap_bytes_twice: "i < length bs \<Longrightarrow> j < length bs \<Longrightarrow> swap_bytes i j (swap_bytes i j bs) = bs"
  by (auto simp: swap_bytes_def list_eq_iff_nth_eq nth_list_update)

lemma compute_short_length_bound: "compute_short_length n \<le> 7"
  by (simp add: compute_short_length_def word_le_nat_alt unat_of_nat)

lemma packed_fields:
  fixes a b :: u8
  assumes "j = k + n" "j + m \<le> 8"
  shows "drop_bit j (push_bit j (a AND mask m) OR push_bit k (b AND mask n)) AND mask m = a AND mask m"
    and "drop_bit k (push_bit j (a AND mask m) OR push_bit k (b AND mask n)) AND mask n = b AND mask n"
  using assms by (auto intro!: bit_word_eqI simp: bit_simps)

lemma prefix_byte_round_trip:
  assumes "packet_type_index p \<le> 0x0F" "short_packet_length p \<le> 7"
  shows "prefix_from_byte (prefix_to_byte p) = p"
proof -
  have mask: "(0x07 :: u8) = mask 3" "(0x0F :: u8) = mask 4" by (simp_all add: mask_eq_exp_minus_1)
  have "take_bit 3 (short_packet_length p) = short_packet_length p"
    using assms(2) by (intro word_take_bit_self) (simp add: word_le_nat_alt)
  moreover have "take_bit 4 (packet_type_index p) = packet_type_index p"
    using assms(1) by (intro word_take_bit_self) (simp add: word_le_nat_alt)
  moreover have "drop_bit 5 (prefix_to_byte p) AND 0x07 = short_packet_length p AND 0x07"
    "drop_bit 1 (prefix_to_byte p) AND 0x0F = packet_type_index p AND 0x0F"
    unfolding prefix_to_byte_def mask by (intro packed_fields; simp)+
  ultimately show ?thesis
    by (cases p) (simp add: prefix_from_byte_def mask take_bit_eq_mask)
qed

lemma encode_with_prefix_eq:
  "encode_with_prefix packet dummy =
     Inr (swap_bytes 0 7
       (prefix_to_byte (if dummy then prefix_dummy (length packet) else prefix_normal (length packet))
        # packet @ replicate (7 - length packet) 0))"
proof -
  have "1 + max (length packet) 7 - Suc (length packet) = 7 - length packet" by simp
  then show ?thesis
    by (simp add: encode_with_prefix_def pad_to_eq Let_def MIN_WIRE_SIZE_def PREFIX_SWAP_INDEX_def)
qed

lemma decode_with_prefix_frame:
  assumes "packet \<noteq> []" "p = (if dummy then prefix_dummy (length packet) else prefix_normal (length packet))"
  shows "decode_with_prefix (swap_bytes 0 7 (prefix_to_byte p # packet @ replicate (7 - length packet) 0))
    = Inr (p, packet)"
proof -
  have p: "packet_type_index p = 0 \<or> packet_type_index p = 8"
    "short_packet_length p = compute_short_length (length packet)"
    using assms(2) by (auto simp: prefix_dummy_def prefix_normal_def)
  then have byte: "prefix_from_byte (prefix_to_byte p) = p"
    by (intro prefix_byte_round_trip) (auto simp: compute_short_length_bound)
  show ?thesis
  proof (cases "length packet < 7")
    case True
    with assms(1) have "(0 :: u8) < of_nat (length packet)" "(of_nat (length packet) :: u8) < 7"
      by (simp_all add: word_less_nat_alt unat_of_nat)
    with True p byte show ?thesis
      by (simp add: decode_with_prefix_def MIN_WIRE_SIZE_def PREFIX_SWAP_INDEX_def swap_bytes_twice
          compute_short_length_def unat_of_nat)
  next
    case False
    with p byte show ?thesis
      by (simp add: decode_with_prefix_def MIN_WIRE_SIZE_def PREFIX_SWAP_INDEX_def swap_bytes_twice
          compute_short_length_def)
  qed
qed

text \<open>
  C29. Framing is lossless: every non-empty packet, however short, comes out of the
  receive transform exactly as it went into the send transform, with its dummy mark,
  and the frame is the packet plus the prefix byte, at least eight bytes long.
\<close>

theorem prefix_frame_round_trip:
  assumes "packet \<noteq> []"
  shows "\<exists>wire. encode_with_prefix packet dummy = Inr wire \<and> length wire = 1 + max (length packet) 7 \<and>
    (\<exists>prefix. decode_with_prefix wire = Inr (prefix, packet) \<and> is_dummy prefix = dummy)"
  using decode_with_prefix_frame [OF assms refl, of dummy]
  by (auto simp: encode_with_prefix_eq is_dummy_def prefix_dummy_def prefix_normal_def)

theorem prefix_frame_round_trip_witness:
  "\<exists>wire. encode_with_prefix [4, 0, 9] True = Inr wire \<and> length wire = 8 \<and>
    (\<exists>prefix. decode_with_prefix wire = Inr (prefix, [4, 0, 9]) \<and> is_dummy prefix)"
  using prefix_frame_round_trip [of "[4, 0, 9]" True] by simp

end
