(* ===== verification/Recv_Window.thy ===== *)
theory Recv_Window
  imports Seq
begin

text \<open>
  The receive window (\<open>recv_window.rs\<close>): slots indexed by DataSeqNum record what has
  arrived for the acknowledgements, and a reorder buffer keyed by ChannelSeqNum
  hands the data up in order. The reorder buffer, a \<open>BTreeMap\<close>, is an association list
  with distinct keys.
\<close>

section \<open>State\<close>

datatype recv_entry_state = RecvPending | RecvReceived

record recv_entry =
  re_state :: recv_entry_state
  re_channel_seq :: "u64 option"

record recv_window =
  rw_entries :: "recv_entry list"
  rw_base_seq :: u64
  rw_highest_seq :: u64
  rw_next_channel_seq :: u64
  rw_reorder_buf :: "(u64 \<times> bytes) list"
  rw_max_entries :: usize

definition rw_new :: "u64 \<Rightarrow> u64 \<Rightarrow> u8 \<Rightarrow> recv_window" where
  "rw_new initial_data_seq initial_channel_seq log_window_size =
     \<lparr>rw_entries = [], rw_base_seq = initial_data_seq,
      rw_highest_seq = saturating_sub initial_data_seq 1,
      rw_next_channel_seq = initial_channel_seq, rw_reorder_buf = [],
      rw_max_entries = 2 ^ (unat log_window_size mod 64)\<rparr>"

section \<open>Operations\<close>

abbreviation pending_entry :: recv_entry where
  "pending_entry \<equiv> \<lparr>re_state = RecvPending, re_channel_seq = None\<rparr>"

text \<open>The \<open>while\<close> loop that extends the slots up to an index.\<close>

function extend_entries :: "usize \<Rightarrow> recv_entry list \<Rightarrow> recv_entry list" where
  "extend_entries idx es =
     (if length es \<le> idx then extend_entries idx (es @ [pending_entry]) else es)"
  by auto
termination by (relation "measure (\<lambda>(idx, es). Suc idx - length es)") auto

declare extend_entries.simps [simp del]

definition occupy_slot :: "u64 \<Rightarrow> u64 option \<Rightarrow> recv_window \<Rightarrow> bool \<times> recv_window" where
  "occupy_slot data_seq channel_seq w =
     (if data_seq < rw_base_seq w then (False, w)
      else
       let index = data_seq - rw_base_seq w in
       if index \<ge> rw_max_entries w then (False, w)
       else
        let es = extend_entries index (rw_entries w) in
        if re_state (es ! index) = RecvReceived then (False, w\<lparr>rw_entries := es\<rparr>)
        else
         (True, w\<lparr>rw_entries := es[index := \<lparr>re_state = RecvReceived, re_channel_seq = channel_seq\<rparr>],
                  rw_highest_seq := (if data_seq > rw_highest_seq w then data_seq
                                     else rw_highest_seq w)\<rparr>))"

definition rw_receive :: "u64 \<Rightarrow> u64 \<Rightarrow> bytes \<Rightarrow> recv_window \<Rightarrow> bool \<times> recv_window" where
  "rw_receive data_seq channel_seq data w =
     (let already_delivered = channel_seq < rw_next_channel_seq w in
      if \<not> already_delivered \<and> channel_seq \<noteq> rw_next_channel_seq w
         \<and> length (rw_reorder_buf w) \<ge> rw_max_entries w
         \<and> map_of (rw_reorder_buf w) channel_seq = None
      then (False, w)
      else
       let (is_new, w) = occupy_slot data_seq (Some channel_seq) w in
       if \<not> is_new then (False, w)
       else if \<not> already_delivered
       then (True, w\<lparr>rw_reorder_buf := AList.update channel_seq data (rw_reorder_buf w)\<rparr>)
       else (True, w))"

definition receive_without_payload :: "u64 \<Rightarrow> recv_window \<Rightarrow> bool \<times> recv_window" where
  "receive_without_payload data_seq w = occupy_slot data_seq None w"

function drain_loop :: "u64 \<Rightarrow> (u64 \<times> bytes) list \<Rightarrow> bytes list \<Rightarrow> bytes list \<times> u64 \<times> (u64 \<times> bytes) list" where
  "drain_loop next buf delivered =
     (case map_of buf next of
        None \<Rightarrow> (delivered, next, buf)
      | Some data \<Rightarrow> drain_loop (next_channel_seq next) (AList.delete next buf) (delivered @ [data]))"
  by auto
termination
  by (relation "measure (\<lambda>(next, buf, delivered). length buf)") (auto simp: length_delete_less)

declare drain_loop.simps [simp del]

definition drain_ordered :: "recv_window \<Rightarrow> bytes list \<times> recv_window" where
  "drain_ordered w =
     (let (delivered, next, buf) = drain_loop (rw_next_channel_seq w) (rw_reorder_buf w) []
      in (delivered, w\<lparr>rw_next_channel_seq := next, rw_reorder_buf := buf\<rparr>))"

definition release_acknowledged :: "recv_window \<Rightarrow> usize \<times> recv_window" where
  "release_acknowledged w =
     (let received = length (takeWhile (\<lambda>e. re_state e = RecvReceived) (rw_entries w))
      in (received,
          if received > 0
          then w\<lparr>rw_entries := drop received (rw_entries w),
                 rw_base_seq := u64_add (rw_base_seq w) received\<rparr>
          else w))"

definition advance_base :: "u64 \<Rightarrow> recv_window \<Rightarrow> recv_window" where
  "advance_base new_base w =
     (if new_base \<le> rw_base_seq w then w
      else
       let advance_by = new_base - rw_base_seq w;
           drain_count = min advance_by (length (rw_entries w))
       in w\<lparr>rw_entries := drop drain_count (rw_entries w), rw_base_seq := new_base\<rparr>)"

fun ack_runs :: "bool \<Rightarrow> u64 \<Rightarrow> recv_entry list \<Rightarrow> (bool \<times> u64) list" where
  "ack_runs current_state current_count [] = [(current_state, current_count)]"
| "ack_runs current_state current_count (e # es) =
     (let received = (re_state e = RecvReceived) in
      if received = current_state then ack_runs current_state (current_count + 1) es
      else (current_state, current_count) # ack_runs received 1 es)"

definition ack_vector :: "recv_window \<Rightarrow> (bool \<times> u64) list" where
  "ack_vector w =
     (case rw_entries w of
        [] \<Rightarrow> []
      | e # es \<Rightarrow> ack_runs (re_state e = RecvReceived) 1 es)"

definition has_gaps :: "recv_window \<Rightarrow> bool" where
  "has_gaps w \<longleftrightarrow> list_ex (\<lambda>e. re_state e = RecvPending) (rw_entries w)"

section \<open>Slots\<close>

lemma extend_entries_eq:
  "extend_entries idx es = es @ replicate (Suc idx - length es) pending_entry"
proof (induction idx es rule: extend_entries.induct)
  case (1 idx es)
  show ?case
  proof (cases "length es \<le> idx")
    case True
    with 1 have "extend_entries idx es =
        (es @ [pending_entry]) @ replicate (Suc idx - length (es @ [pending_entry])) pending_entry"
      by (subst extend_entries.simps) simp
    also have "\<dots> = es @ replicate (Suc (idx - length es)) pending_entry" by simp
    also have "Suc (idx - length es) = Suc idx - length es" using True by simp
    finally show ?thesis .
  qed (subst extend_entries.simps, simp)
qed

lemma length_extend_entries [simp]: "length (extend_entries idx es) = max (length es) (Suc idx)"
  by (simp add: extend_entries_eq)

lemma nth_extend_entries:
  "i < max (length es) (Suc idx) \<Longrightarrow>
   extend_entries idx es ! i = (if i < length es then es ! i else pending_entry)"
  by (auto simp: extend_entries_eq nth_append)

text \<open>
  The set of DataSeqNums the slots report as received: the abstract state that
  acknowledgements speak about.
\<close>

definition slot_received :: "recv_window \<Rightarrow> u64 \<Rightarrow> bool" where
  "slot_received w d \<longleftrightarrow>
     rw_base_seq w \<le> d \<and> d - rw_base_seq w < length (rw_entries w) \<and>
     re_state (rw_entries w ! (d - rw_base_seq w)) = RecvReceived"

definition in_window :: "recv_window \<Rightarrow> u64 \<Rightarrow> bool" where
  "in_window w d \<longleftrightarrow> rw_base_seq w \<le> d \<and> d - rw_base_seq w < rw_max_entries w"

lemma occupy_slot_result:
  "fst (occupy_slot d c w) \<longleftrightarrow> in_window w d \<and> \<not> slot_received w d"
  by (auto simp: occupy_slot_def in_window_def slot_received_def Let_def nth_extend_entries
      split: if_splits)

lemma occupy_slot_received:
  "slot_received (snd (occupy_slot d c w)) d' \<longleftrightarrow>
     slot_received w d' \<or> (fst (occupy_slot d c w) \<and> d' = d)"
  by (auto simp: occupy_slot_def slot_received_def Let_def nth_extend_entries nth_list_update
      split: if_splits)

lemma occupy_slot_frame:
  "rw_base_seq (snd (occupy_slot d c w)) = rw_base_seq w"
  "rw_next_channel_seq (snd (occupy_slot d c w)) = rw_next_channel_seq w"
  "rw_reorder_buf (snd (occupy_slot d c w)) = rw_reorder_buf w"
  "rw_max_entries (snd (occupy_slot d c w)) = rw_max_entries w"
  by (auto simp: occupy_slot_def Let_def)

lemma occupy_slot_refused: "\<not> fst (occupy_slot d c w) \<Longrightarrow> snd (occupy_slot d c w) = w"
  by (cases "d - rw_base_seq w < length (rw_entries w)")
     (auto simp: occupy_slot_def Let_def extend_entries_eq nth_append split: if_splits)

section \<open>Well-formed windows\<close>

definition rw_slots_ok :: "recv_window \<Rightarrow> bool" where
  "rw_slots_ok w \<longleftrightarrow>
     length (rw_entries w) \<le> rw_max_entries w \<and>
     (if rw_entries w = [] then rw_highest_seq w < rw_base_seq w
      else re_state (last (rw_entries w)) = RecvReceived \<and>
           rw_base_seq w + length (rw_entries w) = Suc (rw_highest_seq w)) \<and>
     rw_highest_seq w < 2 ^ 64 - 1 \<and> rw_base_seq w < 2 ^ 64"

definition rw_buf_ok :: "recv_window \<Rightarrow> bool" where
  "rw_buf_ok w \<longleftrightarrow>
     distinct (map fst (rw_reorder_buf w)) \<and>
     length (rw_reorder_buf w)
       \<le> rw_max_entries w + (if map_of (rw_reorder_buf w) (rw_next_channel_seq w) = None then 0 else 1)"

definition rw_ok :: "recv_window \<Rightarrow> bool" where
  "rw_ok w \<longleftrightarrow> rw_slots_ok w \<and> rw_buf_ok w"

lemma rw_new_ok: "0 < d0 \<Longrightarrow> d0 < 2 ^ 64 \<Longrightarrow> rw_ok (rw_new d0 c0 lws)"
  by (auto simp: rw_ok_def rw_slots_ok_def rw_buf_ok_def rw_new_def saturating_sub_def)

lemma occupy_slot_ok:
  assumes "rw_slots_ok w" "d < 2 ^ 64 - 1"
  shows "rw_slots_ok (snd (occupy_slot d c w))"
proof (cases "fst (occupy_slot d c w)")
  case False
  then show ?thesis using assms by (simp add: occupy_slot_refused)
next
  case True
  let ?i = "d - rw_base_seq w"
  let ?es = "(extend_entries ?i (rw_entries w))[?i := \<lparr>re_state = RecvReceived, re_channel_seq = c\<rparr>]"
  from True have win: "rw_base_seq w \<le> d" "?i < rw_max_entries w" and new: "\<not> slot_received w d"
    by (auto simp: occupy_slot_result in_window_def)
  have eq: "snd (occupy_slot d c w) =
      w\<lparr>rw_entries := ?es, rw_highest_seq := max (rw_highest_seq w) d\<rparr>"
    using True by (auto simp: occupy_slot_def Let_def max_def split: if_splits)
  show ?thesis
  proof (cases "?i < length (rw_entries w)")
    case in_range: True
    then have "?es = (rw_entries w)[?i := \<lparr>re_state = RecvReceived, re_channel_seq = c\<rparr>]"
      by (simp add: extend_entries_eq)
    moreover have "d \<le> rw_highest_seq w"
      using assms(1) in_range win by (auto simp: rw_slots_ok_def split: if_splits)
    ultimately show ?thesis
      using assms in_range by (auto simp: eq rw_slots_ok_def max_def last_list_update split: if_splits)
  next
    case False
    then have "length ?es = Suc ?i" by auto
    then have "?es \<noteq> []" by (metis length_0_conv nat.distinct(1))
    from \<open>length ?es = Suc ?i\<close> have "last ?es = ?es ! ?i" by (rule last_eq_nth)
    also have "\<dots> = \<lparr>re_state = RecvReceived, re_channel_seq = c\<rparr>"
      using \<open>length ?es = Suc ?i\<close> by simp
    finally have "last ?es = \<lparr>re_state = RecvReceived, re_channel_seq = c\<rparr>" .
    moreover have "rw_highest_seq w \<le> d"
      using assms(1) False win by (auto simp: rw_slots_ok_def split: if_splits)
    ultimately show ?thesis
      using assms win \<open>length ?es = Suc ?i\<close> \<open>?es \<noteq> []\<close> by (auto simp: eq rw_slots_ok_def max_def)
  qed
qed

lemma release_acknowledged_ok:
  assumes "rw_slots_ok w" shows "rw_slots_ok (snd (release_acknowledged w))"
proof -
  let ?n = "length (takeWhile (\<lambda>e. re_state e = RecvReceived) (rw_entries w))"
  have n: "?n \<le> length (rw_entries w)" by (rule length_takeWhile_le)
  then have "u64_add (rw_base_seq w) ?n = rw_base_seq w + ?n"
    using assms by (intro u64_add_exact) (auto simp: rw_slots_ok_def split: if_splits)
  with assms n show ?thesis
    by (auto simp: release_acknowledged_def Let_def rw_slots_ok_def split: if_splits)
qed

lemma release_advance_frame [window_simps]:
  "rw_next_channel_seq (snd (release_acknowledged w)) = rw_next_channel_seq w"
  "rw_reorder_buf (snd (release_acknowledged w)) = rw_reorder_buf w"
  "rw_max_entries (snd (release_acknowledged w)) = rw_max_entries w"
  "rw_next_channel_seq (advance_base b w) = rw_next_channel_seq w"
  "rw_reorder_buf (advance_base b w) = rw_reorder_buf w"
  "rw_max_entries (advance_base b w) = rw_max_entries w"
  by (auto simp: release_acknowledged_def advance_base_def Let_def)

lemma advance_base_ok:
  "rw_slots_ok w \<Longrightarrow> new_base < 2 ^ 64 \<Longrightarrow> rw_slots_ok (advance_base new_base w)"
  by (auto simp: advance_base_def Let_def rw_slots_ok_def min_def split: if_splits)

section \<open>The reorder buffer\<close>

lemma rw_receive_cases:
  obtains (refused) "rw_receive d c data w = (False, w)"
  | (taken) "fst (rw_receive d c data w)" "fst (occupy_slot d (Some c) w)"
      "snd (rw_receive d c data w) =
         (let w' = snd (occupy_slot d (Some c) w) in
          if c < rw_next_channel_seq w then w'
          else w'\<lparr>rw_reorder_buf := AList.update c data (rw_reorder_buf w)\<rparr>)"
      "c \<le> rw_next_channel_seq w \<or> length (rw_reorder_buf w) < rw_max_entries w
         \<or> map_of (rw_reorder_buf w) c \<noteq> None"
proof (cases "\<not> c < rw_next_channel_seq w \<and> c \<noteq> rw_next_channel_seq w
     \<and> length (rw_reorder_buf w) \<ge> rw_max_entries w \<and> map_of (rw_reorder_buf w) c = None")
  case True
  then show ?thesis by (intro refused) (simp add: rw_receive_def)
next
  case ok: False
  show ?thesis
  proof (cases "fst (occupy_slot d (Some c) w)")
    case True
    with ok show ?thesis
      by (intro taken) (auto simp: rw_receive_def Let_def case_prod_beta occupy_slot_frame)
  next
    case False
    with ok show ?thesis
      by (intro refused) (auto simp: rw_receive_def Let_def case_prod_beta occupy_slot_refused)
  qed
qed

lemma rw_slots_ok_other_fields [simp]:
  "rw_slots_ok (w\<lparr>rw_reorder_buf := buf\<rparr>) = rw_slots_ok w"
  "rw_slots_ok (w\<lparr>rw_next_channel_seq := c, rw_reorder_buf := buf\<rparr>) = rw_slots_ok w"
  by (simp_all add: rw_slots_ok_def)

lemma rw_receive_slots_ok:
  "rw_slots_ok w \<Longrightarrow> d < 2 ^ 64 - 1 \<Longrightarrow> rw_slots_ok (snd (rw_receive d c data w))"
  by (cases rule: rw_receive_cases [of d c data w])
     (auto simp: Let_def dest: occupy_slot_ok [of _ _ "Some c"])

lemma rw_receive_buf_ok:
  assumes "rw_buf_ok w"
  shows "rw_buf_ok (snd (rw_receive d c data w))"
proof (cases rule: rw_receive_cases [of d c data w])
  case refused
  with assms show ?thesis by simp
next
  case taken
  show ?thesis
  proof (cases "c < rw_next_channel_seq w")
    case True
    with taken assms show ?thesis by (simp add: rw_buf_ok_def occupy_slot_frame)
  next
    case False
    have len: "length (AList.update c data (rw_reorder_buf w)) \<le>
        rw_max_entries w + (if map_of (AList.update c data (rw_reorder_buf w)) (rw_next_channel_seq w) = None
                            then 0 else 1)"
    proof (cases "map_of (rw_reorder_buf w) c = None")
      case True
      with taken(4) False assms length_update_le [of c data "rw_reorder_buf w"] show ?thesis
        by (auto simp: rw_buf_ok_def update_conv split: if_splits)
    next
      case present: False
      with assms show ?thesis
        by (auto simp: rw_buf_ok_def update_conv length_update_present split: if_splits)
    qed
    with taken False assms show ?thesis
      by (auto simp: rw_buf_ok_def occupy_slot_frame Let_def distinct_update dom_update simp del: set_map)
  qed
qed

lemma drain_loop_frame:
  assumes "distinct (map fst buf)" "drain_loop nxt buf acc = (out, next', buf')"
  shows "distinct (map fst buf') \<and> map_of buf' next' = None \<and> set buf' \<subseteq> set buf \<and>
    length buf' + length out = length buf + length acc \<and> length acc \<le> length out"
  using assms
proof (induction nxt buf acc rule: drain_loop.induct)
  case (1 nxt buf acc)
  show ?case
  proof (cases "map_of buf nxt")
    case None
    with "1.prems" show ?thesis by (simp add: drain_loop.simps [of nxt])
  next
    case (Some data)
    have "distinct (map fst (AList.delete nxt buf))"
      using "1.prems"(1) by (rule distinct_delete)
    moreover have "drain_loop (next_channel_seq nxt) (AList.delete nxt buf) (acc @ [data]) = (out, next', buf')"
      using "1.prems"(2) Some by (simp add: drain_loop.simps [of nxt])
    ultimately show ?thesis
      using "1.IH" [OF Some] length_delete_distinct [OF "1.prems"(1) Some]
      by (auto simp: AList.delete_eq)
  qed
qed

lemma drain_ordered_ok:
  assumes "rw_buf_ok w"
  shows "rw_buf_ok (snd (drain_ordered w))"
proof -
  obtain out next' buf' where d: "drain_loop (rw_next_channel_seq w) (rw_reorder_buf w) [] = (out, next', buf')"
    by (metis prod_cases3)
  have "length buf' \<le> rw_max_entries w"
  proof (cases "map_of (rw_reorder_buf w) (rw_next_channel_seq w)")
    case None
    with d have "buf' = rw_reorder_buf w" by (simp add: drain_loop.simps [of "rw_next_channel_seq w"])
    with None assms show ?thesis by (simp add: rw_buf_ok_def)
  next
    case (Some data)
    with d obtain d': "drain_loop (next_channel_seq (rw_next_channel_seq w))
        (AList.delete (rw_next_channel_seq w) (rw_reorder_buf w)) [data] = (out, next', buf')"
      by (simp add: drain_loop.simps [of "rw_next_channel_seq w"])
    have "length buf' \<le> length (AList.delete (rw_next_channel_seq w) (rw_reorder_buf w))"
      using drain_loop_frame [OF distinct_delete d'] assms by (auto simp: rw_buf_ok_def)
    with Some assms length_delete_distinct [of "rw_reorder_buf w" "rw_next_channel_seq w"] show ?thesis
      by (auto simp: rw_buf_ok_def)
  qed
  then show ?thesis
    using drain_loop_frame [OF _ d] assms by (simp add: rw_buf_ok_def drain_ordered_def d)
qed

lemma drain_ordered_slots_ok: "rw_slots_ok (snd (drain_ordered w)) = rw_slots_ok w"
  by (simp add: drain_ordered_def rw_slots_ok_def case_prod_beta Let_def)

section \<open>Runs\<close>

text \<open>
  The calls a connection makes on its window, in any order: \<open>RwReceive\<close> for a data
  packet, \<open>RwDummy\<close> for a dummy packet, \<open>RwDrain\<close> to hand data up, \<open>RwRelease\<close> after an
  acknowledgement has been sent and \<open>RwAdvance\<close> on an AckOfAcks. Loss, duplication and
  reordering by the network are the absence, repetition and permutation of
  \<open>RwReceive\<close> calls.
\<close>

datatype rw_op =
    RwReceive u64 u64 bytes
  | RwDummy u64
  | RwDrain
  | RwRelease
  | RwAdvance u64

fun rw_step :: "rw_op \<Rightarrow> recv_window \<Rightarrow> bytes list \<times> recv_window" where
  "rw_step (RwReceive d c data) w = ([], snd (rw_receive d c data w))"
| "rw_step (RwDummy d) w = ([], snd (receive_without_payload d w))"
| "rw_step RwDrain w = drain_ordered w"
| "rw_step RwRelease w = ([], snd (release_acknowledged w))"
| "rw_step (RwAdvance b) w = ([], advance_base b w)"

fun rw_run :: "rw_op list \<Rightarrow> recv_window \<Rightarrow> bytes list \<times> recv_window" where
  "rw_run [] w = ([], w)"
| "rw_run (op # ops) w =
     (let (out, w') = rw_step op w; (out', w'') = rw_run ops w' in (out @ out', w''))"

fun rw_op_ok :: "rw_op \<Rightarrow> bool" where
  "rw_op_ok (RwReceive d c data) \<longleftrightarrow> d < 2 ^ 64 - 1"
| "rw_op_ok (RwDummy d) \<longleftrightarrow> d < 2 ^ 64 - 1"
| "rw_op_ok (RwAdvance b) \<longleftrightarrow> b < 2 ^ 64"
| "rw_op_ok RwDrain \<longleftrightarrow> True"
| "rw_op_ok RwRelease \<longleftrightarrow> True"

lemma rw_step_ok: "rw_ok w \<Longrightarrow> rw_op_ok op \<Longrightarrow> rw_ok (snd (rw_step op w))"
proof (cases op)
  case (RwReceive d c data)
  assume "rw_ok w" "rw_op_ok op"
  with RwReceive show ?thesis
    by (simp add: rw_ok_def rw_receive_slots_ok rw_receive_buf_ok)
next
  case (RwDummy d)
  assume "rw_ok w" "rw_op_ok op"
  with RwDummy show ?thesis
    by (simp add: rw_ok_def receive_without_payload_def occupy_slot_ok rw_buf_ok_def occupy_slot_frame)
next
  case RwDrain
  assume "rw_ok w"
  with RwDrain show ?thesis
    using drain_ordered_ok [of w] drain_ordered_slots_ok [of w] by (simp add: rw_ok_def)
next
  case RwRelease
  assume "rw_ok w"
  with RwRelease release_acknowledged_ok [of w] show ?thesis
    by (simp add: rw_ok_def rw_buf_ok_def window_simps)
next
  case (RwAdvance b)
  assume "rw_ok w" "rw_op_ok op"
  with RwAdvance advance_base_ok [of w b] show ?thesis
    by (simp add: rw_ok_def rw_buf_ok_def window_simps)
qed

lemma rw_run_ok: "rw_ok w \<Longrightarrow> list_all rw_op_ok ops \<Longrightarrow> rw_ok (snd (rw_run ops w))"
proof (induction ops arbitrary: w)
  case (Cons op ops)
  then show ?case
    using rw_step_ok [of w op] by (simp add: case_prod_beta Let_def)
qed simp

lemma rw_step_max: "rw_max_entries (snd (rw_step op w)) = rw_max_entries w"
proof (cases op)
  case (RwReceive d c data)
  then show ?thesis
    by (cases rule: rw_receive_cases [of d c data w]) (auto simp: Let_def occupy_slot_frame)
qed (simp_all add: receive_without_payload_def occupy_slot_frame window_simps drain_ordered_def
    case_prod_beta Let_def)

lemma rw_run_max: "rw_max_entries (snd (rw_run ops w)) = rw_max_entries w"
  by (induction ops arbitrary: w) (simp_all add: case_prod_beta Let_def rw_step_max)

lemma rw_run_append:
  "rw_run (ops @ ops') w =
     (fst (rw_run ops w) @ fst (rw_run ops' (snd (rw_run ops w))), snd (rw_run ops' (snd (rw_run ops w))))"
  by (induction ops arbitrary: w) (auto simp: case_prod_beta Let_def)

section \<open>In-order delivery\<close>

text \<open>
  The peer's stream is a function \<open>s\<close> from positions to data; position \<open>k\<close> travels under
  the ChannelSeqNum \<^const>\<open>channel_number\<close> \<open>k\<close>, in however many packets.
\<close>

fun op_from_stream :: "(nat \<Rightarrow> bytes) \<Rightarrow> rw_op \<Rightarrow> bool" where
  "op_from_stream s (RwReceive d c data) \<longleftrightarrow> (\<exists>k < 2 ^ 62. c = channel_number k \<and> data = s k)"
| "op_from_stream s op \<longleftrightarrow> True"

text \<open>The slots and channel numbers a run takes, call by call.\<close>

fun rw_taken :: "rw_op \<Rightarrow> recv_window \<Rightarrow> (u64 \<times> u64 option) set" where
  "rw_taken (RwReceive d c data) w = (if fst (rw_receive d c data w) then {(d, Some c)} else {})"
| "rw_taken (RwDummy d) w = (if fst (receive_without_payload d w) then {(d, None)} else {})"
| "rw_taken op w = {}"

fun rw_log :: "rw_op list \<Rightarrow> recv_window \<Rightarrow> (u64 \<times> u64 option) set" where
  "rw_log [] w = {}"
| "rw_log (op # ops) w = rw_taken op w \<union> rw_log ops (snd (rw_step op w))"

definition buf_from_stream :: "(nat \<Rightarrow> bytes) \<Rightarrow> nat \<Rightarrow> (u64 \<times> bytes) list \<Rightarrow> bool" where
  "buf_from_stream s n buf \<longleftrightarrow>
     (\<forall>(c, data) \<in> set buf. \<exists>k. n \<le> k \<and> k < 2 ^ 62 \<and> c = channel_number k \<and> data = s k)"

definition stream_inv :: "(nat \<Rightarrow> bytes) \<Rightarrow> u64 set \<Rightarrow> nat \<Rightarrow> recv_window \<Rightarrow> bool" where
  "stream_inv s C n w \<longleftrightarrow>
     rw_buf_ok w \<and> rw_next_channel_seq w = channel_number n \<and> n \<le> 2 ^ 62 \<and>
     buf_from_stream s n (rw_reorder_buf w) \<and>
     C = channel_number ` {0..<n} \<union> fst ` set (rw_reorder_buf w)"

lemma buf_from_stream_delete:
  assumes "buf_from_stream s n buf"
  shows "buf_from_stream s (Suc n) (AList.delete (channel_number n) buf)"
  unfolding buf_from_stream_def
proof clarify
  fix c data assume "(c, data) \<in> set (AList.delete (channel_number n) buf)"
  then have "(c, data) \<in> set buf" "c \<noteq> channel_number n" by (auto simp: AList.delete_eq)
  with assms obtain k where "n \<le> k" "k < 2 ^ 62" "c = channel_number k" "data = s k" "k \<noteq> n"
    by (fastforce simp: buf_from_stream_def)
  then show "\<exists>k\<ge>Suc n. k < 2 ^ 62 \<and> c = channel_number k \<and> data = s k"
    by (intro exI [of _ k]) auto
qed

lemma buf_from_stream_update:
  assumes "buf_from_stream s n buf" "n \<le> k" "k < 2 ^ 62"
  shows "buf_from_stream s n (AList.update (channel_number k) (s k) buf)"
  unfolding buf_from_stream_def
proof clarify
  fix c data assume "(c, data) \<in> set (AList.update (channel_number k) (s k) buf)"
  then consider "c = channel_number k" "data = s k" | "(c, data) \<in> set buf"
    using set_update_subset by fastforce
  then show "\<exists>k\<ge>n. k < 2 ^ 62 \<and> c = channel_number k \<and> data = s k"
    using assms unfolding buf_from_stream_def by cases blast+
qed

lemma drain_loop_stream:
  assumes "buf_from_stream s n buf" "distinct (map fst buf)" "n \<le> 2 ^ 62"
    "drain_loop (channel_number n) buf acc = (out, next', buf')"
  shows "\<exists>m. n \<le> m \<and> m \<le> 2 ^ 62 \<and> next' = channel_number m \<and> out = acc @ map s [n..<m] \<and>
    buf_from_stream s m buf' \<and>
    channel_number ` {0..<n} \<union> fst ` set buf = channel_number ` {0..<m} \<union> fst ` set buf'"
  using assms
proof (induction "length buf" arbitrary: n buf acc rule: less_induct)
  case less
  show ?case
  proof (cases "map_of buf (channel_number n)")
    case None
    with less.prems show ?thesis by (intro exI [of _ n]) (simp add: drain_loop.simps [of "channel_number n"])
  next
    case (Some data)
    let ?buf = "AList.delete (channel_number n) buf"
    have "(channel_number n, data) \<in> set buf" using Some by (rule map_of_SomeD)
    then obtain k where "k < 2 ^ 62" "channel_number n = channel_number k" "data = s k"
      using less.prems(1) unfolding buf_from_stream_def by blast
    then have n: "n < 2 ^ 62" "data = s n" by (simp_all only: channel_number_inject)
    then have step: "drain_loop (channel_number (Suc n)) ?buf (acc @ [s n]) = (out, next', buf')"
      using less.prems(4) Some channel_number_Suc [OF channel_number_bound [OF n(1)]]
      by (simp add: drain_loop.simps [of "channel_number n"])
    have keys: "fst ` set buf = insert (channel_number n) (fst ` set ?buf)"
      using \<open>(channel_number n, data) \<in> set buf\<close> by (force simp: AList.delete_eq)
    have "\<exists>m. Suc n \<le> m \<and> m \<le> 2 ^ 62 \<and> next' = channel_number m \<and> out = (acc @ [s n]) @ map s [Suc n..<m] \<and>
      buf_from_stream s m buf' \<and>
      channel_number ` {0..<Suc n} \<union> fst ` set ?buf = channel_number ` {0..<m} \<union> fst ` set buf'"
      using n(1) by (intro less.hyps [OF length_delete_less [OF Some] _ _ _ step]
          buf_from_stream_delete less.prems(1) distinct_delete less.prems(2)) simp
    then obtain m where m: "Suc n \<le> m" "m \<le> 2 ^ 62" "next' = channel_number m"
      "out = (acc @ [s n]) @ map s [Suc n..<m]" "buf_from_stream s m buf'"
      "channel_number ` {0..<Suc n} \<union> fst ` set ?buf = channel_number ` {0..<m} \<union> fst ` set buf'"
      by blast
    have "out = acc @ map s [n..<m]" using m(1,4) by (simp add: upt_conv_Cons)
    moreover have "channel_number ` {0..<n} \<union> fst ` set buf = channel_number ` {0..<Suc n} \<union> fst ` set ?buf"
      unfolding keys atLeast0_lessThan_Suc by blast
    ultimately show ?thesis using m by (metis Suc_leD)
  qed
qed

lemma stream_inv_receive:
  assumes "stream_inv s C n w" "k < 2 ^ 62"
  shows "stream_inv s (C \<union> (if fst (rw_receive d (channel_number k) (s k) w) then {channel_number k} else {}))
    n (snd (rw_receive d (channel_number k) (s k) w))"
proof (cases rule: rw_receive_cases [of d "channel_number k" "s k" w])
  case refused
  with assms show ?thesis by simp
next
  case taken
  have ok: "rw_buf_ok (snd (rw_receive d (channel_number k) (s k) w))"
    using assms(1) by (simp add: stream_inv_def rw_receive_buf_ok)
  have nxt: "rw_next_channel_seq w = channel_number n" using assms(1) by (simp add: stream_inv_def)
  show ?thesis
  proof (cases "k < n")
    case True
    then have "channel_number k < rw_next_channel_seq w" by (simp add: nxt channel_number_less_iff)
    moreover have "channel_number k \<in> C" using True assms(1) by (auto simp: stream_inv_def)
    ultimately show ?thesis
      using taken ok assms by (auto simp: stream_inv_def Let_def occupy_slot_frame)
  next
    case False
    then have "\<not> channel_number k < rw_next_channel_seq w" by (simp add: nxt channel_number_less_iff)
    with taken have eq: "rw_reorder_buf (snd (rw_receive d (channel_number k) (s k) w)) =
        AList.update (channel_number k) (s k) (rw_reorder_buf w)"
      "rw_next_channel_seq (snd (rw_receive d (channel_number k) (s k) w)) = channel_number n"
      by (simp_all add: Let_def occupy_slot_frame nxt)
    have "buf_from_stream s n (AList.update (channel_number k) (s k) (rw_reorder_buf w))"
      using False assms by (intro buf_from_stream_update) (simp_all add: stream_inv_def)
    with taken(1) ok eq assms show ?thesis
      by (simp add: stream_inv_def dom_update)
  qed
qed

lemma stream_inv_step:
  assumes "stream_inv s C n w" "op_from_stream s op" "rw_step op w = (out, w')"
  shows "\<exists>m\<ge>n. out = map s [n..<m] \<and>
    stream_inv s (C \<union> {c. \<exists>d. (d, Some c) \<in> rw_taken op w}) m w'"
proof (cases op)
  case (RwReceive d c data)
  with assms(2) obtain k where k: "k < 2 ^ 62" "c = channel_number k" "data = s k" by auto
  have "{c'. \<exists>d. (d, Some c') \<in> rw_taken op w} = (if fst (rw_receive d c data w) then {c} else {})"
    by (simp add: RwReceive)
  with stream_inv_receive [OF assms(1) k(1), of d] assms(3) RwReceive k show ?thesis
    by (intro exI [of _ n]) auto
next
  case (RwDummy d)
  with assms show ?thesis
    by (intro exI [of _ n])
       (auto simp: stream_inv_def receive_without_payload_def occupy_slot_frame rw_buf_ok_def)
next
  case RwDrain
  obtain nxt buf' where d: "drain_loop (rw_next_channel_seq w) (rw_reorder_buf w) [] = (out, nxt, buf')"
    and w': "w' = w\<lparr>rw_next_channel_seq := nxt, rw_reorder_buf := buf'\<rparr>"
    using assms(3) RwDrain by (auto simp: drain_ordered_def case_prod_beta Let_def prod_eq_iff)
  have inv: "buf_from_stream s n (rw_reorder_buf w)" "distinct (map fst (rw_reorder_buf w))" "n \<le> 2 ^ 62"
    "rw_next_channel_seq w = channel_number n"
    using assms(1) by (simp_all add: stream_inv_def rw_buf_ok_def)
  obtain m where m: "n \<le> m" "m \<le> 2 ^ 62" "nxt = channel_number m" "out = map s [n..<m]"
    "buf_from_stream s m buf'"
    "channel_number ` {0..<n} \<union> fst ` set (rw_reorder_buf w) = channel_number ` {0..<m} \<union> fst ` set buf'"
    using drain_loop_stream [OF inv(1-3) d [unfolded inv(4)]] by auto
  have "rw_buf_ok w'"
    using drain_ordered_ok [of w] assms(1,3) RwDrain by (simp add: stream_inv_def)
  with m w' assms(1) RwDrain show ?thesis
    by (intro exI [of _ m]) (simp add: stream_inv_def)
next
  case RwRelease
  with assms show ?thesis
    by (intro exI [of _ n]) (auto simp: stream_inv_def rw_buf_ok_def window_simps)
next
  case (RwAdvance b)
  with assms show ?thesis
    by (intro exI [of _ n]) (auto simp: stream_inv_def rw_buf_ok_def window_simps)
qed

lemma stream_inv_run:
  assumes "stream_inv s C n w" "list_all (op_from_stream s) ops" "rw_run ops w = (out, w')"
  shows "\<exists>m\<ge>n. out = map s [n..<m] \<and> stream_inv s (C \<union> {c. \<exists>d. (d, Some c) \<in> rw_log ops w}) m w'"
  using assms
proof (induction ops arbitrary: C n w out)
  case Nil
  then show ?case by (intro exI [of _ n]) simp
next
  case (Cons op ops)
  obtain o1 w1 where 1: "rw_step op w = (o1, w1)" by fastforce
  obtain o2 where 2: "rw_run ops w1 = (o2, w')" "out = o1 @ o2"
    using Cons.prems(3) 1 by (auto simp: case_prod_beta Let_def prod_eq_iff)
  obtain k where k: "n \<le> k" "o1 = map s [n..<k]"
    "stream_inv s (C \<union> {c. \<exists>d. (d, Some c) \<in> rw_taken op w}) k w1"
    using stream_inv_step [OF Cons.prems(1) _ 1] Cons.prems(2) by auto
  obtain m where m: "k \<le> m" "o2 = map s [k..<m]"
    "stream_inv s (C \<union> {c. \<exists>d. (d, Some c) \<in> rw_taken op w} \<union> {c. \<exists>d. (d, Some c) \<in> rw_log ops w1}) m w'"
    using Cons.IH [OF k(3) _ 2(1)] Cons.prems(2) by auto
  have "[n..<m] = [n..<k] @ [k..<m]" using k(1) m(1) by (rule upt_split)
  moreover have "C \<union> {c. \<exists>d. (d, Some c) \<in> rw_log (op # ops) w} =
      C \<union> {c. \<exists>d. (d, Some c) \<in> rw_taken op w} \<union> {c. \<exists>d. (d, Some c) \<in> rw_log ops w1}"
    using 1 by auto
  ultimately show ?case
    using k m 2(2) by (intro exI [of _ m]) (simp only: map_append, simp)
qed

lemma stream_inv_new: "stream_inv s {} 0 (rw_new d0 1 lws)"
  by (simp add: stream_inv_def rw_new_def rw_buf_ok_def channel_number_0 buf_from_stream_def)

lemma drain_ordered_next:
  "rw_buf_ok w \<Longrightarrow> map_of (rw_reorder_buf (snd (drain_ordered w))) (rw_next_channel_seq (snd (drain_ordered w))) = None"
  using drain_loop_frame [of "rw_reorder_buf w" "rw_next_channel_seq w" "[]"]
  by (auto simp: rw_buf_ok_def drain_ordered_def case_prod_beta Let_def prod_eq_iff)

text \<open>
  C30. In-order, exactly-once delivery under loss, duplication and reordering: whatever
  sequence of packets of the peer's stream reaches the window, interleaved with
  draining, acknowledging and AckOfAcks in any order, the data handed to the
  application is the stream itself from its first datum up to the first one that has
  not been accepted yet: nothing is skipped, repeated or out of order, and after a
  drain nothing deliverable is held back.
\<close>

theorem in_order_delivery:
  assumes "list_all (op_from_stream s) ops"
  shows "\<exists>n. fst (rw_run (ops @ [RwDrain]) (rw_new d0 1 lws)) = map s [0..<n] \<and>
    (\<forall>k < n. \<exists>d. (d, Some (channel_number k)) \<in> rw_log ops (rw_new d0 1 lws)) \<and>
    (\<forall>d. (d, Some (channel_number n)) \<notin> rw_log ops (rw_new d0 1 lws))"
proof -
  let ?w = "rw_new d0 1 lws"
  obtain n where n: "fst (rw_run ops ?w) = map s [0..<n]"
    "stream_inv s {c. \<exists>d. (d, Some c) \<in> rw_log ops ?w} n (snd (rw_run ops ?w))"
    using stream_inv_run [OF stream_inv_new [of s d0 lws] assms surjective_pairing] by auto
  obtain m where m: "n \<le> m" "fst (drain_ordered (snd (rw_run ops ?w))) = map s [n..<m]"
    "stream_inv s {c. \<exists>d. (d, Some c) \<in> rw_log ops ?w} m (snd (drain_ordered (snd (rw_run ops ?w))))"
    using stream_inv_step [OF n(2) _ surjective_pairing, of RwDrain] by auto
  have all: "fst (rw_run (ops @ [RwDrain]) ?w) = map s [0..<m]"
    using n(1) m(1,2) by (simp add: rw_run_append case_prod_beta upt_split [of 0 n m])
  have "map_of (rw_reorder_buf (snd (drain_ordered (snd (rw_run ops ?w))))) (channel_number m) = None"
    using drain_ordered_next [of "snd (rw_run ops ?w)"] n(2) m(3) by (simp add: stream_inv_def)
  then have "channel_number m \<notin> {c. \<exists>d. (d, Some c) \<in> rw_log ops ?w}"
    using m(3) by (auto simp: stream_inv_def channel_number_inject map_of_eq_None_iff)
  moreover have "channel_number k \<in> {c. \<exists>d. (d, Some c) \<in> rw_log ops ?w}" if "k < m" for k
    using m(3) that by (auto simp: stream_inv_def)
  ultimately show ?thesis using all by (intro exI [of _ m]) simp
qed

definition sample_stream :: "nat \<Rightarrow> bytes" where
  "sample_stream k = [of_nat k]"

definition sample_ops :: "rw_op list" where
  "sample_ops =
     [RwReceive 101 (channel_number 1) (sample_stream 1), RwReceive 101 (channel_number 1) (sample_stream 1),
      RwReceive 103 (channel_number 3) (sample_stream 3), RwReceive 104 (channel_number 0) (sample_stream 0),
      RwDrain, RwRelease, RwReceive 105 (channel_number 1) (sample_stream 1)]"

theorem in_order_delivery_witness:
  "list_all (op_from_stream sample_stream) sample_ops \<and>
   (\<exists>n. fst (rw_run (sample_ops @ [RwDrain]) (rw_new 100 1 6)) = map sample_stream [0..<n] \<and>
     (\<forall>k < n. \<exists>d. (d, Some (channel_number k)) \<in> rw_log sample_ops (rw_new 100 1 6)) \<and>
     (\<forall>d. (d, Some (channel_number n)) \<notin> rw_log sample_ops (rw_new 100 1 6)))"
proof -
  have "list_all (op_from_stream sample_stream) sample_ops"
    by (simp add: sample_ops_def channel_number_inject)
  then show ?thesis using in_order_delivery by blast
qed



section \<open>Acknowledgements tell the truth\<close>

definition slots_log_inv :: "u64 \<Rightarrow> u64 set \<Rightarrow> u64 set \<Rightarrow> recv_window \<Rightarrow> bool" where
  "slots_log_inv d0 D B w \<longleftrightarrow>
     rw_slots_ok w \<and> d0 \<le> rw_base_seq w \<and>
     (\<forall>d. slot_received w d \<longrightarrow> d \<in> D) \<and>
     (\<forall>d. d0 \<le> d \<and> d < rw_base_seq w \<longrightarrow> d \<in> D \<or> (\<exists>b \<in> B. d < b)) \<and>
     (\<forall>d \<in> D. d < rw_base_seq w \<or> slot_received w d)"

fun op_ack_of_acks :: "rw_op \<Rightarrow> u64 set" where
  "op_ack_of_acks (RwAdvance b) = {b}"
| "op_ack_of_acks op = {}"

lemma release_acknowledged_slots:
  assumes "rw_slots_ok w"
  defines "w' \<equiv> snd (release_acknowledged w)"
  shows "rw_base_seq w \<le> rw_base_seq w'"
    and "\<And>d. rw_base_seq w \<le> d \<Longrightarrow> d < rw_base_seq w' \<Longrightarrow> slot_received w d"
    and "\<And>d. slot_received w' d \<longleftrightarrow> slot_received w d \<and> rw_base_seq w' \<le> d"
proof -
  let ?n = "length (takeWhile (\<lambda>e. re_state e = RecvReceived) (rw_entries w))"
  have n: "?n \<le> length (rw_entries w)" by (rule length_takeWhile_le)
  then have base: "rw_base_seq w' = rw_base_seq w + ?n" "rw_entries w' = drop ?n (rw_entries w)"
    using assms(1) u64_add_exact [of "rw_base_seq w" ?n]
    by (auto simp: w'_def release_acknowledged_def Let_def rw_slots_ok_def split: if_splits)
  have head: "re_state (rw_entries w ! i) = RecvReceived" if "i < ?n" for i
    using that nth_mem [of i "takeWhile (\<lambda>e. re_state e = RecvReceived) (rw_entries w)"]
    by (auto simp: takeWhile_nth dest: set_takeWhileD)
  show "rw_base_seq w \<le> rw_base_seq w'" by (simp add: base)
  show "slot_received w d" if "rw_base_seq w \<le> d" "d < rw_base_seq w'" for d
    using that n head [of "d - rw_base_seq w"] by (auto simp: base slot_received_def)
  show "slot_received w' d \<longleftrightarrow> slot_received w d \<and> rw_base_seq w' \<le> d" for d
    by (auto simp: base slot_received_def add.commute)
qed

lemma advance_base_slots:
  "rw_base_seq (advance_base b w) = max b (rw_base_seq w)"
  "slot_received (advance_base b w) d \<longleftrightarrow> slot_received w d \<and> b \<le> d"
  by (auto simp: advance_base_def slot_received_def Let_def min_def max_def)

lemma occupy_slot_log_inv:
  assumes "slots_log_inv d0 D B w" "d < 2 ^ 64 - 1"
  shows "slots_log_inv d0 (D \<union> (if fst (occupy_slot d c w) then {d} else {})) B (snd (occupy_slot d c w))"
  using assms occupy_slot_ok [of w d c]
  by (auto simp: slots_log_inv_def occupy_slot_received occupy_slot_frame)

lemma slot_received_other_fields [simp]:
  "slot_received (w\<lparr>rw_reorder_buf := buf\<rparr>) d = slot_received w d"
  by (simp add: slot_received_def)

lemma slots_log_inv_other_fields [simp]:
  "slots_log_inv d0 D B (w\<lparr>rw_reorder_buf := buf\<rparr>) = slots_log_inv d0 D B w"
  by (simp add: slots_log_inv_def)

lemma drain_ordered_log_inv:
  "slots_log_inv d0 D B w \<Longrightarrow> slots_log_inv d0 D B (snd (drain_ordered w))"
  using drain_ordered_slots_ok [of w]
  by (auto simp: slots_log_inv_def slot_received_def drain_ordered_def case_prod_beta Let_def)

lemma slots_log_inv_step:
  assumes inv: "slots_log_inv d0 D B w" and ok: "rw_op_ok op"
  shows "slots_log_inv d0 (D \<union> fst ` rw_taken op w) (B \<union> op_ack_of_acks op) (snd (rw_step op w))"
proof (cases op)
  case (RwReceive d c data)
  show ?thesis
  proof (cases rule: rw_receive_cases [of d c data w])
    case refused
    with inv RwReceive show ?thesis by simp
  next
    case taken
    with occupy_slot_log_inv [OF inv, of d "Some c"] ok RwReceive show ?thesis
      by (auto simp: Let_def)
  qed
next
  case (RwDummy d)
  with occupy_slot_log_inv [OF inv, of d None] ok show ?thesis
    by (auto simp: receive_without_payload_def)
next
  case RwDrain
  with inv show ?thesis by (simp add: drain_ordered_log_inv)
next
  case RwRelease
  have w: "rw_slots_ok w" using inv by (simp add: slots_log_inv_def)
  note facts = release_acknowledged_slots [OF w] release_acknowledged_ok [OF w]
  have "d \<in> D" if "rw_base_seq w \<le> d" "d < rw_base_seq (snd (release_acknowledged w))" for d
    using facts(2) [OF that] inv by (auto simp: slots_log_inv_def)
  with inv facts show ?thesis
    unfolding slots_log_inv_def RwRelease by (auto simp: not_le) (meson not_le)+
next
  case (RwAdvance b)
  with inv ok advance_base_ok [of w b] show ?thesis
    by (auto simp: slots_log_inv_def advance_base_slots max_def)
qed

lemma slots_log_inv_run:
  "slots_log_inv d0 D B w \<Longrightarrow> list_all rw_op_ok ops \<Longrightarrow>
   slots_log_inv d0 (D \<union> fst ` rw_log ops w) (B \<union> \<Union> (op_ack_of_acks ` set ops)) (snd (rw_run ops w))"
proof (induction ops arbitrary: D B w)
  case (Cons op ops)
  then show ?case
    using Cons.IH [OF slots_log_inv_step [of d0 D B w op]]
    by (simp add: case_prod_beta Let_def image_Un Un_assoc)
qed simp

lemma no_gaps_all_received:
  assumes "rw_slots_ok w" "\<not> has_gaps w" "rw_base_seq w \<le> d" "d \<le> rw_highest_seq w"
  shows "slot_received w d"
proof -
  have i: "d - rw_base_seq w < length (rw_entries w)"
    using assms(1,3,4) by (auto simp: rw_slots_ok_def split: if_splits)
  then have "re_state (rw_entries w ! (d - rw_base_seq w)) \<noteq> RecvPending"
    using assms(2) by (auto simp: has_gaps_def list_ex_iff)
  with i assms(3) show ?thesis
    by (cases "re_state (rw_entries w ! (d - rw_base_seq w))") (auto simp: slot_received_def)
qed

text \<open>
  C32. Cumulative acknowledgements are truthful: in every state a window can reach, if it
  reports no gaps, so that the connection acknowledges cumulatively up to
  \<open>highest_seq\<close>, then every DataSeqNum from the first one to that number was received,
  unless the sender itself gave it up with an AckOfAcks above it.
\<close>

theorem cumulative_ack_truthful:
  assumes "0 < d0" "d0 < 2 ^ 64" "list_all rw_op_ok ops"
    and "\<not> has_gaps (snd (rw_run ops (rw_new d0 c0 lws)))"
    and "d0 \<le> d" "d \<le> rw_highest_seq (snd (rw_run ops (rw_new d0 c0 lws)))"
  shows "d \<in> fst ` rw_log ops (rw_new d0 c0 lws) \<or> (\<exists>b. RwAdvance b \<in> set ops \<and> d < b)"
proof -
  let ?init = "rw_new d0 c0 lws" and ?w = "snd (rw_run ops (rw_new d0 c0 lws))"
  have "slots_log_inv d0 {} {} ?init"
    using rw_new_ok [OF assms(1,2), of c0 lws]
    by (auto simp: slots_log_inv_def rw_ok_def slot_received_def rw_new_def)
  then have inv: "slots_log_inv d0 (fst ` rw_log ops ?init) (\<Union> (op_ack_of_acks ` set ops)) ?w"
    using slots_log_inv_run [OF _ assms(3)] by fastforce
  have aoa: "b \<in> op_ack_of_acks op \<longleftrightarrow> op = RwAdvance b" for b op by (cases op) auto
  show ?thesis
  proof (cases "d < rw_base_seq ?w")
    case True
    with inv assms(5) show ?thesis by (auto simp: slots_log_inv_def aoa)
  next
    case False
    with assms no_gaps_all_received [of ?w d] inv show ?thesis by (auto simp: slots_log_inv_def)
  qed
qed

lemmas rw_eval = rw_new_def rw_receive_def receive_without_payload_def occupy_slot_def extend_entries_eq
  release_acknowledged_def advance_base_def has_gaps_def saturating_sub_def u64_add_def Let_def
  replicate_unfold

theorem cumulative_ack_truthful_witness:
  "101 \<in> fst ` rw_log [RwReceive 100 1 [1], RwReceive 102 3 [3], RwRelease, RwDummy 101] (rw_new 100 1 6)"
proof -
  let ?ops = "[RwReceive 100 1 [1], RwReceive 102 3 [3], RwRelease, RwDummy 101]"
  have run: "\<not> has_gaps (snd (rw_run ?ops (rw_new 100 1 6)))"
    "rw_highest_seq (snd (rw_run ?ops (rw_new 100 1 6))) = 102"
    by (simp_all add: rw_eval)
  show ?thesis
    using cumulative_ack_truthful [of 100 ?ops 1 6 101] run by auto
qed

text \<open>
  C33. The ACK vector is exact: its runs, expanded, are the received/missing states of
  the slots from \<open>base_seq\<close> to \<open>highest_seq\<close> in order, every run is non-empty, and two
  neighbouring runs differ, so the encoding is the shortest one.
\<close>

theorem ack_vector_exact:
  "concat (map (\<lambda>(received, n). replicate n received) (ack_vector w)) =
     map (\<lambda>e. re_state e = RecvReceived) (rw_entries w) \<and>
   list_all (\<lambda>run. 0 < snd run) (ack_vector w) \<and>
   successively (\<lambda>a b. fst a \<noteq> fst b) (ack_vector w)"
proof -
  have runs: "concat (map (\<lambda>(received, n). replicate n received) (ack_runs st n es)) =
      replicate n st @ map (\<lambda>e. re_state e = RecvReceived) es \<and>
    (0 < n \<longrightarrow> (\<forall>run \<in> set (ack_runs st n es). 0 < snd run)) \<and>
    successively (\<lambda>a b. fst a \<noteq> fst b) (ack_runs st n es) \<and>
    (\<exists>m rest. ack_runs st n es = (st, m) # rest)" for st n es
  proof (induction st n es rule: ack_runs.induct)
    case (2 st n e es)
    show ?case
    proof (cases "(re_state e = RecvReceived) = st")
      case True
      with 2 show ?thesis by (simp add: replicate_append_same)
    next
      case False
      with 2 show ?thesis by (auto simp: successively_Cons)
    qed
  qed simp
  show ?thesis
    by (cases "rw_entries w") (use runs in \<open>auto simp: ack_vector_def list_all_iff\<close>)
qed

text \<open>
  The packet the application is waiting for is never refused for lack of room:
  however full the reorder buffer is, a packet with the expected ChannelSeqNum in a
  free slot of the window is accepted, and the drain that follows delivers it first.
\<close>

theorem expected_packet_accepted:
  assumes "in_window w d" "\<not> slot_received w d"
  shows "fst (rw_receive d (rw_next_channel_seq w) data w) \<and>
    (\<exists>rest. fst (drain_ordered (snd (rw_receive d (rw_next_channel_seq w) data w))) = data # rest)"
proof -
  let ?c = "rw_next_channel_seq w"
  have occ: "fst (occupy_slot d (Some ?c) w)" using assms by (simp add: occupy_slot_result)
  then have rec: "rw_receive d ?c data w =
      (True, (snd (occupy_slot d (Some ?c) w))\<lparr>rw_reorder_buf := AList.update ?c data (rw_reorder_buf w)\<rparr>)"
    by (auto simp: rw_receive_def Let_def case_prod_beta occupy_slot_frame)
  have acc: "\<exists>rest. fst (drain_loop nxt buf acc) = acc @ rest" for nxt buf acc
  proof (induction nxt buf acc rule: drain_loop.induct)
    case (1 nxt buf acc)
    then show ?case
      by (cases "map_of buf nxt") (auto simp: drain_loop.simps [of nxt])
  qed
  have "fst (drain_loop ?c (AList.update ?c data (rw_reorder_buf w)) []) =
      fst (drain_loop (next_channel_seq ?c) (AList.delete ?c (AList.update ?c data (rw_reorder_buf w))) [data])"
    by (subst drain_loop.simps) (simp add: update_conv')
  with acc [of "next_channel_seq ?c" "AList.delete ?c (AList.update ?c data (rw_reorder_buf w))" "[data]"]
  show ?thesis
    by (simp add: rec drain_ordered_def case_prod_beta Let_def occupy_slot_frame)
qed

text \<open>
  A ChannelSeqNum whose low 16 bits are zero is skipped by the delivery cursor, yet the
  window accepts and buffers it: the entry stays in the reorder buffer behind the
  cursor, where no drain removes it.
\<close>

lemma skipped_channel_stranded:
  fixes x y :: bytes
  assumes w: "rw_next_channel_seq w = 0xFFFF" "rw_reorder_buf w = []" "0 < rw_max_entries w"
    and slots: "in_window w d" "\<not> slot_received w d" "in_window w d'" "\<not> slot_received w d'" "d \<noteq> d'"
  defines "w' \<equiv> snd (drain_ordered (snd (rw_receive d' 0xFFFF y (snd (rw_receive d 0x10000 x w)))))"
  shows "rw_next_channel_seq w' = 0x10001 \<and> rw_reorder_buf w' = [(0x10000, x)]"
proof -
  let ?w1 = "snd (rw_receive d 0x10000 x w)"
  have "fst (occupy_slot d (Some 0x10000) w)" using slots by (simp add: occupy_slot_result)
  then have w1: "?w1 = (snd (occupy_slot d (Some 0x10000) w))\<lparr>rw_reorder_buf := [(0x10000, x)]\<rparr>"
    using w by (auto simp: rw_receive_def Let_def case_prod_beta occupy_slot_frame)
  have "fst (occupy_slot d' (Some 0xFFFF) ?w1)"
    using slots by (simp add: occupy_slot_result w1 in_window_def occupy_slot_frame occupy_slot_received)
  moreover have "snd (rw_receive d' 0xFFFF y v) =
      (snd (occupy_slot d' (Some 0xFFFF) v))\<lparr>rw_reorder_buf := AList.update 0xFFFF y (rw_reorder_buf v)\<rparr>"
    if "rw_next_channel_seq v = 0xFFFF" "fst (occupy_slot d' (Some 0xFFFF) v)" for v
    using that by (auto simp: rw_receive_def Let_def case_prod_beta occupy_slot_frame)
  ultimately have w2: "snd (rw_receive d' 0xFFFF y ?w1) =
      (snd (occupy_slot d' (Some 0xFFFF) ?w1))\<lparr>rw_reorder_buf := [(0x10000, x), (0xFFFF, y)]\<rparr>"
    using w by (simp add: w1 occupy_slot_frame)
  have next1: "next_channel_seq 0xFFFF = 0x10001" by (simp add: next_channel_seq_eq)
  have "drain_loop 0xFFFF [(0x10000, x), (0xFFFF, y)] [] = ([y], 0x10001, [(0x10000, x)])"
    by (subst drain_loop.simps, simp add: next1, subst drain_loop.simps, simp)
  with w show ?thesis
    unfolding w'_def w2 by (simp add: drain_ordered_def occupy_slot_frame w1)
qed

end
