(* ===== verification/Reliability.thy ===== *)
theory Reliability
  imports Prelude
begin

text \<open>
  The retransmission queue (\<open>reliability.rs\<close>) and its contract as a locale: a first-in
  first-out queue that holds at most one entry per key. The connection relies on the
  contract only.
\<close>

section \<open>The queue\<close>

record retransmit_entry =
  rt_channel_seq :: u64
  rt_data :: bytes

record reliability_controller =
  rc_queue :: "retransmit_entry list"

definition rel_new :: reliability_controller where
  "rel_new = \<lparr>rc_queue = []\<rparr>"

definition rel_enqueue :: "u64 \<Rightarrow> bytes \<Rightarrow> reliability_controller \<Rightarrow> reliability_controller" where
  "rel_enqueue channel_seq data r =
     (if list_ex (\<lambda>e. rt_channel_seq e = channel_seq) (rc_queue r) then r
      else r\<lparr>rc_queue := rc_queue r @ [\<lparr>rt_channel_seq = channel_seq, rt_data = data\<rparr>]\<rparr>)"

definition rel_dequeue :: "reliability_controller \<Rightarrow> retransmit_entry option \<times> reliability_controller" where
  "rel_dequeue r =
     (case rc_queue r of
        [] \<Rightarrow> (None, r)
      | e # es \<Rightarrow> (Some e, r\<lparr>rc_queue := es\<rparr>))"

definition rel_has_pending :: "reliability_controller \<Rightarrow> bool" where
  "rel_has_pending r \<longleftrightarrow> rc_queue r \<noteq> []"

section \<open>Its contract\<close>

locale keyed_queue =
  fixes empty :: 'q
    and enq :: "'k \<Rightarrow> 'v \<Rightarrow> 'q \<Rightarrow> 'q"
    and deq :: "'q \<Rightarrow> ('k \<times> 'v) option \<times> 'q"
    and items :: "'q \<Rightarrow> ('k \<times> 'v) list"
  assumes items_empty: "items empty = []"
    and items_enq: "items (enq k v q) = (if k \<in> fst ` set (items q) then items q else items q @ [(k, v)])"
    and deq_nil: "items q = [] \<Longrightarrow> deq q = (None, q)"
    and deq_cons: "items q = x # xs \<Longrightarrow> fst (deq q) = Some x \<and> items (snd (deq q)) = xs"
begin

lemma distinct_enq: "distinct (map fst (items q)) \<Longrightarrow> distinct (map fst (items (enq k v q)))"
  by (auto simp: items_enq)

lemma distinct_deq: "distinct (map fst (items q)) \<Longrightarrow> distinct (map fst (items (snd (deq q))))"
  using deq_nil [of q] deq_cons [of q] by (cases "items q") auto

lemma items_enq_all:
  "distinct (map fst kvs) \<Longrightarrow> fst ` set kvs \<inter> fst ` set (items q) = {} \<Longrightarrow>
   items (fold (\<lambda>(k, v). enq k v) kvs q) = items q @ kvs"
proof (induction kvs arbitrary: q)
  case (Cons kv kvs)
  obtain k v where kv: "kv = (k, v)" by fastforce
  have "items (enq k v q) = items q @ [(k, v)]" using Cons.prems kv by (auto simp: items_enq)
  with Cons kv show ?case by auto
qed simp

lemma drain:
  "length (items q) = n \<Longrightarrow>
   map (\<lambda>i. fst (deq (((snd \<circ> deq) ^^ i) q))) [0..<n] = map Some (items q)"
proof (induction n arbitrary: q)
  case (Suc n)
  then obtain x xs where q: "items q = x # xs" by (cases "items q") auto
  note d = deq_cons [OF q]
  have "map (\<lambda>i. fst (deq (((snd \<circ> deq) ^^ i) q))) [0..<Suc n] =
      fst (deq q) # map (\<lambda>i. fst (deq (((snd \<circ> deq) ^^ i) (snd (deq q))))) [0..<n]"
    using funpow_swap1 [of "\<lambda>q. snd (deq q)" _ q]
    by (simp add: upt_conv_Cons map_Suc_upt [symmetric] comp_def del: upt_Suc)
  also have "\<dots> = Some x # map Some xs"
    using Suc.IH [of "snd (deq q)"] Suc.prems q d by (simp add: comp_def)
  finally show ?case by (simp add: q comp_def)
qed simp

end

definition rel_items :: "reliability_controller \<Rightarrow> (u64 \<times> bytes) list" where
  "rel_items r = map (\<lambda>e. (rt_channel_seq e, rt_data e)) (rc_queue r)"

interpretation retransmit_queue: keyed_queue rel_new rel_enqueue
    "\<lambda>r. map_prod (map_option (\<lambda>e. (rt_channel_seq e, rt_data e))) id (rel_dequeue r)" rel_items
proof
  show "rel_items (rel_enqueue k v q) =
      (if k \<in> fst ` set (rel_items q) then rel_items q else rel_items q @ [(k, v)])" for k v q
    by (auto simp: rel_items_def rel_enqueue_def list_ex_iff image_iff)
qed (auto simp: rel_items_def rel_new_def rel_dequeue_def map_prod_def)

text \<open>
  Lost packets are retransmitted in the order they were queued and each at most
  once: enqueueing packets with different ChannelSeqNums on a queue that holds none of
  them and dequeuing until it is empty returns first what was queued before, then
  those packets in order, each with its own payload.
\<close>

theorem retransmit_fifo:
  assumes "distinct (map fst lost)" "fst ` set lost \<inter> fst ` set (rel_items q) = {}"
  shows "map (\<lambda>i. map_option (\<lambda>e. (rt_channel_seq e, rt_data e))
        (fst (rel_dequeue (((snd \<circ> rel_dequeue) ^^ i) (fold (\<lambda>(c, d). rel_enqueue c d) lost q)))))
      [0..<length (rel_items q) + length lost] = map Some (rel_items q @ lost)"
proof -
  let ?q = "fold (\<lambda>(c, d). rel_enqueue c d) lost q"
  have all: "rel_items ?q = rel_items q @ lost"
    by (rule retransmit_queue.items_enq_all [OF assms])
  have "snd (map_prod (map_option (\<lambda>e. (rt_channel_seq e, rt_data e))) id (rel_dequeue r)) = snd (rel_dequeue r)" for r
    by (simp add: map_prod_def case_prod_beta)
  then have "snd \<circ> (\<lambda>r. map_prod (map_option (\<lambda>e. (rt_channel_seq e, rt_data e))) id (rel_dequeue r)) = snd \<circ> rel_dequeue"
    by (intro ext) simp
  with retransmit_queue.drain [of ?q "length (rel_items q) + length lost"] all show ?thesis
    by (simp add: map_prod_def case_prod_beta)
qed

end
