(* ===== verification/Instants.thy ===== *)
theory Instants
  imports Prelude
begin

text \<open>
  Time as the connection sees it (\<open>ironrdp-core\<close>'s \<open>time.rs\<close>, re-exported by
  \<open>ironrdp-rdpeudp\<close>'s). The state machine never reads a clock: it is handed an \<open>instant\<close>, a
  \<open>u64\<close> number of milliseconds. A \<open>duration\<close> is a number of nanoseconds, the resolution of
  \<open>core::time::Duration\<close>.
\<close>

type_synonym instant = nat
type_synonym duration = nat

definition duration_from_millis :: "nat \<Rightarrow> duration" where
  "duration_from_millis ms = ms * 1000000"

definition duration_from_secs :: "nat \<Rightarrow> duration" where
  "duration_from_secs s = s * 1000000000"

text \<open>\<open>Duration::as_millis\<close> truncates.\<close>

definition as_millis :: "duration \<Rightarrow> nat" where
  "as_millis d = d div 1000000"

definition duration_since :: "instant \<Rightarrow> instant \<Rightarrow> duration" where
  "duration_since now earlier = duration_from_millis (saturating_sub now earlier)"

text \<open>A duration of more than \<open>u64::MAX\<close> milliseconds fails \<open>u64::try_from\<close> and counts as
  \<open>u64::MAX\<close>.\<close>

definition instant_add :: "instant \<Rightarrow> duration \<Rightarrow> instant" where
  "instant_add i d =
     (let milliseconds = (if as_millis d < 2 ^ 64 then as_millis d else 2 ^ 64 - 1)
      in u64_saturating_add i milliseconds)"

lemma instant_add_mono: "i < 2 ^ 64 \<Longrightarrow> i \<le> instant_add i d"
  by (simp add: instant_add_def Let_def u64_saturating_add_def)

lemma instant_add_bound: "instant_add i d < 2 ^ 64"
  by (simp add: instant_add_def Let_def u64_saturating_add_def min_less_iff_disj)

lemma as_millis_from_millis [simp]: "as_millis (duration_from_millis ms) = ms"
  by (simp add: as_millis_def duration_from_millis_def)

lemma as_millis_from_secs [simp]: "as_millis (duration_from_secs s) = s * 1000"
  by (simp add: as_millis_def duration_from_secs_def)

lemma as_millis_mono: "d \<le> d' \<Longrightarrow> as_millis d \<le> as_millis d'"
  by (simp add: as_millis_def div_le_mono)

lemma instant_add_exact: "i + as_millis d < 2 ^ 64 \<Longrightarrow> instant_add i d = i + as_millis d"
  by (simp add: instant_add_def Let_def u64_saturating_add_def)

end
