(* ===== verification/Send_Window.thy ===== *)
theory Send_Window
  imports Seq Instants
begin

text \<open>
  The send window (\<open>send_window.rs\<close>): the packets sent and not yet acknowledged, with
  the payloads kept for retransmission. Its abstract state is \<open>in_flight\<close>, the
  unacknowledged transmissions with their ChannelSeqNum and payload; every operation
  is shown to act on it the way its doc comment says.
\<close>

section \<open>State\<close>

datatype send_entry_state = SendPending | SendReceived

record send_entry =
  se_data_seq :: u64
  se_channel_seq :: u64
  se_sent_at :: instant
  se_size :: usize
  se_state :: send_entry_state
  se_transmit_count :: u32

record lost_packet_info =
  lp_channel_seq :: u64
  lp_data :: bytes
  lp_size :: usize

record send_window =
  sw_entries :: "send_entry list"
  sw_data_store :: "(u64 \<times> bytes) list"
  sw_next_data_seq :: u64
  sw_next_channel_seq :: u64
  sw_bytes_in_flight :: u64
  sw_max_entries :: usize

definition sw_new :: "u64 \<Rightarrow> u64 \<Rightarrow> u8 \<Rightarrow> send_window" where
  "sw_new initial_data_seq initial_channel_seq log_window_size =
     \<lparr>sw_entries = [], sw_data_store = [], sw_next_data_seq = initial_data_seq,
      sw_next_channel_seq = initial_channel_seq, sw_bytes_in_flight = 0,
      sw_max_entries = 2 ^ (unat log_window_size mod 64)\<rparr>"

section \<open>Operations\<close>

definition set_peer_window :: "u8 \<Rightarrow> send_window \<Rightarrow> send_window" where
  "set_peer_window log_window_size w = w\<lparr>sw_max_entries := 2 ^ unat (min log_window_size 15)\<rparr>"

definition has_capacity :: "send_window \<Rightarrow> bool" where
  "has_capacity w \<longleftrightarrow> length (sw_entries w) < sw_max_entries w"

definition sw_push :: "bytes \<Rightarrow> instant \<Rightarrow> send_window \<Rightarrow> (u64 \<times> u64) option \<times> send_window" where
  "sw_push data now w =
     (if \<not> has_capacity w then (None, w)
      else
       let data_seq = sw_next_data_seq w;
           channel_seq = sw_next_channel_seq w;
           sz = length data
       in (Some (data_seq, channel_seq),
           w\<lparr>sw_entries := sw_entries w @
               [\<lparr>se_data_seq = data_seq, se_channel_seq = channel_seq, se_sent_at = now,
                 se_size = sz, se_state = SendPending, se_transmit_count = 1\<rparr>],
             sw_data_store := sw_data_store w @ [(data_seq, data)],
             sw_next_data_seq := u64_add (sw_next_data_seq w) 1,
             sw_next_channel_seq := next_channel_seq (sw_next_channel_seq w),
             sw_bytes_in_flight := u64_add (sw_bytes_in_flight w) sz\<rparr>))"

definition push_retransmit :: "u64 \<Rightarrow> bytes \<Rightarrow> instant \<Rightarrow> send_window \<Rightarrow> u64 option \<times> send_window" where
  "push_retransmit channel_seq data now w =
     (if \<not> has_capacity w then (None, w)
      else
       let data_seq = sw_next_data_seq w;
           sz = length data
       in (Some data_seq,
           w\<lparr>sw_entries := sw_entries w @
               [\<lparr>se_data_seq = data_seq, se_channel_seq = channel_seq, se_sent_at = now,
                 se_size = sz, se_state = SendPending, se_transmit_count = 2\<rparr>],
             sw_data_store := sw_data_store w @ [(data_seq, data)],
             sw_next_data_seq := u64_add (sw_next_data_seq w) 1,
             sw_bytes_in_flight := u64_add (sw_bytes_in_flight w) sz\<rparr>))"

fun advance_loop :: "send_entry list \<Rightarrow> (u64 \<times> bytes) list \<Rightarrow> send_entry list \<times> (u64 \<times> bytes) list" where
  "advance_loop [] store = ([], store)"
| "advance_loop (front # es) store =
     (if se_state front = SendPending then (front # es, store)
      else advance_loop es (filter (\<lambda>(sq, _). sq \<noteq> se_data_seq front) store))"

definition advance_window :: "send_window \<Rightarrow> send_window" where
  "advance_window w =
     (let (es, store) = advance_loop (sw_entries w) (sw_data_store w)
      in w\<lparr>sw_entries := es, sw_data_store := store\<rparr>)"

text \<open>The mutable reference \<open>find\<close> returns is to the first entry with that number.\<close>

primrec set_received :: "u64 \<Rightarrow> send_entry list \<Rightarrow> send_entry list" where
  "set_received d [] = []"
| "set_received d (e # es) =
     (if se_data_seq e = d then e\<lparr>se_state := SendReceived\<rparr> # es else e # set_received d es)"

definition mark_received :: "u64 \<Rightarrow> send_window \<Rightarrow> usize option \<times> send_window" where
  "mark_received data_seq w =
     (case find (\<lambda>e. se_data_seq e = data_seq) (sw_entries w) of
        None \<Rightarrow> (None, w)
      | Some entry \<Rightarrow>
          if se_state entry \<noteq> SendPending then (None, w)
          else
            (Some (se_size entry),
             advance_window
               (w\<lparr>sw_entries := set_received data_seq (sw_entries w),
                  sw_bytes_in_flight := u64_sub (sw_bytes_in_flight w) (se_size entry),
                  sw_data_store := filter (\<lambda>(sq, _). sq \<noteq> data_seq) (sw_data_store w)\<rparr>)))"

primrec remove_first_entry :: "u64 \<Rightarrow> send_entry list \<Rightarrow> send_entry list" where
  "remove_first_entry d [] = []"
| "remove_first_entry d (e # es) = (if se_data_seq e = d then es else e # remove_first_entry d es)"

primrec remove_first_data :: "u64 \<Rightarrow> (u64 \<times> bytes) list \<Rightarrow> (u64 \<times> bytes) list" where
  "remove_first_data d [] = []"
| "remove_first_data d (x # xs) = (if fst x = d then xs else x # remove_first_data d xs)"

definition mark_lost :: "u64 \<Rightarrow> send_window \<Rightarrow> lost_packet_info option \<times> send_window" where
  "mark_lost data_seq w =
     (case find (\<lambda>e. se_data_seq e = data_seq) (sw_entries w) of
        None \<Rightarrow> (None, w)
      | Some entry \<Rightarrow>
          if se_state entry \<noteq> SendPending then (None, w)
          else
            let data = (case map_of (sw_data_store w) data_seq of None \<Rightarrow> [] | Some bs \<Rightarrow> bs)
            in (Some \<lparr>lp_channel_seq = se_channel_seq entry, lp_data = data, lp_size = se_size entry\<rparr>,
                advance_window
                  (w\<lparr>sw_entries := remove_first_entry data_seq (sw_entries w),
                     sw_bytes_in_flight := u64_sub (sw_bytes_in_flight w) (se_size entry),
                     sw_data_store := remove_first_data data_seq (sw_data_store w)\<rparr>)))"

lemma advance_loop_length: "length (fst (advance_loop es store)) \<le> length es"
  by (induction es store rule: advance_loop.induct) auto

lemma mark_received_front_shrinks:
  assumes "sw_entries w = front # es" "mark_received (se_data_seq front) w = (Some sz, w')"
  shows "length (sw_entries w') < length (sw_entries w)"
  using assms advance_loop_length [of es]
  by (auto simp: mark_received_def advance_window_def case_prod_beta Let_def le_imp_less_Suc
      split: if_splits)

function mark_received_through_loop :: "u64 \<Rightarrow> send_window \<Rightarrow> u64 \<Rightarrow> u64 \<times> send_window" where
  "mark_received_through_loop data_seq w bytes =
     (case sw_entries w of
        [] \<Rightarrow> (bytes, w)
      | front # es \<Rightarrow>
          if se_data_seq front > data_seq then (bytes, w)
          else
            (case mark_received (se_data_seq front) w of
               (None, w') \<Rightarrow> (bytes, w')
             | (Some sz, w') \<Rightarrow> mark_received_through_loop data_seq w' (u64_add bytes sz)))"
  by auto
termination
  by (relation "measure (\<lambda>(d, w, b). length (sw_entries w))")
     (auto, metis length_Cons mark_received_front_shrinks)

declare mark_received_through_loop.simps [simp del]

definition mark_received_through :: "u64 \<Rightarrow> send_window \<Rightarrow> u64 \<times> send_window" where
  "mark_received_through data_seq w = mark_received_through_loop data_seq w 0"

definition get_by_data_seq :: "u64 \<Rightarrow> send_window \<Rightarrow> send_entry option" where
  "get_by_data_seq data_seq w = find (\<lambda>e. se_data_seq e = data_seq) (sw_entries w)"

definition pending_entries :: "send_window \<Rightarrow> send_entry list" where
  "pending_entries w = filter (\<lambda>e. se_state e = SendPending) (sw_entries w)"

definition lowest_unacknowledged :: "send_window \<Rightarrow> u64" where
  "lowest_unacknowledged w =
     (case sw_entries w of [] \<Rightarrow> sw_next_data_seq w | e # es \<Rightarrow> se_data_seq e)"

definition highest_acked_data_seq :: "send_window \<Rightarrow> u64 option" where
  "highest_acked_data_seq w =
     (case map se_data_seq (filter (\<lambda>e. se_state e = SendReceived) (sw_entries w)) of
        [] \<Rightarrow> None
      | d # ds \<Rightarrow> Some (fold max ds d))"

section \<open>Abstract state and invariant\<close>

abbreviation pending :: "send_entry list \<Rightarrow> send_entry list" where
  "pending es \<equiv> filter (\<lambda>e. se_state e = SendPending) es"

definition payload_of :: "(u64 \<times> bytes) list \<Rightarrow> u64 \<Rightarrow> bytes" where
  "payload_of store d = (case map_of store d of None \<Rightarrow> [] | Some bs \<Rightarrow> bs)"

definition in_flight :: "send_window \<Rightarrow> (u64 \<times> u64 \<times> bytes) list" where
  "in_flight w =
     map (\<lambda>e. (se_data_seq e, se_channel_seq e, payload_of (sw_data_store w) (se_data_seq e)))
         (pending (sw_entries w))"

definition sw_ok :: "send_window \<Rightarrow> bool" where
  "sw_ok w \<longleftrightarrow>
     sorted_wrt (<) (map se_data_seq (sw_entries w)) \<and>
     (\<forall>e \<in> set (sw_entries w). se_data_seq e < sw_next_data_seq w) \<and>
     (sw_entries w \<noteq> [] \<longrightarrow> se_state (hd (sw_entries w)) = SendPending) \<and>
     map fst (sw_data_store w) = map se_data_seq (pending (sw_entries w)) \<and>
     (\<forall>e \<in> set (pending (sw_entries w)). se_size e = length (payload_of (sw_data_store w) (se_data_seq e))) \<and>
     sw_bytes_in_flight w = sum_list (map se_size (pending (sw_entries w))) \<and>
     sw_bytes_in_flight w < 2 ^ 64"

lemma sw_new_ok: "sw_ok (sw_new d0 c0 lws)"
  by (simp add: sw_ok_def sw_new_def)

lemma sw_ok_bytes: "sw_ok w \<Longrightarrow> sw_bytes_in_flight w < 2 ^ 64"
  by (simp add: sw_ok_def)

lemma sorted_data_seqs_distinct: "sorted_wrt (<) (map se_data_seq es) \<Longrightarrow> distinct (map se_data_seq es)"
  by (metis strict_sorted_iff)

lemma distinct_pending: "distinct (map se_data_seq es) \<Longrightarrow> distinct (map se_data_seq (pending es))"
  by (simp add: distinct_map inj_on_def)

text \<open>What the helper loops do to the pending entries and the payload store.\<close>

lemma pending_set_received:
  "distinct (map se_data_seq es) \<Longrightarrow>
   pending (set_received d es) = filter (\<lambda>e. se_data_seq e \<noteq> d) (pending es)"
proof (induction es)
  case (Cons e es)
  have "filter (\<lambda>e. se_state e = SendPending \<and> se_data_seq e \<noteq> d) es = pending es" if "d = se_data_seq e"
    using Cons.prems that by (intro filter_cong) (auto simp: rev_image_eqI)
  with Cons show ?case by auto
qed simp

lemma pending_remove_first:
  "distinct (map se_data_seq es) \<Longrightarrow>
   pending (remove_first_entry d es) = filter (\<lambda>e. se_data_seq e \<noteq> d) (pending es)"
proof (induction es)
  case (Cons e es)
  have "filter (\<lambda>e. se_state e = SendPending \<and> se_data_seq e \<noteq> d) es = pending es" if "d = se_data_seq e"
    using Cons.prems that by (intro filter_cong) (auto simp: rev_image_eqI)
  with Cons show ?case by auto
qed simp

lemma remove_first_data_filter:
  "distinct (map fst st) \<Longrightarrow> remove_first_data d st = filter (\<lambda>(sq, _). sq \<noteq> d) st"
proof (induction st)
  case (Cons x xs)
  have "filter (\<lambda>y. fst y \<noteq> d) xs = xs" if "d = fst x"
    using Cons.prems that by (intro filter_True) (auto simp: rev_image_eqI)
  with Cons show ?case by (auto simp: case_prod_beta)
qed simp

lemma advance_loop_eq:
  "distinct (map se_data_seq es) \<Longrightarrow> fst ` set store \<subseteq> se_data_seq ` set (pending es) \<Longrightarrow>
   advance_loop es store = (dropWhile (\<lambda>e. se_state e \<noteq> SendPending) es, store)"
proof (induction es store rule: advance_loop.induct)
  case (2 front es store)
  show ?case
  proof (cases "se_state front = SendPending")
    case False
    then have "se_data_seq front \<notin> fst ` set store" using 2 by auto
    then have "filter (\<lambda>(sq, _). sq \<noteq> se_data_seq front) store = store"
      by (force simp: filter_id_conv)
    with 2 False show ?thesis by auto
  qed simp
qed simp

lemma pending_dropWhile: "pending (dropWhile (\<lambda>e. se_state e \<noteq> SendPending) es) = pending es"
  by (induction es) auto

lemma hd_dropWhile_pending:
  "e \<in> set es \<Longrightarrow> se_state e = SendPending \<Longrightarrow>
   se_state (hd (dropWhile (\<lambda>e. se_state e \<noteq> SendPending) es)) = SendPending"
  by (induction es) auto

lemma payload_of_filter: "d \<noteq> d' \<Longrightarrow> payload_of (filter (\<lambda>(sq, _). sq \<noteq> d) store) d' = payload_of store d'"
proof -
  assume "d \<noteq> d'"
  then have "map_of (filter (\<lambda>(sq, _). sq \<noteq> d) store) d' = map_of store d'"
    by (induction store) auto
  then show ?thesis by (simp add: payload_of_def)
qed

lemma map_fst_filter_key: "map fst (filter (\<lambda>(sq, _). sq \<noteq> d) st) = filter (\<lambda>sq. sq \<noteq> d) (map fst st)"
  by (induction st) auto

lemma sorted_seqs_sub:
  assumes "sorted_wrt (<) (map se_data_seq es)"
  shows "sorted_wrt (<) (map se_data_seq (set_received d es))"
    and "sorted_wrt (<) (map se_data_seq (remove_first_entry d es))"
    and "sorted_wrt (<) (map se_data_seq (dropWhile P es))"
proof -
  have 1: "map se_data_seq (set_received d es) = map se_data_seq es" by (induction es) auto
  have 2: "set (remove_first_entry d es) \<subseteq> set es" for es by (induction es) auto
  show "sorted_wrt (<) (map se_data_seq (set_received d es))" using assms by (simp only: 1)
  show "sorted_wrt (<) (map se_data_seq (remove_first_entry d es))"
    using assms 2 by (induction es) auto
  show "sorted_wrt (<) (map se_data_seq (dropWhile P es))"
    using assms by (simp add: dropWhile_eq_drop sorted_wrt_drop flip: drop_map)
qed

text \<open>
  \<open>mark_received\<close> and \<open>mark_lost\<close> resolve a pending transmission the same way; only what
  they return and the state of the entry differ. \<open>resolve_ok\<close> is the part they share.
\<close>

lemma resolve_ok:
  assumes ok: "sw_ok w" and e: "e \<in> set (sw_entries w)" "se_data_seq e = d" "se_state e = SendPending"
    and es: "sorted_wrt (<) (map se_data_seq es)" "se_data_seq ` set es \<subseteq> se_data_seq ` set (sw_entries w)"
      "pending es = filter (\<lambda>e. se_data_seq e \<noteq> d) (pending (sw_entries w))"
  defines "w' \<equiv> advance_window (w\<lparr>sw_entries := es,
      sw_bytes_in_flight := u64_sub (sw_bytes_in_flight w) (se_size e),
      sw_data_store := filter (\<lambda>(sq, _). sq \<noteq> d) (sw_data_store w)\<rparr>)"
  shows "sw_ok w' \<and> in_flight w' = filter (\<lambda>(d', _). d' \<noteq> d) (in_flight w) \<and>
    sw_entries w' = dropWhile (\<lambda>e. se_state e \<noteq> SendPending) es \<and>
    sw_next_data_seq w' = sw_next_data_seq w \<and> sw_next_channel_seq w' = sw_next_channel_seq w \<and>
    sw_max_entries w' = sw_max_entries w \<and> sw_bytes_in_flight w' + se_size e = sw_bytes_in_flight w"
proof -
  let ?st = "filter (\<lambda>(sq, _). sq \<noteq> d) (sw_data_store w)"
  have keys: "map fst ?st = map se_data_seq (pending es)"
    using ok by (simp add: sw_ok_def map_fst_filter_key es(3) filter_map comp_def)
  then have "fst ` set ?st = se_data_seq ` set (pending es)" by (metis set_map)
  then have "advance_loop es ?st = (dropWhile (\<lambda>e. se_state e \<noteq> SendPending) es, ?st)"
    using es(1) by (intro advance_loop_eq sorted_data_seqs_distinct) simp_all
  then have w': "w' = w\<lparr>sw_entries := dropWhile (\<lambda>e. se_state e \<noteq> SendPending) es,
      sw_bytes_in_flight := u64_sub (sw_bytes_in_flight w) (se_size e), sw_data_store := ?st\<rparr>"
    by (simp add: w'_def advance_window_def)
  have dist: "distinct (map se_data_seq (pending (sw_entries w)))"
    using ok by (simp add: sw_ok_def sorted_data_seqs_distinct distinct_pending)
  have "e \<in> set (pending (sw_entries w))" using e by simp
  then have sum: "sum_list (map se_size (pending es)) + se_size e = sum_list (map se_size (pending (sw_entries w)))"
    unfolding es(3) e(2) [symmetric] by (rule sum_list_filter_key [OF dist])
  then have bytes: "u64_sub (sw_bytes_in_flight w) (se_size e) = sum_list (map se_size (pending es))"
    using ok by (simp add: sw_ok_def u64_sub_exact)
  have flight: "in_flight w' = filter (\<lambda>(d', _). d' \<noteq> d) (in_flight w)"
    unfolding in_flight_def w' filter_map
    by (auto simp: pending_dropWhile es(3) comp_def payload_of_filter intro!: map_cong filter_cong)
  have "sw_ok w'"
    using ok es keys bytes sum
    unfolding sw_ok_def w'
    by (auto simp: pending_dropWhile sorted_seqs_sub payload_of_filter hd_dropWhile_pending
        dest!: set_dropWhileD)
  with flight bytes sum ok show ?thesis by (simp add: w' sw_ok_def)
qed

section \<open>What the operations do\<close>

lemma find_by_seq:
  "distinct (map se_data_seq es) \<Longrightarrow>
   find (\<lambda>e. se_data_seq e = d) es = Some e \<longleftrightarrow> e \<in> set es \<and> se_data_seq e = d"
  by (induction es) (auto simp: rev_image_eqI)

lemma find_by_seq_None: "find (\<lambda>e. se_data_seq e = d) es = None \<longleftrightarrow> d \<notin> se_data_seq ` set es"
  by (auto simp: find_None_iff)

definition is_pending :: "u64 \<Rightarrow> send_window \<Rightarrow> bool" where
  "is_pending d w \<longleftrightarrow> d \<in> fst ` set (in_flight w)"

lemma is_pending_iff:
  "is_pending d w \<longleftrightarrow> (\<exists>e \<in> set (sw_entries w). se_data_seq e = d \<and> se_state e = SendPending)"
  by (force simp: is_pending_def in_flight_def)

lemma set_received_keys: "se_data_seq ` set (set_received d es) = se_data_seq ` set es"
  by (induction es) auto

lemma remove_first_keys: "set (remove_first_entry d es) \<subseteq> set es"
  by (induction es) auto

lemma mark_received_pending:
  assumes ok: "sw_ok w" and p: "is_pending d w"
  obtains e w' where "mark_received d w = (Some (se_size e), w')" "e \<in> set (sw_entries w)"
    "se_data_seq e = d" "se_state e = SendPending" "sw_ok w'"
    "in_flight w' = filter (\<lambda>(d', _). d' \<noteq> d) (in_flight w)"
    "sw_entries w' = dropWhile (\<lambda>e. se_state e \<noteq> SendPending) (set_received d (sw_entries w))"
    "sw_next_data_seq w' = sw_next_data_seq w" "sw_next_channel_seq w' = sw_next_channel_seq w"
    "sw_bytes_in_flight w' + se_size e = sw_bytes_in_flight w"
proof -
  have sorted: "sorted_wrt (<) (map se_data_seq (sw_entries w))" using ok by (simp add: sw_ok_def)
  then have dist: "distinct (map se_data_seq (sw_entries w))" by (rule sorted_data_seqs_distinct)
  from p obtain e where e: "e \<in> set (sw_entries w)" "se_data_seq e = d" "se_state e = SendPending"
    by (auto simp: is_pending_iff)
  with dist have "find (\<lambda>e. se_data_seq e = d) (sw_entries w) = Some e" by (simp add: find_by_seq)
  then show thesis
    using resolve_ok [OF ok e sorted_seqs_sub(1) [OF sorted]] e dist
    by (intro that [of e "snd (mark_received d w)"])
       (simp_all add: mark_received_def set_received_keys pending_set_received)
qed

lemma mark_received_absent: "sw_ok w \<Longrightarrow> \<not> is_pending d w \<Longrightarrow> mark_received d w = (None, w)"
  by (auto simp: mark_received_def is_pending_iff find_by_seq sw_ok_def sorted_data_seqs_distinct
      split: option.splits)

lemma mark_lost_pending:
  assumes ok: "sw_ok w" and p: "is_pending d w"
  obtains info w' where "mark_lost d w = (Some info, w')"
    "(d, lp_channel_seq info, lp_data info) \<in> set (in_flight w)" "lp_size info = length (lp_data info)"
    "sw_ok w'" "in_flight w' = filter (\<lambda>(d', _). d' \<noteq> d) (in_flight w)"
    "sw_entries w' = dropWhile (\<lambda>e. se_state e \<noteq> SendPending) (remove_first_entry d (sw_entries w))"
    "sw_next_data_seq w' = sw_next_data_seq w" "sw_next_channel_seq w' = sw_next_channel_seq w"
    "sw_bytes_in_flight w' + lp_size info = sw_bytes_in_flight w"
proof -
  have sorted: "sorted_wrt (<) (map se_data_seq (sw_entries w))" using ok by (simp add: sw_ok_def)
  then have dist: "distinct (map se_data_seq (sw_entries w))" by (rule sorted_data_seqs_distinct)
  then have "distinct (map fst (sw_data_store w))"
    using ok distinct_pending by (simp add: sw_ok_def)
  then have store: "remove_first_data d (sw_data_store w) = filter (\<lambda>(sq, _). sq \<noteq> d) (sw_data_store w)"
    by (rule remove_first_data_filter)
  from p obtain e where e: "e \<in> set (sw_entries w)" "se_data_seq e = d" "se_state e = SendPending"
    by (auto simp: is_pending_iff)
  with dist have f: "find (\<lambda>e. se_data_seq e = d) (sw_entries w) = Some e" by (simp add: find_by_seq)
  have "(d, se_channel_seq e, payload_of (sw_data_store w) d) \<in> set (in_flight w)"
    using e by (auto simp: in_flight_def)
  moreover have "se_size e = length (payload_of (sw_data_store w) d)"
    using ok e by (auto simp: sw_ok_def)
  ultimately show thesis
    using resolve_ok [OF ok e sorted_seqs_sub(2) [OF sorted]] dist remove_first_keys [of d "sw_entries w"] f
    by (intro that [of "\<lparr>lp_channel_seq = se_channel_seq e, lp_data = payload_of (sw_data_store w) d,
          lp_size = se_size e\<rparr>" "snd (mark_lost d w)"])
       (simp_all add: mark_lost_def store e payload_of_def pending_remove_first image_mono)
qed

lemma mark_lost_absent: "sw_ok w \<Longrightarrow> \<not> is_pending d w \<Longrightarrow> mark_lost d w = (None, w)"
  by (auto simp: mark_lost_def is_pending_iff find_by_seq sw_ok_def sorted_data_seqs_distinct
      split: option.splits)

lemma payload_of_append:
  "d \<notin> fst ` set store \<Longrightarrow>
   payload_of (store @ [(d, data)]) d' = (if d' = d then data else payload_of store d')"
proof -
  assume "d \<notin> fst ` set store"
  then have "map_of (store @ [(d, data)]) d' = (if d' = d then Some data else map_of store d')"
    by (induction store) auto
  then show ?thesis by (simp add: payload_of_def)
qed

text \<open>Both pushes append one pending transmission; only the channel number differs.\<close>

lemma append_entry_ok:
  assumes ok: "sw_ok w" and bounds: "sw_next_data_seq w + 1 < 2 ^ 64"
      "sw_bytes_in_flight w + length data < 2 ^ 64"
    and w': "sw_entries w' = sw_entries w @ [e]" "sw_data_store w' = sw_data_store w @ [(sw_next_data_seq w, data)]"
      "sw_next_data_seq w' = u64_add (sw_next_data_seq w) 1"
      "sw_bytes_in_flight w' = u64_add (sw_bytes_in_flight w) (length data)"
    and e: "se_data_seq e = sw_next_data_seq w" "se_size e = length data" "se_state e = SendPending"
  shows "sw_ok w' \<and> in_flight w' = in_flight w @ [(sw_next_data_seq w, se_channel_seq e, data)]"
proof -
  have old: "se_data_seq x < sw_next_data_seq w" if "x \<in> set (sw_entries w)" for x
    using ok that by (simp add: sw_ok_def)
  have "fst ` set (sw_data_store w) = se_data_seq ` set (pending (sw_entries w))"
    using ok unfolding sw_ok_def by (metis set_map)
  then have new: "sw_next_data_seq w \<notin> fst ` set (sw_data_store w)" using old by force
  then have pay: "payload_of (sw_data_store w @ [(sw_next_data_seq w, data)]) (se_data_seq x)
      = payload_of (sw_data_store w) (se_data_seq x)" if "x \<in> set (sw_entries w)" for x
    using that old [of x] by (simp add: payload_of_append)
  have next': "u64_add (sw_next_data_seq w) 1 = sw_next_data_seq w + 1"
    "u64_add (sw_bytes_in_flight w) (length data) = sw_bytes_in_flight w + length data"
    using bounds by (simp_all add: u64_add_exact)
  have "in_flight w' = in_flight w @ [(sw_next_data_seq w, se_channel_seq e, data)]"
    using new pay e by (auto simp: in_flight_def w' payload_of_append)
  moreover have "sw_ok w'"
    unfolding sw_ok_def
  proof (intro conjI)
    show "sorted_wrt (<) (map se_data_seq (sw_entries w'))"
      using ok old e by (simp add: sw_ok_def w' sorted_wrt_append)
    show "\<forall>x \<in> set (sw_entries w'). se_data_seq x < sw_next_data_seq w'"
      using old e next' by (fastforce simp: w')
    show "sw_entries w' \<noteq> [] \<longrightarrow> se_state (hd (sw_entries w')) = SendPending"
      using ok e by (cases "sw_entries w") (auto simp: sw_ok_def w')
    show "\<forall>x\<in>set (pending (sw_entries w')). se_size x = length (payload_of (sw_data_store w') (se_data_seq x))"
      using ok e new pay by (auto simp: sw_ok_def w' payload_of_append)
  qed (use ok e next' bounds in \<open>simp_all add: sw_ok_def w'\<close>)
  ultimately show ?thesis by simp
qed

lemma sw_push_ok:
  assumes "sw_ok w" "has_capacity w" "sw_next_data_seq w + 1 < 2 ^ 64" "sw_bytes_in_flight w + length data < 2 ^ 64"
  shows "fst (sw_push data now w) = Some (sw_next_data_seq w, sw_next_channel_seq w) \<and>
    sw_ok (snd (sw_push data now w)) \<and>
    in_flight (snd (sw_push data now w)) = in_flight w @ [(sw_next_data_seq w, sw_next_channel_seq w, data)]"
  using append_entry_ok [OF assms(1,3,4), of "snd (sw_push data now w)"] assms(2)
  by (simp add: sw_push_def Let_def)

lemma push_retransmit_ok:
  assumes "sw_ok w" "has_capacity w" "sw_next_data_seq w + 1 < 2 ^ 64" "sw_bytes_in_flight w + length data < 2 ^ 64"
  shows "fst (push_retransmit c data now w) = Some (sw_next_data_seq w) \<and>
    sw_ok (snd (push_retransmit c data now w)) \<and>
    in_flight (snd (push_retransmit c data now w)) = in_flight w @ [(sw_next_data_seq w, c, data)]"
  using append_entry_ok [OF assms(1,3,4), of "snd (push_retransmit c data now w)"] assms(2)
  by (simp add: push_retransmit_def Let_def)

lemma in_flight_sorted:
  assumes "sw_ok w"
  shows "sorted_wrt (<) (map fst (in_flight w))"
proof -
  have "map fst (in_flight w) = map se_data_seq (pending (sw_entries w))"
    by (simp add: in_flight_def)
  with assms show ?thesis by (simp add: sw_ok_def sorted_wrt_map sorted_wrt_filter)
qed

lemma mark_received_through_loop_ok:
  assumes "sw_ok w" "mark_received_through_loop d w b = (b', w')" "b + sw_bytes_in_flight w < 2 ^ 64"
  shows "sw_ok w' \<and> in_flight w' = filter (\<lambda>(d', _). d < d') (in_flight w) \<and>
    b' + sw_bytes_in_flight w' = b + sw_bytes_in_flight w \<and>
    sw_next_data_seq w' = sw_next_data_seq w \<and> sw_next_channel_seq w' = sw_next_channel_seq w"
  using assms
proof (induction d w b rule: mark_received_through_loop.induct)
  case (1 d w b)
  show ?case
  proof (cases "sw_entries w")
    case Nil
    with 1 show ?thesis by (simp add: mark_received_through_loop.simps [of d] in_flight_def)
  next
    case (Cons front es)
    have front: "se_state front = SendPending" "is_pending (se_data_seq front) w"
      using "1.prems"(1) Cons by (auto simp: sw_ok_def is_pending_iff)
    have above: "se_data_seq front \<le> d'" if "(d', c, x) \<in> set (in_flight w)" for d' c x
      using "1.prems"(1) that Cons by (auto simp: in_flight_def sw_ok_def)
    show ?thesis
    proof (cases "d < se_data_seq front")
      case True
      then have "filter (\<lambda>(d', _). d < d') (in_flight w) = in_flight w"
        using above by (intro filter_True) fastforce
      with True 1 Cons show ?thesis by (simp add: mark_received_through_loop.simps [of d])
    next
      case False
      obtain e :: send_entry and v where v: "mark_received (se_data_seq front) w = (Some (se_size e), v)" "sw_ok v"
        "in_flight v = filter (\<lambda>(d', _). d' \<noteq> se_data_seq front) (in_flight w)"
        "sw_next_data_seq v = sw_next_data_seq w" "sw_next_channel_seq v = sw_next_channel_seq w"
        "sw_bytes_in_flight v + se_size e = sw_bytes_in_flight w"
        by (rule mark_received_pending [OF "1.prems"(1) front(2)]) blast
      have b: "u64_add b (se_size e) = b + se_size e"
        using "1.prems"(3) v(6) by (intro u64_add_exact) linarith
      have step: "mark_received_through_loop d v (b + se_size e) = (b', w')"
        using "1.prems"(2) False Cons v(1) b by (simp add: mark_received_through_loop.simps [of d w])
      have "filter (\<lambda>(d', _). d < d') (in_flight v) = filter (\<lambda>(d', _). d < d') (in_flight w)"
        using False by (auto simp: v(3) intro!: filter_cong)
      with "1.IH" [OF Cons False v(1) [symmetric] refl v(2), unfolded b, OF step] v "1.prems"(3) show ?thesis
        by simp
    qed
  qed
qed

text \<open>
  A cumulative acknowledgement resolves exactly what it names: after
  \<open>mark_received_through(d)\<close> the transmissions still in flight are those numbered above \<open>d\<close>,
  in order and with their payloads, and the number of bytes returned is the amount by
  which the bytes in flight went down, without wrap-around.
\<close>

theorem mark_received_through_exact:
  assumes "sw_ok w"
  shows "in_flight (snd (mark_received_through d w)) = filter (\<lambda>(d', _). d < d') (in_flight w) \<and>
    fst (mark_received_through d w) + sw_bytes_in_flight (snd (mark_received_through d w))
      = sw_bytes_in_flight w \<and>
    sw_ok (snd (mark_received_through d w))"
  using mark_received_through_loop_ok [OF assms, of d 0 "fst (mark_received_through d w)"
      "snd (mark_received_through d w)"] sw_ok_bytes [OF assms]
  by (simp add: mark_received_through_def)

definition sample_send_window :: send_window where
  "sample_send_window = snd (sw_push [6, 7] 1 (snd (sw_push [8] 1 (snd (sw_push [9, 10, 11] 0 (sw_new 100 10 6))))))"

lemmas sample_send_window_eval = sample_send_window_def sw_push_def has_capacity_def sw_new_def
  u64_add_def next_channel_seq_def in_flight_def payload_of_def Let_def

section \<open>Runs\<close>

datatype sw_op =
    SwPush bytes instant
  | SwRetransmit u64 bytes instant
  | SwAck u64
  | SwAckThrough u64
  | SwLost u64
  | SwPeerWindow u8

fun sw_step :: "sw_op \<Rightarrow> send_window \<Rightarrow> send_window" where
  "sw_step (SwPush data now) w = snd (sw_push data now w)"
| "sw_step (SwRetransmit c data now) w = snd (push_retransmit c data now w)"
| "sw_step (SwAck d) w = snd (mark_received d w)"
| "sw_step (SwAckThrough d) w = snd (mark_received_through d w)"
| "sw_step (SwLost d) w = snd (mark_lost d w)"
| "sw_step (SwPeerWindow lws) w = set_peer_window lws w"

fun op_bytes :: "sw_op \<Rightarrow> nat" where
  "op_bytes (SwPush data now) = length data"
| "op_bytes (SwRetransmit c data now) = length data"
| "op_bytes op = 0"

lemma sw_step_ok:
  assumes ok: "sw_ok w" and bounds: "sw_next_data_seq w + 1 < 2 ^ 64" "sw_bytes_in_flight w + op_bytes op < 2 ^ 64"
  shows "sw_ok (sw_step op w) \<and> sw_next_data_seq (sw_step op w) \<le> sw_next_data_seq w + 1 \<and>
    sw_bytes_in_flight (sw_step op w) \<le> sw_bytes_in_flight w + op_bytes op"
proof (cases op)
  case (SwPush data now)
  with ok bounds sw_push_ok [of w data now] show ?thesis
    by (cases "has_capacity w") (auto simp: sw_push_def Let_def u64_add_exact)
next
  case (SwRetransmit c data now)
  with ok bounds push_retransmit_ok [of w data c now] show ?thesis
    by (cases "has_capacity w") (auto simp: push_retransmit_def Let_def u64_add_exact)
next
  case (SwAck d)
  show ?thesis
  proof (cases "is_pending d w")
    case True
    obtain e :: send_entry and w' where "mark_received d w = (Some (se_size e), w')" "sw_ok w'"
      "sw_next_data_seq w' = sw_next_data_seq w" "sw_bytes_in_flight w' + se_size e = sw_bytes_in_flight w"
      by (rule mark_received_pending [OF ok True]) blast
    then show ?thesis by (simp add: SwAck)
  next
    case False
    with ok show ?thesis by (simp add: SwAck mark_received_absent)
  qed
next
  case (SwAckThrough d)
  with mark_received_through_loop_ok [OF ok, of d 0 "fst (mark_received_through d w)"
      "snd (mark_received_through d w)"] sw_ok_bytes [OF ok]
  show ?thesis by (simp add: mark_received_through_def)
next
  case (SwLost d)
  show ?thesis
  proof (cases "is_pending d w")
    case True
    obtain info w' where "mark_lost d w = (Some info, w')" "sw_ok w'"
      "sw_next_data_seq w' = sw_next_data_seq w" "sw_bytes_in_flight w' + lp_size info = sw_bytes_in_flight w"
      by (rule mark_lost_pending [OF ok True]) blast
    then show ?thesis by (simp add: SwLost)
  next
    case False
    with ok show ?thesis by (simp add: SwLost mark_lost_absent)
  qed
next
  case (SwPeerWindow lws)
  with ok show ?thesis by (simp add: set_peer_window_def sw_ok_def)
qed

lemma sw_run_ok:
  "sw_ok w \<Longrightarrow> sw_next_data_seq w + length ops < 2 ^ 64 \<Longrightarrow>
   sw_bytes_in_flight w + sum_list (map op_bytes ops) < 2 ^ 64 \<Longrightarrow> sw_ok (fold sw_step ops w)"
proof (induction ops arbitrary: w)
  case (Cons op ops)
  have "sw_ok (sw_step op w) \<and> sw_next_data_seq (sw_step op w) \<le> sw_next_data_seq w + 1 \<and>
    sw_bytes_in_flight (sw_step op w) \<le> sw_bytes_in_flight w + op_bytes op"
    using Cons.prems by (intro sw_step_ok) simp_all
  with Cons.prems show ?case
    by (simp only: fold_Cons comp_apply) (intro Cons.IH; simp)
qed simp

text \<open>
  The congestion controller's accounting is exact: after any sequence of sends,
  retransmissions, acknowledgements and losses, \<open>bytes_in_flight\<close> is the sum of the sizes
  of the pending packets, so it never underflows; DataSeqNums in the window increase
  strictly and lie below the next one to be assigned; the front of the window is
  pending; and for every pending packet, and only for those, the payload is still held.
\<close>

theorem send_window_invariant:
  assumes "d0 + length ops < 2 ^ 64" "sum_list (map op_bytes ops) < 2 ^ 64"
  shows "sw_ok (fold sw_step ops (sw_new d0 c0 lws))"
  using assms by (intro sw_run_ok sw_new_ok) (simp_all add: sw_new_def)

end
