(* ===== verification/Loss.thy ===== *)
theory Loss
  imports Send_Window
begin

text \<open>
  Loss detection (\<open>loss.rs\<close>): by reordering distance and by time in flight.
\<close>

section \<open>The detector\<close>

definition DEFAULT_REORDER_THRESHOLD :: u64 where "DEFAULT_REORDER_THRESHOLD = 3"
definition TIME_THRESHOLD_NUMERATOR :: nat where "TIME_THRESHOLD_NUMERATOR = 5"
definition TIME_THRESHOLD_DENOMINATOR :: nat where "TIME_THRESHOLD_DENOMINATOR = 4"

record loss_detector =
  reorder_threshold :: u64

definition loss_new :: loss_detector where
  "loss_new = \<lparr>reorder_threshold = DEFAULT_REORDER_THRESHOLD\<rparr>"

definition time_threshold :: "duration \<Rightarrow> duration" where
  "time_threshold rto = rto * TIME_THRESHOLD_NUMERATOR div TIME_THRESHOLD_DENOMINATOR"

definition meets_criteria :: "loss_detector \<Rightarrow> u64 option \<Rightarrow> duration \<Rightarrow> instant \<Rightarrow> send_entry \<Rightarrow> bool" where
  "meets_criteria ld highest_acked rto now entry =
     (let reorder_lost = (case highest_acked of
            None \<Rightarrow> False
          | Some ha \<Rightarrow> ha \<ge> se_data_seq entry \<and> ha - se_data_seq entry \<ge> reorder_threshold ld);
          time_lost = duration_since now (se_sent_at entry) > time_threshold rto
      in reorder_lost \<or> time_lost)"

definition detect :: "loss_detector \<Rightarrow> send_window \<Rightarrow> u64 option \<Rightarrow> duration \<Rightarrow> instant \<Rightarrow> u64 list" where
  "detect ld w highest_acked rto now =
     (let lost_seqs = map se_data_seq (filter (meets_criteria ld highest_acked rto now) (pending_entries w))
      in case lost_seqs of
           [] \<Rightarrow> []
         | d # ds \<Rightarrow>
             let highest_lost = fold max ds d;
                 more = map se_data_seq (filter (\<lambda>e. se_data_seq e < highest_lost \<and>
                          se_data_seq e \<notin> set lost_seqs) (pending_entries w))
             in sort (lost_seqs @ more))"

section \<open>What it reports\<close>

lemma fold_max_Max: "fold max ds d = Max (set (d # ds))"
  by (metis Max.set_eq_fold)


definition sample_window :: send_window where
  "sample_window = fold sw_step [SwPush [1] 0, SwPush [2] 0, SwPush [3] 5, SwPush [4] 5, SwPush [5] 5, SwAck 104]
     (sw_new 100 1 6)"


section \<open>Acknowledgements that have left the window\<close>

text \<open>
  \<open>highest_acked_data_seq\<close> looks at the entries still in the window; entries that were
  acknowledged and drained off the front are forgotten. For loss detection this makes
  no difference: entries leave from the front only, so whatever was acknowledged above
  a pending packet is still there.
\<close>

definition kept :: "u64 set \<Rightarrow> send_entry list \<Rightarrow> bool" where
  "kept A es \<longleftrightarrow>
     (\<forall>e \<in> set es. se_state e = SendReceived \<longrightarrow> se_data_seq e \<in> A) \<and>
     (\<forall>a \<in> A. (\<exists>e \<in> set es. se_data_seq e = a \<and> se_state e = SendReceived) \<or> (\<forall>e \<in> set es. a < se_data_seq e))"

definition acks_kept :: "u64 set \<Rightarrow> send_window \<Rightarrow> bool" where
  "acks_kept A w \<longleftrightarrow> kept A (sw_entries w) \<and> (\<forall>a \<in> A. a < sw_next_data_seq w)"

lemma kept_cases:
  assumes "kept A es" "a \<in> A"
  obtains e where "e \<in> set es" "se_data_seq e = a" "se_state e = SendReceived"
  | "\<forall>e \<in> set es. a < se_data_seq e"
  using assms unfolding kept_def by blast

lemma dropWhile_split: "\<exists>ys. es = ys @ dropWhile P es \<and> (\<forall>y \<in> set ys. P y)"
  by (metis set_takeWhileD takeWhile_dropWhile_id)

lemma kept_dropWhile:
  assumes "sorted_wrt (<) (map se_data_seq es)" "kept A es"
  shows "kept A (dropWhile P es)"
proof -
  obtain ys where es: "es = ys @ dropWhile P es" using dropWhile_split by metis
  then have lt: "se_data_seq y < se_data_seq e" if "y \<in> set ys" "e \<in> set (dropWhile P es)" for y e
  proof -
    have "sorted_wrt (<) (map se_data_seq ys @ map se_data_seq (dropWhile P es))"
      using assms(1) es by (simp only: map_append [symmetric])
    with that show ?thesis by (simp add: sorted_wrt_append)
  qed
  show ?thesis
    unfolding kept_def
  proof (intro conjI ballI impI)
    show "se_data_seq e \<in> A" if "e \<in> set (dropWhile P es)" "se_state e = SendReceived" for e
      using assms(2) that by (auto simp: kept_def dest: set_dropWhileD)
    fix a assume "a \<in> A"
    with assms(2) show "(\<exists>e \<in> set (dropWhile P es). se_data_seq e = a \<and> se_state e = SendReceived) \<or>
        (\<forall>e \<in> set (dropWhile P es). a < se_data_seq e)"
    proof (cases rule: kept_cases)
      case (1 e)
      then have "e \<in> set ys \<or> e \<in> set (dropWhile P es)" by (metis UnE es set_append)
      with 1 lt show ?thesis by auto
    qed (auto dest: set_dropWhileD)
  qed
qed

lemma set_set_received:
  "distinct (map se_data_seq es) \<Longrightarrow>
   set (set_received d es) = (\<lambda>e. if se_data_seq e = d then e\<lparr>se_state := SendReceived\<rparr> else e) ` set es"
  by (induction es) (auto simp: rev_image_eqI image_iff)

lemma set_remove_first:
  "distinct (map se_data_seq es) \<Longrightarrow> set (remove_first_entry d es) = {e \<in> set es. se_data_seq e \<noteq> d}"
  by (induction es) (auto simp: rev_image_eqI)

lemma kept_set_received:
  assumes "distinct (map se_data_seq es)" "kept A es" "d \<in> se_data_seq ` set es"
  shows "kept (insert d A) (set_received d es)"
  unfolding kept_def
proof (intro conjI ballI impI)
  show "se_data_seq e \<in> insert d A" if "e \<in> set (set_received d es)" "se_state e = SendReceived" for e
    using assms(1,2) that by (auto simp: kept_def set_set_received split: if_splits)
  have member: "(if se_data_seq e = d then e\<lparr>se_state := SendReceived\<rparr> else e) \<in> set (set_received d es)"
    if "e \<in> set es" for e
    using that assms(1) by (simp add: set_set_received)
  fix a assume a: "a \<in> insert d A"
  show "(\<exists>e \<in> set (set_received d es). se_data_seq e = a \<and> se_state e = SendReceived) \<or>
      (\<forall>e \<in> set (set_received d es). a < se_data_seq e)"
  proof (cases "a = d")
    case True
    with assms(3) member show ?thesis by fastforce
  next
    case False
    with a have "a \<in> A" by simp
    with assms(2) show ?thesis
    proof (cases rule: kept_cases)
      case (1 e)
      with member [OF 1(1)] False show ?thesis by auto
    qed (use assms(1) in \<open>auto simp: set_set_received\<close>)
  qed
qed

lemma kept_remove_first:
  assumes "distinct (map se_data_seq es)" "kept A es"
    "\<forall>e \<in> set es. se_data_seq e = d \<longrightarrow> se_state e = SendPending"
  shows "kept A (remove_first_entry d es)"
  unfolding kept_def
proof (intro conjI ballI impI)
  show "se_data_seq e \<in> A" if "e \<in> set (remove_first_entry d es)" "se_state e = SendReceived" for e
    using assms(1,2) that by (auto simp: kept_def set_remove_first)
  fix a assume "a \<in> A"
  with assms(2) show "(\<exists>e \<in> set (remove_first_entry d es). se_data_seq e = a \<and> se_state e = SendReceived) \<or>
      (\<forall>e \<in> set (remove_first_entry d es). a < se_data_seq e)"
  proof (cases rule: kept_cases)
    case (1 e)
    with assms(1,3) show ?thesis by (force simp: set_remove_first)
  qed (use assms(1) in \<open>auto simp: set_remove_first\<close>)
qed

lemma sw_ok_sorted:
  "sw_ok w \<Longrightarrow> sorted_wrt (<) (map se_data_seq (sw_entries w))"
  "sw_ok w \<Longrightarrow> distinct (map se_data_seq (sw_entries w))"
  by (simp_all add: sw_ok_def sorted_data_seqs_distinct)

lemma acks_kept_received:
  assumes "sw_ok w" "is_pending d w" "acks_kept A w" "mark_received d w = (r, w')"
  shows "acks_kept (insert d A) w'"
proof -
  have w': "sw_entries w' = dropWhile (\<lambda>e. se_state e \<noteq> SendPending) (set_received d (sw_entries w))"
    "sw_next_data_seq w' = sw_next_data_seq w"
    by (rule mark_received_pending [OF assms(1,2)]; use assms(4) in simp)+
  have d: "d \<in> se_data_seq ` set (sw_entries w)" using assms(2) by (auto simp: is_pending_iff)
  have "kept (insert d A) (sw_entries w')"
    unfolding w' using assms d sw_ok_sorted [OF assms(1)]
    by (intro kept_dropWhile kept_set_received sorted_seqs_sub) (simp_all add: acks_kept_def)
  moreover have "d < sw_next_data_seq w" using d assms(1) by (auto simp: sw_ok_def)
  ultimately show ?thesis using assms(3) by (simp add: acks_kept_def w')
qed

lemma acks_kept_lost:
  assumes "sw_ok w" "is_pending d w" "acks_kept A w" "mark_lost d w = (r, w')"
  shows "acks_kept A w'"
proof -
  have w': "sw_entries w' = dropWhile (\<lambda>e. se_state e \<noteq> SendPending) (remove_first_entry d (sw_entries w))"
    "sw_next_data_seq w' = sw_next_data_seq w"
    by (rule mark_lost_pending [OF assms(1,2)]; use assms(4) in simp)+
  obtain e where e: "e \<in> set (sw_entries w)" "se_data_seq e = d" "se_state e = SendPending"
    using assms(2) by (auto simp: is_pending_iff)
  then have "\<forall>x \<in> set (sw_entries w). se_data_seq x = d \<longrightarrow> se_state x = SendPending"
    using sw_ok_sorted(2) [OF assms(1)] by (metis find_by_seq option.inject)
  then have "kept A (sw_entries w')"
    unfolding w' using assms sw_ok_sorted [OF assms(1)]
    by (intro kept_dropWhile kept_remove_first sorted_seqs_sub) (simp_all add: acks_kept_def)
  with assms(3) show ?thesis by (simp add: acks_kept_def w')
qed

fun acked_by :: "sw_op \<Rightarrow> send_window \<Rightarrow> u64 set" where
  "acked_by (SwAck d) w = {d'. d' = d \<and> is_pending d w}"
| "acked_by (SwAckThrough d) w = {d'. is_pending d' w \<and> d' \<le> d}"
| "acked_by op w = {}"

fun all_acked :: "sw_op list \<Rightarrow> send_window \<Rightarrow> u64 set" where
  "all_acked [] w = {}"
| "all_acked (op # ops) w = acked_by op w \<union> all_acked ops (sw_step op w)"

lemma acks_kept_through:
  assumes "sw_ok w" "acks_kept A w" "mark_received_through_loop d w b = (b', w')"
  shows "acks_kept (A \<union> {d'. is_pending d' w \<and> d' \<le> d}) w'"
  using assms
proof (induction d w b arbitrary: A rule: mark_received_through_loop.induct)
  case (1 d w b)
  show ?case
  proof (cases "sw_entries w")
    case Nil
    with 1 show ?thesis
      by (simp add: mark_received_through_loop.simps [of d] is_pending_iff)
  next
    case (Cons front es)
    have front: "is_pending (se_data_seq front) w"
      using "1.prems"(1) Cons by (auto simp: sw_ok_def is_pending_iff)
    have above: "se_data_seq front \<le> d'" if "is_pending d' w" for d'
      using "1.prems"(1) that Cons by (auto simp: is_pending_iff sw_ok_def)
    show ?thesis
    proof (cases "d < se_data_seq front")
      case True
      then have none: "{d'. is_pending d' w \<and> d' \<le> d} = {}" using above by force
      have "w' = w" using 1 True Cons by (simp add: mark_received_through_loop.simps [of d])
      with "1.prems"(2) show ?thesis by (simp only: none Un_empty_right)
    next
      case False
      obtain e :: send_entry and v where v: "mark_received (se_data_seq front) w = (Some (se_size e), v)" "sw_ok v"
        "in_flight v = filter (\<lambda>(d', _). d' \<noteq> se_data_seq front) (in_flight w)"
        by (rule mark_received_pending [OF "1.prems"(1) front]) blast
      have step: "mark_received_through_loop d v (u64_add b (se_size e)) = (b', w')"
        using "1.prems"(3) False Cons v(1) by (simp add: mark_received_through_loop.simps [of d w])
      have pend: "is_pending d' v \<longleftrightarrow> is_pending d' w \<and> d' \<noteq> se_data_seq front" for d'
        by (auto simp: is_pending_def v(3))
      have "acks_kept (insert (se_data_seq front) A \<union> {d'. is_pending d' v \<and> d' \<le> d}) w'"
        by (rule "1.IH" [OF Cons False v(1) [symmetric] refl v(2)
              acks_kept_received [OF "1.prems"(1) front "1.prems"(2) v(1)] step])
      moreover have "insert (se_data_seq front) A \<union> {d'. is_pending d' v \<and> d' \<le> d}
          = A \<union> {d'. is_pending d' w \<and> d' \<le> d}"
        using front False by (auto simp: pend)
      ultimately show ?thesis by simp
    qed
  qed
qed

lemma acks_kept_push:
  assumes "acks_kept A w" "sw_entries w' = sw_entries w @ [e]" "se_data_seq e = sw_next_data_seq w"
    "se_state e = SendPending" "sw_next_data_seq w' = sw_next_data_seq w + 1"
  shows "acks_kept A w'"
  using assms by (fastforce simp: acks_kept_def kept_def)

lemma acks_kept_step:
  assumes "sw_ok w" "sw_next_data_seq w + 1 < 2 ^ 64" "acks_kept A w"
  shows "acks_kept (A \<union> acked_by op w) (sw_step op w)"
proof (cases op)
  case (SwPush data now)
  show ?thesis
  proof (cases "has_capacity w")
    case True
    with SwPush assms show ?thesis
      by (auto simp: sw_push_def Let_def u64_add_exact intro!: acks_kept_push [OF assms(3)])
  qed (use SwPush assms in \<open>simp add: sw_push_def\<close>)
next
  case (SwRetransmit c data now)
  show ?thesis
  proof (cases "has_capacity w")
    case True
    with SwRetransmit assms show ?thesis
      by (auto simp: push_retransmit_def Let_def u64_add_exact intro!: acks_kept_push [OF assms(3)])
  qed (use SwRetransmit assms in \<open>simp add: push_retransmit_def\<close>)
next
  case (SwAck d)
  show ?thesis
  proof (cases "is_pending d w")
    case True
    then have "acked_by op w = {d}" by (auto simp: SwAck)
    with acks_kept_received [OF assms(1) True assms(3) surjective_pairing] show ?thesis
      by (simp add: SwAck)
  next
    case False
    then have "acked_by op w = {}" by (auto simp: SwAck)
    with False assms show ?thesis by (simp add: SwAck mark_received_absent)
  qed
next
  case (SwAckThrough d)
  with acks_kept_through [OF assms(1,3) surjective_pairing, of d 0] show ?thesis
    by (simp add: mark_received_through_def)
next
  case (SwLost d)
  show ?thesis
  proof (cases "is_pending d w")
    case True
    with acks_kept_lost [OF assms(1) True assms(3) surjective_pairing] show ?thesis by (simp add: SwLost)
  qed (use SwLost assms in \<open>simp add: mark_lost_absent\<close>)
next
  case (SwPeerWindow lws)
  with assms show ?thesis by (simp add: set_peer_window_def acks_kept_def)
qed

lemma acks_kept_run:
  "sw_ok w \<Longrightarrow> sw_next_data_seq w + length ops < 2 ^ 64 \<Longrightarrow>
   sw_bytes_in_flight w + sum_list (map op_bytes ops) < 2 ^ 64 \<Longrightarrow> acks_kept A w \<Longrightarrow>
   acks_kept (A \<union> all_acked ops w) (fold sw_step ops w)"
proof (induction ops arbitrary: w A)
  case (Cons op ops)
  have "sw_ok (sw_step op w) \<and> sw_next_data_seq (sw_step op w) \<le> sw_next_data_seq w + 1 \<and>
    sw_bytes_in_flight (sw_step op w) \<le> sw_bytes_in_flight w + op_bytes op"
    using Cons.prems by (intro sw_step_ok) simp_all
  moreover have "acks_kept (A \<union> acked_by op w) (sw_step op w)"
    using Cons.prems by (intro acks_kept_step) simp_all
  ultimately have "acks_kept (A \<union> acked_by op w \<union> all_acked ops (sw_step op w)) (fold sw_step ops (sw_step op w))"
    using Cons.prems by (intro Cons.IH) simp_all
  then show ?case by (simp add: Un_assoc)
qed simp

lemma highest_acked_window:
  "highest_acked_data_seq w =
    (let R = se_data_seq ` {e \<in> set (sw_entries w). se_state e = SendReceived}
     in if R = {} then None else Some (Max R))"
proof (cases "map se_data_seq (filter (\<lambda>e. se_state e = SendReceived) (sw_entries w))")
  case (Cons d ds)
  have R: "set (d # ds) = se_data_seq ` {e \<in> set (sw_entries w). se_state e = SendReceived}"
    unfolding Cons [symmetric] by auto
  with Cons show ?thesis
    unfolding highest_acked_data_seq_def R [symmetric] Let_def by (simp add: fold_max_Max del: set_simps(2))
qed (auto simp: highest_acked_data_seq_def filter_empty_conv)

lemma kept_highest:
  assumes "kept A es" "finite A" "e \<in> set es" "se_state e = SendPending" "sorted_wrt (<) (map se_data_seq es)"
  defines "R \<equiv> se_data_seq ` {e \<in> set es. se_state e = SendReceived}"
  shows "(R \<noteq> {} \<and> se_data_seq e \<le> Max R \<and> k \<le> Max R - se_data_seq e) \<longleftrightarrow>
    (A \<noteq> {} \<and> se_data_seq e \<le> Max A \<and> k \<le> Max A - se_data_seq e)"
proof -
  have RA: "R \<subseteq> A" using assms(1) by (auto simp: R_def kept_def)
  show ?thesis
  proof (cases "A \<noteq> {} \<and> se_data_seq e \<le> Max A")
    case True
    then have "Max A \<in> A" using assms(2) by simp
    with assms(1) have "Max A \<in> R"
      using assms(3) True by (cases rule: kept_cases) (force simp: R_def)+
    moreover have "finite R" using RA assms(2) by (rule finite_subset)
    ultimately have "Max R = Max A"
      using RA assms(2) by (intro antisym Max_mono Max_ge) auto
    with \<open>Max A \<in> R\<close> True show ?thesis by auto
  next
    case False
    moreover have "Max R \<le> Max A" if "R \<noteq> {}" using RA assms(2) that by (intro Max_mono)
    ultimately show ?thesis using RA by (auto dest: order_trans)
  qed
qed



end
