(* ===== verification/Timer_Table.thy ===== *)
theory Timer_Table
  imports Instants
begin

text \<open>
  The timers of a connection (\<open>timer.rs\<close>): four logical timers and a table with one
  optional deadline each. The array \<open>[Option<MonotonicInstant>; 4]\<close> is a list of four entries, read
  and written at \<open>timer_index\<close>.

  The locale \<open>deadline_map\<close> is what the connection relies on: a set timer reads back,
  setting or clearing one leaves the others alone, the reported deadline is the earliest one
  set, and a timer is reported as expired exactly when its deadline has come.
\<close>

section \<open>The table\<close>

datatype timer = TimerRetransmit | TimerAckDelay | TimerIdle | TimerKeepAlive

definition TIMER_COUNT :: usize where "TIMER_COUNT = 4"

definition timer_ALL :: "timer list" where
  "timer_ALL = [TimerRetransmit, TimerAckDelay, TimerIdle, TimerKeepAlive]"

fun timer_index :: "timer \<Rightarrow> usize" where
  "timer_index TimerRetransmit = 0"
| "timer_index TimerAckDelay = 1"
| "timer_index TimerIdle = 2"
| "timer_index TimerKeepAlive = 3"

record timer_table =
  tt_deadlines :: "instant option list"

definition tt_new :: timer_table where
  "tt_new = \<lparr>tt_deadlines = replicate TIMER_COUNT None\<rparr>"

definition tt_set :: "timer \<Rightarrow> instant \<Rightarrow> timer_table \<Rightarrow> timer_table" where
  "tt_set t deadline tt = tt\<lparr>tt_deadlines := (tt_deadlines tt)[timer_index t := Some deadline]\<rparr>"

definition tt_clear :: "timer \<Rightarrow> timer_table \<Rightarrow> timer_table" where
  "tt_clear t tt = tt\<lparr>tt_deadlines := (tt_deadlines tt)[timer_index t := None]\<rparr>"

definition tt_get :: "timer \<Rightarrow> timer_table \<Rightarrow> instant option" where
  "tt_get t tt = tt_deadlines tt ! timer_index t"

definition tt_is_set :: "timer \<Rightarrow> timer_table \<Rightarrow> bool" where
  "tt_is_set t tt \<longleftrightarrow> tt_deadlines tt ! timer_index t \<noteq> None"

text \<open>\<open>Iterator::min\<close> of the deadlines that are set: the empty iterator has none.\<close>

fun iter_min :: "nat list \<Rightarrow> nat option" where
  "iter_min [] = None"
| "iter_min (x # xs) = (case iter_min xs of None \<Rightarrow> Some x | Some m \<Rightarrow> Some (min x m))"

definition next_deadline :: "timer_table \<Rightarrow> instant option" where
  "next_deadline tt = iter_min (List.map_filter id (tt_deadlines tt))"

definition expired :: "instant \<Rightarrow> timer_table \<Rightarrow> timer list" where
  "expired now tt =
     filter (\<lambda>t. case tt_deadlines tt ! timer_index t of None \<Rightarrow> False | Some deadline \<Rightarrow> deadline \<le> now)
            timer_ALL"

section \<open>The contract of the table\<close>

text \<open>The array has its four entries, whatever the connection does with it.\<close>

definition tt_ok :: "timer_table \<Rightarrow> bool" where
  "tt_ok tt \<longleftrightarrow> length (tt_deadlines tt) = TIMER_COUNT"

locale deadline_map =
  fixes ok :: "'t \<Rightarrow> bool"
    and empty :: 't
    and put :: "timer \<Rightarrow> instant \<Rightarrow> 't \<Rightarrow> 't"
    and del :: "timer \<Rightarrow> 't \<Rightarrow> 't"
    and get :: "timer \<Rightarrow> 't \<Rightarrow> instant option"
  assumes ok_empty: "ok empty"
    and ok_put: "ok t \<Longrightarrow> ok (put k d t)"
    and ok_del: "ok t \<Longrightarrow> ok (del k t)"
    and get_empty: "get k empty = None"
    and get_put: "ok t \<Longrightarrow> get k (put k' d t) = (if k = k' then Some d else get k t)"
    and get_del: "ok t \<Longrightarrow> get k (del k' t) = (if k = k' then None else get k t)"
begin

lemma put_put_same: "ok t \<Longrightarrow> get k (put j d (put j d' t)) = get k (put j d t)"
  by (simp add: get_put ok_put)

lemma put_commute: "ok t \<Longrightarrow> i \<noteq> j \<Longrightarrow> get k (put i d (put j d' t)) = get k (put j d' (put i d t))"
  by (simp add: get_put ok_put)

lemma del_after_put: "ok t \<Longrightarrow> get k (del j (put j d t)) = get k (del j t)"
  by (simp add: get_put get_del ok_put)

end

lemma timer_index_less: "timer_index t < TIMER_COUNT"
  by (cases t) (simp_all add: TIMER_COUNT_def)

lemma timer_index_inj [simp]: "timer_index s = timer_index t \<longleftrightarrow> s = t"
  by (cases s; cases t) simp_all

interpretation timers: deadline_map tt_ok tt_new tt_set tt_clear tt_get
  by unfold_locales
    (use timer_index_less in \<open>auto simp: tt_ok_def tt_new_def tt_set_def tt_clear_def tt_get_def nth_list_update\<close>)

lemmas timer_laws = timers.ok_empty timers.ok_put timers.ok_del timers.get_empty timers.get_put timers.get_del

lemma tt_is_set_get: "tt_is_set t tt \<longleftrightarrow> tt_get t tt \<noteq> None"
  by (simp add: tt_is_set_def tt_get_def)

lemma expired_get: "expired now tt =
    filter (\<lambda>t. case tt_get t tt of None \<Rightarrow> False | Some deadline \<Rightarrow> deadline \<le> now) timer_ALL"
  by (simp add: expired_def tt_get_def)

lemma set_timer_ALL: "set timer_ALL = UNIV"
proof -
  have "t \<in> set timer_ALL" for t by (cases t) (simp_all add: timer_ALL_def)
  then show ?thesis by auto
qed

lemma set_expired: "set (expired now tt) = {t. \<exists>d. tt_get t tt = Some d \<and> d \<le> now}"
  by (auto simp: expired_get set_timer_ALL split: option.splits)

lemma iter_min_set: "iter_min xs = (if xs = [] then None else Some (Min (set xs)))"
  by (induction xs) auto

lemma deadlines_by_timer: "tt_ok tt \<Longrightarrow> tt_deadlines tt = map (\<lambda>t. tt_get t tt) timer_ALL"
  by (auto simp: tt_ok_def TIMER_COUNT_def tt_get_def timer_ALL_def numeral_eq_Suc length_Suc_conv)

lemma some_in_image: "Some x \<in> f ` UNIV \<longleftrightarrow> (\<exists>t. f t = Some x)"
  by (metis (no_types) rangeE rangeI)

lemma set_map_filter_id: "set (List.map_filter id xs) = {x. Some x \<in> set xs}"
  by (force simp: List.map_filter_def)

lemma active_deadlines:
  assumes "tt_ok tt"
  shows "set (List.map_filter id (tt_deadlines tt)) = {d. \<exists>t. tt_get t tt = Some d}"
  by (auto simp: set_map_filter_id deadlines_by_timer [OF assms] set_timer_ALL some_in_image)

lemma next_deadline_Some_iff:
  assumes "tt_ok tt"
  shows "next_deadline tt = Some d \<longleftrightarrow>
    (\<exists>t. tt_get t tt = Some d) \<and> (\<forall>t d'. tt_get t tt = Some d' \<longrightarrow> d \<le> d')"
proof -
  let ?S = "{d. \<exists>t. tt_get t tt = Some d}"
  have fin: "finite ?S" using active_deadlines [OF assms] finite_set [of "List.map_filter id (tt_deadlines tt)"] by simp
  have "next_deadline tt = (if ?S = {} then None else Some (Min ?S))"
    using active_deadlines [OF assms] by (simp add: next_deadline_def iter_min_set flip: set_empty)
  then show ?thesis using fin by (auto simp: Min_eq_iff)
qed

lemma next_deadline_None_iff:
  assumes "tt_ok tt"
  shows "next_deadline tt = None \<longleftrightarrow> (\<forall>t. tt_get t tt = None)"
proof -
  have "next_deadline tt = None \<longleftrightarrow> {d. \<exists>t. tt_get t tt = Some d} = {}"
    using active_deadlines [OF assms] by (simp add: next_deadline_def iter_min_set flip: set_empty)
  then show ?thesis by (auto simp del: not_None_eq) (metis not_None_eq)
qed

text \<open>
  C36. The wake-up the connection asks for is the right one: at any instant, some timer is
  due exactly when the reported \<open>next_deadline\<close> has come, so a driver that sleeps until it
  neither misses a timer nor wakes up to find none; and the timers that are due are reported
  each once, in the order Retransmit, AckDelay, Idle, KeepAlive.
\<close>

theorem next_deadline_wakes_for_expired:
  assumes "tt_ok tt"
  shows "(expired now tt \<noteq> [] \<longleftrightarrow> (\<exists>d. next_deadline tt = Some d \<and> d \<le> now)) \<and>
    set (expired now tt) = {t. \<exists>d. tt_get t tt = Some d \<and> d \<le> now} \<and>
    sorted_wrt (\<lambda>s t. timer_index s < timer_index t) (expired now tt)"
proof (intro conjI)
  show "expired now tt \<noteq> [] \<longleftrightarrow> (\<exists>d. next_deadline tt = Some d \<and> d \<le> now)"
  proof
    assume "expired now tt \<noteq> []"
    then have "hd (expired now tt) \<in> set (expired now tt)" by simp
    then obtain t d where due: "tt_get t tt = Some d" "d \<le> now"
      unfolding set_expired by blast
    then obtain m where "next_deadline tt = Some m"
      using next_deadline_None_iff [OF assms] by (metis not_Some_eq)
    with due show "\<exists>d. next_deadline tt = Some d \<and> d \<le> now"
      using next_deadline_Some_iff [OF assms] by (meson le_trans)
  next
    assume "\<exists>d. next_deadline tt = Some d \<and> d \<le> now"
    then show "expired now tt \<noteq> []"
      using next_deadline_Some_iff [OF assms] set_expired [of now tt] by fastforce
  qed
  show "sorted_wrt (\<lambda>s t. timer_index s < timer_index t) (expired now tt)"
    unfolding expired_def by (intro sorted_wrt_filter) (simp add: timer_ALL_def)
qed (rule set_expired)

theorem next_deadline_wakes_for_expired_witness:
  "let tt = tt_set TimerKeepAlive 4000 (tt_set TimerIdle 65000 (tt_set TimerRetransmit 300 tt_new))
   in tt_ok tt \<and> expired 4000 tt = [TimerRetransmit, TimerKeepAlive]"
  using next_deadline_wakes_for_expired
    [of "tt_set TimerKeepAlive 4000 (tt_set TimerIdle 65000 (tt_set TimerRetransmit 300 tt_new))" 4000]
  by (simp add: Let_def tt_ok_def tt_set_def tt_new_def expired_def timer_ALL_def TIMER_COUNT_def replicate_unfold)

end
