(* ===== verification/Congestion.thy ===== *)
theory Congestion
  imports Prelude
begin

text \<open>
  NewReno congestion control (\<open>congestion.rs\<close>). The controller's events are acknowledged
  bytes and losses; \<open>cc_step\<close> is one event and a run folds it. The wrap-around of the
  \<open>u64\<close> fields is written out in \<open>on_ack\<close>; \<open>cc_ok\<close> shows that it cannot happen before
  \<open>2 ^ 64\<close> bytes have been acknowledged.
\<close>

section \<open>The controller\<close>

definition INITIAL_WINDOW :: u64 where "INITIAL_WINDOW = 10 * 1232"
definition MIN_WINDOW :: u64 where "MIN_WINDOW = 2 * 1232"

record congestion_control =
  cc_window :: u64
  cc_ssthresh :: u64
  cc_bytes_acked :: u64
  cc_recovery_seq :: "u64 option"

definition with_initial_window :: "u64 \<Rightarrow> congestion_control" where
  "with_initial_window initial_window =
     \<lparr>cc_window = initial_window, cc_ssthresh = 2 ^ 64 - 1, cc_bytes_acked = 0, cc_recovery_seq = None\<rparr>"

definition cc_new :: congestion_control where
  "cc_new = with_initial_window INITIAL_WINDOW"

definition in_slow_start :: "congestion_control \<Rightarrow> bool" where
  "in_slow_start c \<longleftrightarrow> cc_window c < cc_ssthresh c"

definition on_ack :: "u64 \<Rightarrow> congestion_control \<Rightarrow> congestion_control" where
  "on_ack newly_acked_bytes c =
     (if in_slow_start c then
        let c = c\<lparr>cc_window := u64_add (cc_window c) newly_acked_bytes\<rparr>
        in if cc_window c \<ge> cc_ssthresh c then c\<lparr>cc_bytes_acked := 0\<rparr> else c
      else
        let c = c\<lparr>cc_bytes_acked := u64_add (cc_bytes_acked c) newly_acked_bytes\<rparr>
        in if cc_bytes_acked c \<ge> cc_window c
           then let c = c\<lparr>cc_bytes_acked := u64_sub (cc_bytes_acked c) (cc_window c)\<rparr>
                in c\<lparr>cc_window := u64_add (cc_window c) 1232\<rparr>
           else c)"

definition halve_window :: "congestion_control \<Rightarrow> congestion_control" where
  "halve_window c =
     (let c = c\<lparr>cc_ssthresh := max (cc_window c div 2) MIN_WINDOW\<rparr>
      in c\<lparr>cc_window := cc_ssthresh c, cc_bytes_acked := 0\<rparr>)"

definition on_loss :: "u64 \<Rightarrow> u64 \<Rightarrow> congestion_control \<Rightarrow> bool \<times> congestion_control" where
  "on_loss loss_seq largest_sent c =
     (if (case cc_recovery_seq c of None \<Rightarrow> False | Some recovery \<Rightarrow> loss_seq \<le> recovery)
      then (False, c)
      else (True, halve_window (c\<lparr>cc_recovery_seq := Some largest_sent\<rparr>)))"

section \<open>Runs\<close>

datatype cc_event = CcAck u64 | CcLoss u64 u64

fun cc_step :: "cc_event \<Rightarrow> congestion_control \<Rightarrow> congestion_control" where
  "cc_step (CcAck n) c = on_ack n c"
| "cc_step (CcLoss loss_seq largest_sent) c = snd (on_loss loss_seq largest_sent c)"

fun event_bytes :: "cc_event \<Rightarrow> nat" where
  "event_bytes (CcAck n) = n"
| "event_bytes (CcLoss _ _) = 0"

text \<open>The window keeps its floor, and the window together with the bytes counted towards its
  next increase is paid for by the initial window and the bytes acknowledged so far.\<close>

definition cc_ok :: "nat \<Rightarrow> congestion_control \<Rightarrow> bool" where
  "cc_ok paid c \<longleftrightarrow> MIN_WINDOW \<le> cc_window c \<and> MIN_WINDOW \<le> cc_ssthresh c \<and>
     cc_window c + cc_bytes_acked c \<le> paid"

lemma cc_new_ok: "cc_ok INITIAL_WINDOW cc_new"
  by (simp add: cc_ok_def cc_new_def with_initial_window_def MIN_WINDOW_def INITIAL_WINDOW_def)

lemma on_ack_ok:
  assumes ok: "cc_ok paid c" and room: "paid + n < 2 ^ 64"
  shows "cc_ok (paid + n) (on_ack n c) \<and> cc_window c \<le> cc_window (on_ack n c) \<and>
    cc_recovery_seq (on_ack n c) = cc_recovery_seq c"
proof (cases "in_slow_start c")
  case True
  with assms show ?thesis
    by (auto simp: on_ack_def cc_ok_def Let_def u64_add_exact)
next
  case False
  let ?b = "cc_bytes_acked c + n"
  have b: "u64_add (cc_bytes_acked c) n = ?b" and w: "u64_add (cc_window c) 1232 = cc_window c + 1232"
    if "cc_window c \<le> ?b"
    using assms that by (auto simp: cc_ok_def MIN_WINDOW_def intro!: u64_add_exact)
  have b': "u64_add (cc_bytes_acked c) n = ?b"
    using assms by (auto simp: cc_ok_def intro!: u64_add_exact)
  have s: "u64_sub ?b (cc_window c) = ?b - cc_window c" if "cc_window c \<le> ?b"
    using assms that by (intro u64_sub_exact) (auto simp: cc_ok_def)
  show ?thesis
    using False assms b' w s
    by (auto simp: on_ack_def cc_ok_def Let_def MIN_WINDOW_def not_le)
qed

lemma on_loss_ok:
  assumes "cc_ok paid c"
  shows "cc_ok paid (snd (on_loss l s c))"
  using assms by (auto simp: on_loss_def halve_window_def cc_ok_def Let_def max_def MIN_WINDOW_def)

lemma cc_step_ok:
  assumes "cc_ok paid c" "paid + event_bytes e < 2 ^ 64"
  shows "cc_ok (paid + event_bytes e) (cc_step e c)"
  using assms on_ack_ok on_loss_ok by (cases e) auto

lemma cc_run_ok:
  "cc_ok paid c \<Longrightarrow> paid + sum_list (map event_bytes es) < 2 ^ 64 \<Longrightarrow>
   cc_ok (paid + sum_list (map event_bytes es)) (fold cc_step es c)"
proof (induction es arbitrary: paid c)
  case (Cons e es)
  have "cc_ok (paid + event_bytes e) (cc_step e c)"
    using Cons.prems by (intro cc_step_ok) auto
  from Cons.IH [OF this] Cons.prems show ?case by (simp add: add.assoc)
qed simp

text \<open>
  C37. Whatever acknowledgements and losses arrive, the congestion window never drops below
  two MTUs, so the sender is never silenced, and never exceeds the initial window plus the
  bytes acknowledged; in particular none of its \<open>u64\<close> arithmetic wraps.
\<close>

theorem congestion_window_bounds:
  assumes "INITIAL_WINDOW + sum_list (map event_bytes es) < 2 ^ 64"
  shows "MIN_WINDOW \<le> cc_window (fold cc_step es cc_new) \<and>
    cc_window (fold cc_step es cc_new) \<le> INITIAL_WINDOW + sum_list (map event_bytes es)"
  using cc_run_ok [OF cc_new_ok assms] by (simp add: cc_ok_def)

theorem congestion_window_bounds_witness:
  "MIN_WINDOW \<le> cc_window (fold cc_step [CcAck 1232, CcLoss 100 110, CcLoss 111 120, CcLoss 121 130, CcLoss 131 140] cc_new)"
  using congestion_window_bounds [of "[CcAck 1232, CcLoss 100 110, CcLoss 111 120, CcLoss 121 130, CcLoss 131 140]"]
  by (simp add: INITIAL_WINDOW_def)

section \<open>Recovery epochs\<close>

text \<open>The losses of an epoch: packets on the wire when the window was reduced.\<close>

fun within_epoch :: "u64 \<Rightarrow> cc_event \<Rightarrow> bool" where
  "within_epoch recovery (CcAck n) = True"
| "within_epoch recovery (CcLoss loss_seq largest_sent) = (loss_seq \<le> recovery)"

fun is_loss :: "cc_event \<Rightarrow> bool" where
  "is_loss (CcAck n) = False"
| "is_loss (CcLoss loss_seq largest_sent) = True"

lemma epoch_run:
  assumes "list_all (within_epoch r) es" "cc_recovery_seq c = Some r" "cc_ok paid c"
    "paid + sum_list (map event_bytes es) < 2 ^ 64"
  shows "cc_window c \<le> cc_window (fold cc_step es c) \<and>
    (list_all is_loss es \<longrightarrow> fold cc_step es c = c)"
  using assms
proof (induction es arbitrary: c paid)
  case (Cons e es)
  show ?case
  proof (cases e)
    case (CcAck n)
    have step: "cc_ok (paid + n) (on_ack n c) \<and> cc_window c \<le> cc_window (on_ack n c) \<and>
      cc_recovery_seq (on_ack n c) = cc_recovery_seq c"
      using Cons.prems CcAck by (intro on_ack_ok) auto
    with Cons.IH [of "on_ack n c" "paid + n"] Cons.prems CcAck show ?thesis by (auto simp: add.assoc)
  next
    case (CcLoss l s)
    with Cons.prems have "cc_step e c = c" by (simp add: on_loss_def)
    with Cons.IH [of c paid] Cons.prems CcLoss show ?thesis by auto
  qed
qed simp

text \<open>
  C38. One reaction per recovery epoch: when a loss reduces the window, it is set to half
  (or the two-MTU floor), and no later loss of a packet that was already on the wire then
  reduces it again, whatever acknowledgements arrive in between; a burst of losses alone
  leaves it exactly at that value.
\<close>

theorem one_reduction_per_epoch:
  assumes "cc_ok paid c" "fst (on_loss loss_seq largest_sent c)"
    "list_all (within_epoch largest_sent) es" "paid + sum_list (map event_bytes es) < 2 ^ 64"
  shows "max (cc_window c div 2) MIN_WINDOW
      \<le> cc_window (fold cc_step (CcLoss loss_seq largest_sent # es) c) \<and>
    (list_all is_loss es \<longrightarrow>
      cc_window (fold cc_step (CcLoss loss_seq largest_sent # es) c) = max (cc_window c div 2) MIN_WINDOW)"
proof -
  let ?c = "snd (on_loss loss_seq largest_sent c)"
  have reduced: "cc_window ?c = max (cc_window c div 2) MIN_WINDOW" "cc_recovery_seq ?c = Some largest_sent"
    using assms(2) by (auto simp: on_loss_def halve_window_def Let_def split: if_splits)
  with epoch_run [OF assms(3) reduced(2) on_loss_ok [OF assms(1)] assms(4)]
  show ?thesis by auto
qed

theorem one_reduction_per_epoch_witness:
  "cc_ok INITIAL_WINDOW cc_new \<and> fst (on_loss 100 109 cc_new) \<and>
   cc_window (fold cc_step [CcLoss 100 109, CcLoss 101 109, CcLoss 105 112] cc_new) = 6160"
  using one_reduction_per_epoch [OF cc_new_ok, of 100 109 "[CcLoss 101 109, CcLoss 105 112]"] cc_new_ok
  by (simp add: on_loss_def cc_new_def with_initial_window_def INITIAL_WINDOW_def MIN_WINDOW_def)

end
