(* ===== verification/Rtt.thy ===== *)
theory Rtt
  imports Complex_Main Instants "HOL-Library.Monad_Syntax"
begin

text \<open>
  RTT estimation and the retransmission timeout (\<open>rtt.rs\<close>, RFC 6298). The code scales a
  \<open>Duration\<close> by 3/4 and 7/8 with \<open>mul_f64\<close>, so the model rounds where a double does:
  \<open>f64_round\<close> takes a rational to the nearest number with a 53-bit significand, ties to even,
  and the double operations are the exact ones followed by it. Neither overflow nor the
  subnormal range is in reach of a duration (at least \<open>10 ^ -9\<close> seconds when it is not zero,
  below \<open>2 ^ 64\<close>). \<open>None\<close> is a panic: a \<open>Duration\<close> that would exceed \<open>u64::MAX\<close> seconds.
\<close>

section \<open>Double arithmetic\<close>

fun bit_len :: "nat \<Rightarrow> nat" where
  "bit_len n = (if n = 0 then 0 else Suc (bit_len (n div 2)))"

declare bit_len.simps [simp del]

definition round_half_even :: "rat \<Rightarrow> int" where
  "round_half_even x =
     (let f = \<lfloor>x\<rfloor>; r = x - of_int f
      in if r < 1 / 2 then f else if r > 1 / 2 then f + 1 else if even f then f else f + 1)"

text \<open>The exponent of a positive rational: \<open>2 ^ e \<le> x < 2 ^ (e + 1)\<close>.\<close>

definition f64_exponent :: "rat \<Rightarrow> int" where
  "f64_exponent x =
     (let (p, q) = quotient_of x; k = int (bit_len (nat p)) - int (bit_len (nat q))
      in if 2 powi k \<le> x then k else k - 1)"

definition f64_round :: "rat \<Rightarrow> rat" where
  "f64_round x =
     (if x \<le> 0 then 0
      else let ulp = 2 powi (f64_exponent x - 52) in of_int (round_half_even (x / ulp)) * ulp)"

definition f64_add :: "rat \<Rightarrow> rat \<Rightarrow> rat" where "f64_add x y = f64_round (x + y)"
definition f64_sub :: "rat \<Rightarrow> rat \<Rightarrow> rat" where "f64_sub x y = f64_round (x - y)"
definition f64_mul :: "rat \<Rightarrow> rat \<Rightarrow> rat" where "f64_mul x y = f64_round (x * y)"
definition f64_div :: "rat \<Rightarrow> rat \<Rightarrow> rat" where "f64_div x y = f64_round (x / y)"

section \<open>Durations\<close>

definition duration_checked :: "nat \<Rightarrow> duration option" where
  "duration_checked d = (if d < 2 ^ 64 * 1000000000 then Some d else None)"

definition duration_add :: "duration \<Rightarrow> duration \<Rightarrow> duration option" where
  "duration_add a b = duration_checked (a + b)"

definition duration_mul :: "duration \<Rightarrow> nat \<Rightarrow> duration option" where
  "duration_mul d n = duration_checked (d * n)"

definition as_secs_f64 :: "duration \<Rightarrow> rat" where
  "as_secs_f64 d =
     f64_add (f64_round (of_nat (d div 1000000000))) (f64_div (of_nat (d mod 1000000000)) 1000000000)"

text \<open>\<open>Duration::from_secs_f64\<close> rounds to the nearest nanosecond, ties to even.\<close>

definition from_secs_f64 :: "rat \<Rightarrow> duration option" where
  "from_secs_f64 secs =
     (if 0 \<le> secs \<and> secs < 2 ^ 64 then duration_checked (nat (round_half_even (secs * 1000000000))) else None)"

definition mul_f64 :: "duration \<Rightarrow> rat \<Rightarrow> duration option" where
  "mul_f64 d rhs = from_secs_f64 (f64_mul rhs (as_secs_f64 d))"

section \<open>The estimator\<close>

definition MIN_RTO :: duration where "MIN_RTO = duration_from_millis 100"
definition MAX_RTO :: duration where "MAX_RTO = duration_from_secs 16"
definition INITIAL_RTO :: duration where "INITIAL_RTO = duration_from_secs 1"
definition SRTT_ALPHA :: nat where "SRTT_ALPHA = 8"
definition RTTVAR_BETA :: nat where "RTTVAR_BETA = 4"

record rtt_estimator =
  re_srtt :: "duration option"
  re_rttvar :: duration
  re_rto :: duration

definition rtt_new :: rtt_estimator where
  "rtt_new = \<lparr>re_srtt = None, re_rttvar = 0, re_rto = INITIAL_RTO\<rparr>"

definition recompute_rto :: "rtt_estimator \<Rightarrow> rtt_estimator option" where
  "recompute_rto est =
     (case re_srtt est of
        Some srtt \<Rightarrow> do {
          k_rttvar \<leftarrow> duration_mul (re_rttvar est) 4;
          rto \<leftarrow> duration_add srtt (max k_rttvar (duration_from_millis 1));
          Some (est\<lparr>re_rto := min (max rto MIN_RTO) MAX_RTO\<rparr>) }
      | None \<Rightarrow> Some est)"

definition rtt_update :: "duration \<Rightarrow> rtt_estimator \<Rightarrow> rtt_estimator option" where
  "rtt_update rtt est = do {
     est \<leftarrow> (case re_srtt est of
        None \<Rightarrow> Some (est\<lparr>re_srtt := Some rtt, re_rttvar := rtt div 2\<rparr>)
      | Some srtt \<Rightarrow> do {
          let diff = abs_diff srtt rtt;
          kept_var \<leftarrow> mul_f64 (re_rttvar est) (f64_sub 1 (f64_div 1 (of_nat RTTVAR_BETA)));
          rttvar \<leftarrow> duration_add kept_var (diff div RTTVAR_BETA);
          kept_srtt \<leftarrow> mul_f64 srtt (f64_sub 1 (f64_div 1 (of_nat SRTT_ALPHA)));
          srtt' \<leftarrow> duration_add kept_srtt (rtt div SRTT_ALPHA);
          Some (est\<lparr>re_rttvar := rttvar, re_srtt := Some srtt'\<rparr>) });
     recompute_rto est }"

definition on_timeout :: "rtt_estimator \<Rightarrow> rtt_estimator option" where
  "on_timeout est = do {
     doubled \<leftarrow> duration_mul (re_rto est) 2;
     Some (est\<lparr>re_rto := min doubled MAX_RTO\<rparr>) }"

definition reset_backoff :: "rtt_estimator \<Rightarrow> rtt_estimator option" where
  "reset_backoff est = recompute_rto est"

section \<open>Rounding errors\<close>

lemma round_half_even_error: "\<bar>of_int (round_half_even x) - x\<bar> \<le> 1 / 2"
proof -
  have "of_int \<lfloor>x\<rfloor> \<le> x" "x < of_int \<lfloor>x\<rfloor> + 1" by linarith+
  then show ?thesis by (auto simp: round_half_even_def Let_def abs_le_iff)
qed

lemma round_half_even_int [simp]: "round_half_even (of_int i) = i"
  by (simp add: round_half_even_def)

lemma bit_len_bounds: "0 < n \<Longrightarrow> 2 ^ bit_len n \<le> 2 * n \<and> n < 2 ^ bit_len n"
proof (induction n rule: bit_len.induct)
  case (1 n)
  show ?case
  proof (cases "n div 2 = 0")
    case True
    with 1 have "n = 1" by auto
    then show ?thesis by (simp add: bit_len.simps)
  next
    case False
    with 1 have "2 ^ bit_len (n div 2) \<le> 2 * (n div 2)" "n div 2 < 2 ^ bit_len (n div 2)" by auto
    moreover have "bit_len n = Suc (bit_len (n div 2))" using 1 by (subst bit_len.simps) simp
    ultimately show ?thesis by simp linarith
  qed
qed

lemma f64_exponent_bounds:
  assumes "0 < x"
  shows "2 powi f64_exponent x \<le> x"
proof -
  obtain p q where pq: "quotient_of x = (p, q)" by fastforce
  have q: "0 < q" using quotient_of_denom_pos [OF pq] .
  have x: "x = of_int p / of_int q" using quotient_of_div [OF pq] .
  have p: "0 < p" using assms q unfolding x by (simp add: zero_less_divide_iff)
  let ?a = "bit_len (nat p)" let ?b = "bit_len (nat q)"
  have a: "2 ^ ?a \<le> 2 * nat p" using bit_len_bounds [of "nat p"] p by simp
  have b: "nat q < 2 ^ ?b" using bit_len_bounds [of "nat q"] q by simp
  have a': "(2::rat) ^ ?a \<le> 2 * of_int p"
  proof -
    have "(of_nat (2 ^ ?a) :: rat) \<le> of_nat (2 * nat p)" using a by (simp only: of_nat_le_iff)
    then show ?thesis using p by simp
  qed
  have b': "of_int q < (2::rat) ^ ?b"
  proof -
    have "(of_nat (nat q) :: rat) < of_nat (2 ^ ?b)" using b by (simp only: of_nat_less_iff)
    then show ?thesis using q by simp
  qed
  have k: "(2::rat) powi (int ?a - int ?b) = 2 ^ ?a / 2 ^ ?b" by (simp add: power_int_diff)
  have "(2::rat) powi (int ?a - int ?b - 1) = 2 ^ ?a / 2 ^ ?b / 2" by (simp add: power_int_diff)
  also have "\<dots> \<le> x"
  proof -
    have "2 ^ ?a / 2 ^ ?b \<le> 2 * of_int p / (2 ^ ?b :: rat)" using a' by (intro divide_right_mono) auto
    also have "\<dots> \<le> 2 * of_int p / of_int q" using b' p q by (intro divide_left_mono) auto
    finally show ?thesis unfolding x by simp
  qed
  finally show ?thesis by (simp add: f64_exponent_def pq Let_def)
qed

lemma f64_round_error:
  assumes "0 \<le> x"
  shows "\<bar>f64_round x - x\<bar> \<le> x / 2 ^ 53"
proof (cases "x = 0")
  case False
  with assms have pos: "0 < x" by simp
  let ?u = "2 powi (f64_exponent x - 52) :: rat"
  have u: "0 < ?u" by simp
  have "f64_round x - x = (of_int (round_half_even (x / ?u)) - x / ?u) * ?u"
    using pos by (simp add: f64_round_def Let_def algebra_simps)
  then have "\<bar>f64_round x - x\<bar> = \<bar>of_int (round_half_even (x / ?u)) - x / ?u\<bar> * ?u"
    using u by (simp add: abs_mult)
  also have "\<dots> \<le> 1 / 2 * ?u"
    using round_half_even_error u by (intro mult_right_mono) auto
  also have "\<dots> = 2 powi f64_exponent x / 2 ^ 53"
    by (simp add: power_int_diff)
  also have "\<dots> \<le> x / 2 ^ 53"
    using f64_exponent_bounds [OF pos] by (intro divide_right_mono) auto
  finally show ?thesis .
qed (simp add: f64_round_def)

lemma f64_round_nonneg: "0 \<le> f64_round x"
proof (cases "x \<le> 0")
  case False
  with f64_round_error [of x] have "x - x / 2 ^ 53 \<le> f64_round x" by linarith
  with False show ?thesis by (simp; linarith)
qed (simp add: f64_round_def)

lemma as_secs_f64_error: "\<bar>as_secs_f64 d - of_nat d / 1000000000\<bar> \<le> 3 * (of_nat d / 1000000000) / 2 ^ 53"
proof -
  let ?s = "of_nat (d div 1000000000) :: rat" let ?n = "of_nat (d mod 1000000000) / 1000000000 :: rat"
  have "(of_nat d :: rat) = of_nat (d div 1000000000 * 1000000000 + d mod 1000000000)"
    by (subst div_mult_mod_eq) (rule refl)
  then have d: "of_nat d / 1000000000 = ?s + ?n"
    by (simp only: of_nat_add of_nat_mult add_divide_distrib)
  have s: "0 \<le> ?s" and n: "0 \<le> ?n" by simp_all
  have r: "\<bar>as_secs_f64 d - (f64_round ?s + f64_round ?n)\<bar> \<le> (f64_round ?s + f64_round ?n) / 2 ^ 53"
    unfolding as_secs_f64_def f64_add_def f64_div_def by (intro f64_round_error add_nonneg_nonneg f64_round_nonneg)
  show ?thesis
    using f64_round_error [OF s] f64_round_error [OF n] r s n unfolding d abs_le_iff by simp
qed

lemma error_chain:
  fixes m cr cs r s :: rat
  assumes "\<bar>m - cr\<bar> \<le> r / 2 ^ 53" "\<bar>cr - cs\<bar> \<le> 3 * s / 2 ^ 53" "\<bar>r - s\<bar> \<le> 3 * s / 2 ^ 53" "0 \<le> s"
  shows "\<bar>m - cs\<bar> \<le> 5 * s / 2 ^ 53"
  using assms unfolding abs_le_iff by simp

lemma mul_f64_error:
  assumes c: "0 \<le> c" "c \<le> 1" and d: "d < 2 ^ 63 * 1000000000"
  shows "\<exists>y. mul_f64 d c = Some y \<and> \<bar>of_nat y - c * of_nat d\<bar> \<le> 1 / 2 + 5 * of_nat d / 2 ^ 53"
proof -
  let ?s = "of_nat d / 1000000000 :: rat"
  let ?r = "as_secs_f64 d" let ?m = "f64_mul c ?r"
  have s: "0 \<le> ?s" by simp
  have sd: "?s < 2 ^ 63"
  proof -
    have "(of_nat d :: rat) < of_nat (2 ^ 63 * 1000000000)" using d by (simp only: of_nat_less_iff)
    then show ?thesis by simp
  qed
  have r: "\<bar>?r - ?s\<bar> \<le> 3 * ?s / 2 ^ 53" by (rule as_secs_f64_error)
  have r0: "0 \<le> ?r" by (simp add: as_secs_f64_def f64_add_def f64_round_nonneg)
  have cr: "c * ?r \<le> ?r" using c r0 by (simp add: mult_left_le_one_le)
  have m: "\<bar>?m - c * ?r\<bar> \<le> ?r / 2 ^ 53"
  proof -
    have "\<bar>?m - c * ?r\<bar> \<le> c * ?r / 2 ^ 53" unfolding f64_mul_def using c r0 by (intro f64_round_error) simp
    also have "\<dots> \<le> ?r / 2 ^ 53" using cr by (intro divide_right_mono) auto
    finally show ?thesis .
  qed
  have "\<bar>c * ?r - c * ?s\<bar> = \<bar>c * (?r - ?s)\<bar>" by (simp only: right_diff_distrib)
  also have "\<dots> = c * \<bar>?r - ?s\<bar>" using c by (simp only: abs_mult abs_of_nonneg)
  also have "\<dots> \<le> 1 * \<bar>?r - ?s\<bar>" using c by (intro mult_right_mono) auto
  finally have rs: "\<bar>c * ?r - c * ?s\<bar> \<le> 3 * ?s / 2 ^ 53" using r by simp
  have ms: "\<bar>?m - c * ?s\<bar> \<le> 5 * ?s / 2 ^ 53"
    by (rule error_chain [OF m rs r s])
  have m0: "0 \<le> ?m" by (simp add: f64_mul_def f64_round_nonneg)
  have "c * ?s \<le> ?s" using c s by (simp add: mult_left_le_one_le)
  then have m_small: "?m < 2 ^ 63 + 2 ^ 62" using ms sd s unfolding abs_le_iff by simp
  let ?y = "round_half_even (?m * 1000000000)"
  have y: "\<bar>of_int ?y - ?m * 1000000000\<bar> \<le> 1 / 2" by (rule round_half_even_error)
  have y0: "0 \<le> ?y"
  proof -
    have "- 1 < (of_int ?y :: rat)" using y m0 unfolding abs_le_iff by simp
    then show ?thesis by linarith
  qed
  have y_small: "nat ?y < 2 ^ 64 * 1000000000"
  proof -
    have "(of_int ?y :: rat) < of_int (2 ^ 64 * 1000000000)"
      using y m_small unfolding abs_le_iff by simp
    then have "?y < 2 ^ 64 * 1000000000" by (simp only: of_int_less_iff)
    with y0 show ?thesis by (simp add: nat_less_iff)
  qed
  have "mul_f64 d c = Some (nat ?y)"
    using m0 m_small y_small by (simp add: mul_f64_def from_secs_f64_def duration_checked_def)
  moreover have "\<bar>of_nat (nat ?y) - c * of_nat d\<bar> \<le> 1 / 2 + 5 * of_nat d / 2 ^ 53"
  proof -
    have e: "of_nat (nat ?y) = (of_int ?y :: rat)" using y0 by simp
    have "c * of_nat d = c * ?s * 1000000000" by simp
    then show ?thesis using y ms unfolding e abs_le_iff by simp
  qed
  ultimately show ?thesis by blast
qed

text \<open>The two factors of the estimator are exact in double precision.\<close>

lemma factor_exact:
  "f64_sub 1 (f64_div 1 (of_nat RTTVAR_BETA)) = 3 / 4" "f64_sub 1 (f64_div 1 (of_nat SRTT_ALPHA)) = 7 / 8"
  by code_simp+

section \<open>The estimator never panics and keeps its range\<close>

text \<open>A sample is the difference of two instants: fewer than \<open>2 ^ 64\<close> milliseconds.\<close>

abbreviation SAMPLE_LIMIT :: nat where
  "SAMPLE_LIMIT \<equiv> 2 ^ 64 * 1000000"

definition rtt_ok :: "rtt_estimator \<Rightarrow> bool" where
  "rtt_ok est \<longleftrightarrow> MIN_RTO \<le> re_rto est \<and> re_rto est \<le> MAX_RTO \<and> re_rttvar est \<le> 4 * SAMPLE_LIMIT \<and>
     (case re_srtt est of None \<Rightarrow> True | Some srtt \<Rightarrow> srtt \<le> 2 * SAMPLE_LIMIT)"

lemmas rto_constants = MIN_RTO_def MAX_RTO_def INITIAL_RTO_def duration_from_millis_def duration_from_secs_def

lemma rtt_new_ok: "rtt_ok rtt_new"
  by (simp add: rtt_ok_def rtt_new_def rto_constants)

lemma recompute_rto_ok:
  assumes "re_rttvar est \<le> 4 * SAMPLE_LIMIT" "re_srtt est = Some srtt" "srtt \<le> 2 * SAMPLE_LIMIT"
  shows "recompute_rto est =
      Some (est\<lparr>re_rto := min (max (srtt + max (re_rttvar est * 4) (duration_from_millis 1)) MIN_RTO) MAX_RTO\<rparr>)"
  using assms
  by (simp add: recompute_rto_def duration_mul_def duration_add_def duration_checked_def max_def rto_constants)

lemma mul_f64_upper:
  assumes "0 \<le> c" "c \<le> 1" "d \<le> D" "D < 2 ^ 63 * 1000000000"
  obtains y where "mul_f64 d c = Some y" "of_nat y \<le> c * of_nat D + 1 / 2 + 5 * of_nat D / 2 ^ 53"
proof -
  have "d < 2 ^ 63 * 1000000000" using assms by linarith
  from mul_f64_error [OF assms(1,2) this] obtain y where y: "mul_f64 d c = Some y"
    "\<bar>of_nat y - c * of_nat d\<bar> \<le> 1 / 2 + 5 * of_nat d / 2 ^ 53" by blast
  have dD: "(of_nat d :: rat) \<le> of_nat D" using assms(3) by simp
  then have "c * of_nat d \<le> c * of_nat D" using assms(1) by (rule mult_left_mono)
  with y(2) dD have "of_nat y \<le> c * of_nat D + 1 / 2 + 5 * of_nat D / 2 ^ 53"
    unfolding abs_le_iff by simp
  with y(1) show ?thesis by (rule that)
qed

text \<open>The two smoothed quantities stay within a small multiple of the largest sample: the
  rounding of \<open>mul_f64\<close> does not accumulate.\<close>

lemma smoothed_update:
  assumes "srtt \<le> 2 * SAMPLE_LIMIT" "var \<le> 4 * SAMPLE_LIMIT" "rtt < SAMPLE_LIMIT"
  obtains v s where "mul_f64 var (3 / 4) = Some v" "v + abs_diff srtt rtt div 4 \<le> 4 * SAMPLE_LIMIT"
    "mul_f64 srtt (7 / 8) = Some s" "s + rtt div 8 \<le> 2 * SAMPLE_LIMIT"
proof -
  obtain v where v: "mul_f64 var (3 / 4) = Some v"
    "of_nat v \<le> 3 / 4 * of_nat (4 * SAMPLE_LIMIT) + 1 / 2 + 5 * of_nat (4 * SAMPLE_LIMIT) / (2 ^ 53 :: rat)"
    by (rule mul_f64_upper [of "3 / 4" var "4 * SAMPLE_LIMIT"]) (use assms in auto)
  obtain s where s: "mul_f64 srtt (7 / 8) = Some s"
    "of_nat s \<le> 7 / 8 * of_nat (2 * SAMPLE_LIMIT) + 1 / 2 + 5 * of_nat (2 * SAMPLE_LIMIT) / (2 ^ 53 :: rat)"
    by (rule mul_f64_upper [of "7 / 8" srtt "2 * SAMPLE_LIMIT"]) (use assms in auto)
  have "(of_nat v :: rat) \<le> of_nat (3 * SAMPLE_LIMIT + 2 ^ 60)" using v(2) by simp
  then have v': "v \<le> 3 * SAMPLE_LIMIT + 2 ^ 60" by (simp only: of_nat_le_iff)
  have "(of_nat s :: rat) \<le> of_nat (7 * 2 ^ 62 * 1000000 + 2 ^ 60)" using s(2) by simp
  then have s': "s \<le> 7 * 2 ^ 62 * 1000000 + 2 ^ 60" by (simp only: of_nat_le_iff)
  have "abs_diff srtt rtt \<le> 2 * SAMPLE_LIMIT"
    using assms by (cases "srtt \<le> rtt") (simp_all add: abs_diff_def)
  with v' have "v + abs_diff srtt rtt div 4 \<le> 4 * SAMPLE_LIMIT" by simp
  moreover have "s + rtt div 8 \<le> 2 * SAMPLE_LIMIT" using s' assms(3) by simp
  ultimately show ?thesis using v(1) s(1) by (intro that)
qed

lemma rtt_update_Some:
  assumes "re_srtt est = Some srtt" "mul_f64 (re_rttvar est) (3 / 4) = Some v"
    "v + abs_diff srtt rtt div 4 \<le> 4 * SAMPLE_LIMIT" "mul_f64 srtt (7 / 8) = Some s" "s + rtt div 8 \<le> 2 * SAMPLE_LIMIT"
  shows "rtt_update rtt est =
    recompute_rto (est\<lparr>re_rttvar := v + abs_diff srtt rtt div 4, re_srtt := Some (s + rtt div 8)\<rparr>)"
proof -
  have "v + abs_diff srtt rtt div RTTVAR_BETA < 2 ^ 64 * 1000000000" "s + rtt div SRTT_ALPHA < 2 ^ 64 * 1000000000"
    using assms(3,5) by (simp_all add: RTTVAR_BETA_def SRTT_ALPHA_def)
  then have "rtt_update rtt est =
    recompute_rto (est\<lparr>re_rttvar := v + abs_diff srtt rtt div RTTVAR_BETA, re_srtt := Some (s + rtt div SRTT_ALPHA)\<rparr>)"
    using assms(1,2,4) by (simp add: rtt_update_def factor_exact duration_add_def duration_checked_def Let_def)
  then show ?thesis by (simp add: RTTVAR_BETA_def SRTT_ALPHA_def)
qed

lemma rtt_update_ok:
  assumes ok: "rtt_ok est" and rtt: "rtt < SAMPLE_LIMIT"
  obtains est' where "rtt_update rtt est = Some est'" "rtt_ok est'"
    "re_srtt est' \<noteq> None" "recompute_rto est' = Some est'"
proof -
  have rto: "MIN_RTO \<le> min (max x MIN_RTO) MAX_RTO \<and> min (max x MIN_RTO) MAX_RTO \<le> MAX_RTO" for x
    by (simp add: rto_constants)
  have "\<exists>mid s. re_srtt mid = Some s \<and> s \<le> 2 * SAMPLE_LIMIT \<and> re_rttvar mid \<le> 4 * SAMPLE_LIMIT \<and>
    rtt_update rtt est = recompute_rto mid"
  proof (cases "re_srtt est")
    case None
    with rtt show ?thesis
      by (intro exI [of _ "est\<lparr>re_srtt := Some rtt, re_rttvar := rtt div 2\<rparr>"] exI [of _ rtt])
        (simp add: rtt_update_def)
  next
    case (Some srtt)
    with ok have "srtt \<le> 2 * SAMPLE_LIMIT" "re_rttvar est \<le> 4 * SAMPLE_LIMIT" by (simp_all add: rtt_ok_def)
    then obtain v s where vs: "mul_f64 (re_rttvar est) (3 / 4) = Some v" "v + abs_diff srtt rtt div 4 \<le> 4 * SAMPLE_LIMIT"
      "mul_f64 srtt (7 / 8) = Some s" "s + rtt div 8 \<le> 2 * SAMPLE_LIMIT"
      by (rule smoothed_update [OF _ _ rtt]) blast
    with Some show ?thesis
      by (intro exI [of _ "est\<lparr>re_rttvar := v + abs_diff srtt rtt div 4, re_srtt := Some (s + rtt div 8)\<rparr>"]
          exI [of _ "s + rtt div 8"]) (simp add: rtt_update_Some)
  qed
  then obtain mid s where mid: "re_srtt mid = Some s" "s \<le> 2 * SAMPLE_LIMIT" "re_rttvar mid \<le> 4 * SAMPLE_LIMIT"
    "rtt_update rtt est = recompute_rto mid" by blast
  let ?rto = "min (max (s + max (re_rttvar mid * 4) (duration_from_millis 1)) MIN_RTO) MAX_RTO"
  have upd: "rtt_update rtt est = Some (mid\<lparr>re_rto := ?rto\<rparr>)"
    using mid by (simp add: recompute_rto_ok)
  have again: "recompute_rto (mid\<lparr>re_rto := ?rto\<rparr>) = Some (mid\<lparr>re_rto := ?rto\<rparr>)"
    using mid by (subst recompute_rto_ok [of _ s]) simp_all
  show ?thesis
    by (rule that [OF upd _ _ again]) (use mid rto in \<open>simp_all add: rtt_ok_def\<close>)
qed

lemma on_timeout_ok:
  assumes "rtt_ok est"
  shows "on_timeout est = Some (est\<lparr>re_rto := min (re_rto est * 2) MAX_RTO\<rparr>)"
  using assms by (simp add: on_timeout_def duration_mul_def duration_checked_def rtt_ok_def rto_constants)

lemma on_timeout_rtt_ok: "rtt_ok est \<Longrightarrow> rtt_ok (est\<lparr>re_rto := min (re_rto est * 2) MAX_RTO\<rparr>)"
  by (auto simp: rtt_ok_def rto_constants)

lemma reset_backoff_ok:
  assumes "rtt_ok est"
  obtains est' where "reset_backoff est = Some est'" "rtt_ok est'"
proof (cases "re_srtt est")
  case None
  with assms show ?thesis by (intro that [of est]) (simp_all add: reset_backoff_def recompute_rto_def)
next
  case (Some srtt)
  with assms have "re_rttvar est \<le> 4 * SAMPLE_LIMIT" "srtt \<le> 2 * SAMPLE_LIMIT" by (simp_all add: rtt_ok_def)
  from recompute_rto_ok [OF this(1) Some this(2)] this assms Some show ?thesis
    by (intro that) (auto simp: reset_backoff_def rtt_ok_def rto_constants)
qed

section \<open>Runs\<close>

datatype rtt_event = RttSample duration | RttTimeout | RttReset

fun rtt_step :: "rtt_event \<Rightarrow> rtt_estimator \<Rightarrow> rtt_estimator option" where
  "rtt_step (RttSample rtt) est = rtt_update rtt est"
| "rtt_step RttTimeout est = on_timeout est"
| "rtt_step RttReset est = reset_backoff est"

fun rtt_run :: "rtt_event list \<Rightarrow> rtt_estimator \<Rightarrow> rtt_estimator option" where
  "rtt_run [] est = Some est"
| "rtt_run (e # es) est = Option.bind (rtt_step e est) (rtt_run es)"

fun sample_in_range :: "rtt_event \<Rightarrow> bool" where
  "sample_in_range (RttSample rtt) = (rtt < SAMPLE_LIMIT)"
| "sample_in_range _ = True"

lemma rtt_step_ok:
  assumes "rtt_ok est" "sample_in_range e"
  obtains est' where "rtt_step e est = Some est'" "rtt_ok est'"
proof (cases e)
  case (RttSample rtt)
  with assms rtt_update_ok [of est rtt] that show ?thesis by auto
next
  case RttTimeout
  with assms on_timeout_ok on_timeout_rtt_ok that show ?thesis by auto
next
  case RttReset
  with assms reset_backoff_ok [of est] that show ?thesis by auto
qed

lemma rtt_run_ok:
  "rtt_ok est \<Longrightarrow> list_all sample_in_range es \<Longrightarrow> \<exists>est'. rtt_run es est = Some est' \<and> rtt_ok est'"
proof (induction es arbitrary: est)
  case (Cons e es)
  from Cons.prems have range: "rtt_ok est" "sample_in_range e" "list_all sample_in_range es" by simp_all
  from rtt_step_ok [OF range(1,2)] obtain mid where "rtt_step e est = Some mid" "rtt_ok mid" by blast
  with Cons.IH [of mid] range show ?case by simp
qed simp

text \<open>
  C39. Whatever round trips are measured and however the retransmission timer fires, the
  estimator never panics and the retransmission timeout stays between 100 ms and 16 s.
\<close>

theorem rto_always_in_range:
  assumes "list_all sample_in_range es"
  shows "\<exists>est. rtt_run es rtt_new = Some est \<and>
    duration_from_millis 100 \<le> re_rto est \<and> re_rto est \<le> duration_from_secs 16"
  using rtt_run_ok [OF rtt_new_ok assms] by (auto simp: rtt_ok_def MIN_RTO_def MAX_RTO_def)

theorem rto_always_in_range_witness:
  "\<exists>est. rtt_run [RttSample 30000000, RttTimeout, RttSample 48000000, RttTimeout, RttReset] rtt_new = Some est \<and>
    re_rto est \<le> duration_from_secs 16"
  using rto_always_in_range [of "[RttSample 30000000, RttTimeout, RttSample 48000000, RttTimeout, RttReset]"] by auto

lemma min_scaled: "min (min a m * 2 ^ k) m = min (a * 2 ^ k) (m :: nat)"
proof (cases "a \<le> m")
  case False
  have "m \<le> m * 2 ^ k" "a \<le> a * 2 ^ k" by simp_all
  with False have "m \<le> m * 2 ^ k" "m \<le> a * 2 ^ k" by linarith+
  moreover have "min a m = m" using False by simp
  ultimately show ?thesis by (simp only: min_absorb2)
qed (simp add: min_def)

lemma timeouts_run:
  "rtt_ok est \<Longrightarrow> rtt_run (replicate k RttTimeout) est = Some (est\<lparr>re_rto := min (re_rto est * 2 ^ k) MAX_RTO\<rparr>)"
proof (induction k arbitrary: est)
  case 0
  then show ?case by (simp add: rtt_ok_def min_def)
next
  case (Suc k)
  have "min (min (re_rto est * 2) MAX_RTO * 2 ^ k) MAX_RTO = min (re_rto est * 2 * 2 ^ k) MAX_RTO"
    by (rule min_scaled)
  with Suc show ?case by (simp add: on_timeout_ok on_timeout_rtt_ok mult.assoc)
qed

text \<open>
  Exponential backoff, and its end: after a sample, \<open>k\<close> timeouts in a row multiply the
  timeout by \<open>2 ^ k\<close> up to 16 s, and the acknowledgement of new data that follows restores the
  estimator to exactly what it was after the sample.
\<close>

theorem backoff_and_recovery:
  assumes "rtt_ok before" "rtt < SAMPLE_LIMIT"
  shows "\<exists>est. rtt_run [RttSample rtt] before = Some est \<and>
    rtt_run (replicate k RttTimeout) est = Some (est\<lparr>re_rto := min (re_rto est * 2 ^ k) MAX_RTO\<rparr>) \<and>
    rtt_run (replicate k RttTimeout @ [RttReset]) est = Some est"
proof -
  obtain est where est: "rtt_update rtt before = Some est" "rtt_ok est" "re_srtt est \<noteq> None"
    "recompute_rto est = Some est" by (rule rtt_update_ok [OF assms]) blast
  have app: "rtt_run (xs @ ys) e = Option.bind (rtt_run xs e) (rtt_run ys)" for xs ys e
  proof (induction xs arbitrary: e)
    case (Cons x xs)
    then show ?case by (cases "rtt_step x e") simp_all
  qed simp
  have "recompute_rto (est\<lparr>re_rto := r\<rparr>) = recompute_rto est" for r
    using est(2,3) recompute_rto_ok by (auto simp: rtt_ok_def)
  with est timeouts_run [OF est(2), of k] show ?thesis
    by (intro exI [of _ est]) (simp add: app reset_backoff_def)
qed

section \<open>Agreement with RFC 6298\<close>

lemma mul_f64_close:
  assumes "0 \<le> c" "c \<le> 1" "d \<le> 2 ^ 49" "mul_f64 d c = Some y"
  shows "\<bar>of_nat y - c * of_nat d\<bar> < 1"
proof -
  have "(of_nat d :: rat) \<le> of_nat (2 ^ 49)" using assms(3) by (simp only: of_nat_le_iff)
  with mul_f64_error [OF assms(1,2), of d] assms(3,4) show ?thesis by auto
qed

lemma of_nat_div_close:
  fixes n k :: nat assumes "0 < k"
  shows "\<bar>of_nat (n div k) - of_nat n / of_nat k\<bar> < (1 :: rat)"
proof -
  have "(of_nat n :: rat) = of_nat (n div k * k + n mod k)" by (subst div_mult_mod_eq) (rule refl)
  then have n: "(of_nat n :: rat) / of_nat k = of_nat (n div k) + of_nat (n mod k) / of_nat k"
    using assms by (simp only: of_nat_add of_nat_mult add_divide_distrib) simp
  have "(of_nat (n mod k) :: rat) < of_nat k" using assms by (simp only: of_nat_less_iff mod_less_divisor)
  then have "(of_nat (n mod k) :: rat) / of_nat k < 1" using assms by simp
  moreover have "0 \<le> (of_nat (n mod k) :: rat) / of_nat k" by simp
  ultimately show ?thesis unfolding n by simp
qed

lemma of_nat_abs_diff: "of_nat (abs_diff a b) = \<bar>of_nat a - of_nat b :: rat\<bar>"
  by (auto simp: abs_diff_def of_nat_diff)

lemma two_errors:
  fixes a b x y :: rat
  shows "\<bar>a - x\<bar> < 1 \<Longrightarrow> \<bar>b - y\<bar> < 1 \<Longrightarrow> \<bar>(a + b) - (x + y)\<bar> < 2"
  by linarith

text \<open>
  C40. The floating-point smoothing computes RFC 6298: for estimates of up to six days, one
  update leaves the smoothed RTT within 2 ns of \<open>7/8 SRTT + 1/8 R\<close>, and the variance within
  2 ns of \<open>3/4 RTTVAR + 1/4 |SRTT - R|\<close> taken with the old SRTT.
\<close>

theorem smoothing_matches_rfc6298:
  assumes "rtt_ok est" "re_srtt est = Some srtt" "srtt \<le> 2 ^ 49" "re_rttvar est \<le> 2 ^ 49" "rtt < SAMPLE_LIMIT"
  shows "\<exists>est' srtt'. rtt_update rtt est = Some est' \<and> re_srtt est' = Some srtt' \<and>
    \<bar>of_nat srtt' - (7 / 8 * of_nat srtt + 1 / 8 * of_nat rtt)\<bar> < (2 :: rat) \<and>
    \<bar>of_nat (re_rttvar est') - (3 / 4 * of_nat (re_rttvar est) + 1 / 4 * \<bar>of_nat srtt - of_nat rtt\<bar>)\<bar> < (2 :: rat)"
proof -
  have "srtt \<le> 2 * SAMPLE_LIMIT" "re_rttvar est \<le> 4 * SAMPLE_LIMIT"
    using assms by (simp_all add: rtt_ok_def)
  then obtain v s where vs: "mul_f64 (re_rttvar est) (3 / 4) = Some v" "v + abs_diff srtt rtt div 4 \<le> 4 * SAMPLE_LIMIT"
    "mul_f64 srtt (7 / 8) = Some s" "s + rtt div 8 \<le> 2 * SAMPLE_LIMIT"
    by (rule smoothed_update [OF _ _ assms(5)]) blast
  let ?mid = "est\<lparr>re_rttvar := v + abs_diff srtt rtt div 4, re_srtt := Some (s + rtt div 8)\<rparr>"
  have upd: "rtt_update rtt est = recompute_rto ?mid"
    using vs assms(2) by (intro rtt_update_Some)
  obtain r where rec: "recompute_rto ?mid = Some (?mid\<lparr>re_rto := r\<rparr>)"
    using recompute_rto_ok [of ?mid "s + rtt div 8"] vs by simp
  have "\<bar>of_nat s - 7 / 8 * of_nat srtt\<bar> < (1 :: rat)"
    by (rule mul_f64_close [OF _ _ assms(3) vs(3)]) simp_all
  moreover have "\<bar>of_nat (rtt div 8) - 1 / 8 * of_nat rtt\<bar> < (1 :: rat)"
    using of_nat_div_close [of 8 rtt] by simp
  ultimately have s: "\<bar>of_nat (s + rtt div 8) - (7 / 8 * of_nat srtt + 1 / 8 * of_nat rtt)\<bar> < (2 :: rat)"
    unfolding of_nat_add by (rule two_errors)
  have "\<bar>of_nat v - 3 / 4 * of_nat (re_rttvar est)\<bar> < (1 :: rat)"
    by (rule mul_f64_close [OF _ _ assms(4) vs(1)]) simp_all
  moreover have "\<bar>of_nat (abs_diff srtt rtt div 4) - 1 / 4 * \<bar>of_nat srtt - of_nat rtt\<bar>\<bar> < (1 :: rat)"
    using of_nat_div_close [of 4 "abs_diff srtt rtt"] by (simp add: of_nat_abs_diff)
  ultimately have "\<bar>of_nat (v + abs_diff srtt rtt div 4) -
      (3 / 4 * of_nat (re_rttvar est) + 1 / 4 * \<bar>of_nat srtt - of_nat rtt\<bar>)\<bar> < (2 :: rat)"
    unfolding of_nat_add by (rule two_errors)
  with s show ?thesis
    by (intro exI [of _ "?mid\<lparr>re_rto := r\<rparr>"] exI [of _ "s + rtt div 8"]) (simp add: upd rec del: of_nat_add)
qed

theorem smoothing_matches_rfc6298_witness:
  "\<exists>est' srtt'. rtt_update 60000000 \<lparr>re_srtt = Some 50000000, re_rttvar = 25000000, re_rto = 150000000\<rparr> = Some est' \<and>
     re_srtt est' = Some srtt' \<and> \<bar>of_nat srtt' - 51250000\<bar> < (2 :: rat)"
proof -
  let ?est = "\<lparr>re_srtt = Some 50000000, re_rttvar = 25000000, re_rto = 150000000\<rparr> :: rtt_estimator"
  have "rtt_ok ?est" by (simp add: rtt_ok_def rto_constants)
  from smoothing_matches_rfc6298 [OF this, of 50000000 60000000] show ?thesis by auto
qed

end
