(* ===== verification/Connection.thy ===== *)
theory Connection
  imports Prefix_Frame Recv_Window Reliability Loss Timer_Table Congestion Rtt
begin

text \<open>
  The RDP-UDP2 connection state machine (\<open>connection.rs\<close>): the handshake, the handlers of
  packets and timers and the generation of outgoing packets, over the components of the
  other theories. This theory holds the definitions; \<open>Lifecycle\<close>, \<open>Handshake\<close> and
  \<open>Data_Path\<close> prove what they promise.

  A method with \<open>&mut self\<close> is a function from connection to connection, with its result
  first. A method that contains a call which can panic returns an option of that, \<open>None\<close>
  the panic: an \<open>expect\<close>, the arithmetic of \<open>Duration\<close> in \<open>rtt.rs\<close>, or a read or write past
  the end of a cursor. The \<open>context\<close> string an error carries is left out, its kind kept.
\<close>

section \<open>Types\<close>

datatype side = Client | Server

datatype event = Connected | DataReceived bytes | ConnectionClosed

datatype conn_state = SynSent | SynReceived | Established | Closed

datatype rdpeudp_error =
    ErrDecode codec_error
  | ErrEncode codec_error
  | ErrPrefix prefix_error
  | ErrInvalidState
  | ErrSendBufferFull
  | ErrConnectionClosed
  | ErrInvalidPacket string

record connection_config =
  cf_initial_sequence_number :: u32
  cf_log_window_size :: u8
  cf_upstream_mtu :: u16
  cf_downstream_mtu :: u16
  cf_idle_timeout :: duration
  cf_keep_alive_interval :: duration
  cf_cookie_hash :: "bytes option"

definition default_config :: connection_config where
  "default_config =
     \<lparr>cf_initial_sequence_number = 0, cf_log_window_size = 10, cf_upstream_mtu = 1232,
      cf_downstream_mtu = 1232, cf_idle_timeout = duration_from_secs 65,
      cf_keep_alive_interval = duration_from_secs 4, cf_cookie_hash = None\<rparr>"

record negotiated_params =
  np_local_isn :: u32
  np_remote_isn :: u32
  np_mtu :: u16
  np_log_window_size :: u8

record acknowledgement =
  an_flag :: u16
  an_ack :: "ack_payload option"
  an_ack_vector :: "ack_vector_payload option"

record stats =
  st_datagrams_in :: u64
  st_datagrams_out :: u64
  st_data_sent :: u64
  st_retransmits :: u64
  st_retransmit_timeouts :: u64
  st_bytes_in_flight :: u64
  st_congestion_window :: u64
  st_send_queue :: u64
  st_rto_ms :: u64
  st_srtt_ms :: "u64 option"

definition stats_default :: stats where
  "stats_default =
     \<lparr>st_datagrams_in = 0, st_datagrams_out = 0, st_data_sent = 0, st_retransmits = 0,
      st_retransmit_timeouts = 0, st_bytes_in_flight = 0, st_congestion_window = 0,
      st_send_queue = 0, st_rto_ms = 0, st_srtt_ms = None\<rparr>"

record connection =
  c_side :: side
  c_state :: conn_state
  c_config :: connection_config
  c_params :: "negotiated_params option"
  c_send_window :: "send_window option"
  c_recv_window :: "recv_window option"
  c_congestion :: congestion_control
  c_loss_detector :: loss_detector
  c_reliability :: reliability_controller
  c_rtt :: rtt_estimator
  c_timers :: timer_table
  c_pending_transmits :: "bytes list"
  c_pending_events :: "event list"
  c_send_buffer :: "bytes list"
  c_ack_pending :: bool
  c_pending_ack_of_acks :: "u64 option"
  c_handshake_datagram :: "bytes option"
  c_handshake_retransmits :: u8
  c_handshake_sent_at :: "instant option"
  c_stats :: stats
  c_ack_delay_started_at :: "instant option"
  c_remote_timestamp_ref :: u64
  c_wire_buf :: bytes

section \<open>Constants\<close>

definition RDPEUDP2_MTU :: usize where "RDPEUDP2_MTU = 1232"
definition INVALID_ACK_TIME_GAP :: u8 where "INVALID_ACK_TIME_GAP = 255"
definition DATA_PACKET_OVERHEAD :: usize where "DATA_PACKET_OVERHEAD = 7"
definition PIGGYBACK_RESERVE :: usize where "PIGGYBACK_RESERVE = 134 + 2"
definition HANDSHAKE_RETRANSMIT_LIMIT :: u8 where "HANDSHAKE_RETRANSMIT_LIMIT = 5"
definition SEND_BUFFER_WINDOW_MULTIPLE :: usize where "SEND_BUFFER_WINDOW_MULTIPLE = 8"
definition INITIAL_DATA_SEQ :: u64 where "INITIAL_DATA_SEQ = 100"

definition negotiated_mtu :: "u16 \<Rightarrow> u16 \<Rightarrow> u16" where
  "negotiated_mtu sender receiver = min (max (min sender receiver) 1132) 1232"

section \<open>Timers, events and codecs\<close>

abbreviation arm :: "timer \<Rightarrow> instant \<Rightarrow> connection \<Rightarrow> connection" where
  "arm t deadline c \<equiv> c\<lparr>c_timers := tt_set t deadline (c_timers c)\<rparr>"

abbreviation disarm :: "timer \<Rightarrow> connection \<Rightarrow> connection" where
  "disarm t c \<equiv> c\<lparr>c_timers := tt_clear t (c_timers c)\<rparr>"

abbreviation push_event :: "event \<Rightarrow> connection \<Rightarrow> connection" where
  "push_event e c \<equiv> c\<lparr>c_pending_events := c_pending_events c @ [e]\<rparr>"

text \<open>The outcome of a codec: a read or write out of range is a panic of the caller.\<close>

definition unwind :: "codec_error + 'a \<Rightarrow> (codec_error + 'a) option" where
  "unwind r = (case r of Inl Panic \<Rightarrow> None | _ \<Rightarrow> Some r)"

section \<open>Construction and the handshake\<close>

definition conn_new :: "side \<Rightarrow> connection_config \<Rightarrow> connection" where
  "conn_new side config =
     \<lparr>c_side = side, c_state = SynSent, c_config = config, c_params = None, c_send_window = None,
      c_recv_window = None, c_congestion = cc_new, c_loss_detector = loss_new, c_reliability = rel_new,
      c_rtt = rtt_new, c_timers = tt_new, c_pending_transmits = [], c_pending_events = [],
      c_send_buffer = [], c_ack_pending = False, c_pending_ack_of_acks = None,
      c_handshake_datagram = None, c_handshake_retransmits = 0, c_handshake_sent_at = None,
      c_stats = stats_default, c_ack_delay_started_at = None, c_remote_timestamp_ref = 0,
      c_wire_buf = []\<rparr>"

definition close :: "connection \<Rightarrow> connection" where
  "close c =
     (if c_state c \<noteq> Closed then
        push_event ConnectionClosed
          (disarm TimerKeepAlive (disarm TimerIdle (disarm TimerAckDelay (disarm TimerRetransmit
            (c\<lparr>c_state := Closed\<rparr>)))))
      else c)"

definition enqueue_handshake :: "v1_datagram \<Rightarrow> connection \<Rightarrow> (bool \<times> connection) option" where
  "enqueue_handshake datagram c = do {
     encoded \<leftarrow> unwind (encode_vec v1_datagram_size encode_v1_datagram datagram);
     case encoded of
       Inl _ \<Rightarrow> Some (False, close c)
     | Inr bs \<Rightarrow>
         Some (True, c\<lparr>c_pending_transmits := c_pending_transmits c @ [bs],
                       c_handshake_datagram := Some bs, c_handshake_retransmits := 0\<rparr>) }"

definition resend_handshake_datagram :: "connection \<Rightarrow> connection" where
  "resend_handshake_datagram c =
     (case c_handshake_datagram c of
        None \<Rightarrow> c
      | Some datagram \<Rightarrow> c\<lparr>c_pending_transmits := c_pending_transmits c @ [datagram]\<rparr>)"

definition advertised_window :: "connection \<Rightarrow> u16" where
  "advertised_window c = push_bit (unat (cf_log_window_size (c_config c))) 1"

definition syn_datagram :: "connection \<Rightarrow> v1_datagram" where
  "syn_datagram c =
     \<lparr>v1_header = \<lparr>sn_source_ack = 0xFFFFFFFF, receive_window_size = advertised_window c,
        fec_flags = V1_SYN OR V1_SYNEX\<rparr>,
      v1_ack_vector = None, v1_ack_of_acks = None,
      v1_syn_data = Some \<lparr>initial_sequence_number = cf_initial_sequence_number (c_config c),
        upstream_mtu = cf_upstream_mtu (c_config c), downstream_mtu = cf_downstream_mtu (c_config c)\<rparr>,
      v1_correlation_id = None,
      v1_syn_data_ex = Some \<lparr>syn_ex_flags = SYNEX_VERSION_INFO_VALID, udp_ver = UDP_V3,
        cookie_hash = cf_cookie_hash (c_config c)\<rparr>\<rparr>"

definition enqueue_syn :: "instant \<Rightarrow> connection \<Rightarrow> connection option" where
  "enqueue_syn now c = do {
     (queued, c) \<leftarrow> enqueue_handshake (syn_datagram c) c;
     if \<not> queued then Some c
     else do {
       let c = c\<lparr>c_handshake_sent_at := Some now\<rparr>;
       let c = arm TimerRetransmit (instant_add now (re_rto (c_rtt c))) c;
       Some (arm TimerIdle (instant_add now (cf_idle_timeout (c_config c))) c) } }"

definition connect :: "connection_config \<Rightarrow> instant \<Rightarrow> (rdpeudp_error + connection) option" where
  "connect config now =
     (if cf_log_window_size config > LOG_WINDOW_SIZE_MAX then Some (Inl ErrInvalidState)
      else if cf_cookie_hash config = None then Some (Inl ErrInvalidState)
      else do {
        c \<leftarrow> enqueue_syn now (conn_new Client config);
        Some (Inr c) })"

definition syn_ack_datagram :: "u32 \<Rightarrow> u16 \<Rightarrow> u16 \<Rightarrow> connection \<Rightarrow> v1_datagram" where
  "syn_ack_datagram remote_isn up down c =
     \<lparr>v1_header = \<lparr>sn_source_ack = remote_isn, receive_window_size = advertised_window c,
        fec_flags = V1_SYN OR V1_ACK OR V1_SYNEX\<rparr>,
      v1_ack_vector = None, v1_ack_of_acks = None,
      v1_syn_data = Some \<lparr>initial_sequence_number = cf_initial_sequence_number (c_config c),
        upstream_mtu = up, downstream_mtu = down\<rparr>,
      v1_correlation_id = None,
      v1_syn_data_ex = Some \<lparr>syn_ex_flags = SYNEX_VERSION_INFO_VALID, udp_ver = UDP_V3,
        cookie_hash = None\<rparr>\<rparr>"

definition enqueue_syn_ack :: "u32 \<Rightarrow> u16 \<Rightarrow> u16 \<Rightarrow> instant \<Rightarrow> connection \<Rightarrow> connection option" where
  "enqueue_syn_ack remote_isn up down now c = do {
     (queued, c) \<leftarrow> enqueue_handshake (syn_ack_datagram remote_isn up down c) c;
     if \<not> queued then Some c
     else do {
       let c = c\<lparr>c_handshake_sent_at := Some now\<rparr>;
       Some (arm TimerRetransmit (instant_add now (re_rto (c_rtt c))) c) } }"

text \<open>The MTU both sides work with: the smallest of the four advertised values.\<close>

definition smallest_mtu :: "connection_config \<Rightarrow> syn_data_payload \<Rightarrow> u16" where
  "smallest_mtu config peer =
     min (min (min (cf_upstream_mtu config) (cf_downstream_mtu config)) (upstream_mtu peer)) (downstream_mtu peer)"

definition negotiate :: "syn_data_payload \<Rightarrow> connection \<Rightarrow> connection" where
  "negotiate peer c =
     c\<lparr>c_params := Some \<lparr>np_local_isn = cf_initial_sequence_number (c_config c),
         np_remote_isn = initial_sequence_number peer, np_mtu = smallest_mtu (c_config c) peer,
         np_log_window_size = cf_log_window_size (c_config c)\<rparr>\<rparr>"

definition accept :: "connection_config \<Rightarrow> v1_datagram \<Rightarrow> instant \<Rightarrow> (rdpeudp_error + connection) option" where
  "accept config syn now =
     (if cf_log_window_size config > LOG_WINDOW_SIZE_MAX then Some (Inl ErrInvalidState)
      else case v1_syn_data syn of
        None \<Rightarrow> Some (Inl (ErrInvalidPacket ''SYN datagram missing SynData payload''))
      | Some syn_data \<Rightarrow>
      (case v1_syn_data_ex syn of
        None \<Rightarrow> Some (Inl (ErrInvalidPacket ''SYN datagram missing SynDataEx payload''))
      | Some syn_data_ex \<Rightarrow>
      (case cf_cookie_hash config of
        None \<Rightarrow> Some (Inl ErrInvalidState)
      | Some expected_hash \<Rightarrow>
      let offered = (if flags_contain (syn_ex_flags syn_data_ex) SYNEX_VERSION_INFO_VALID
                     then udp_ver syn_data_ex else UDP_V1) in
      if offered < UDP_V3
      then Some (Inl (ErrInvalidPacket ''remote's highest protocol version is below 3''))
      else
      (case cookie_hash syn_data_ex of
        None \<Rightarrow> Some (Inl (ErrInvalidPacket ''version 3 SYN carries no cookieHash''))
      | Some offered_hash \<Rightarrow>
      if offered_hash \<noteq> expected_hash
      then Some (Inl (ErrInvalidPacket ''cookieHash does not match the security cookie''))
      else do {
        let c = (conn_new Server config)\<lparr>c_state := SynReceived\<rparr>;
        let c = negotiate syn_data c;
        let up = negotiated_mtu (upstream_mtu syn_data) (cf_downstream_mtu config);
        let down = negotiated_mtu (downstream_mtu syn_data) (cf_upstream_mtu config);
        c \<leftarrow> enqueue_syn_ack (initial_sequence_number syn_data) up down now c;
        Some (Inr (arm TimerIdle (instant_add now (cf_idle_timeout (c_config c))) c)) }))))"

definition final_ack_datagram :: "u32 \<Rightarrow> connection \<Rightarrow> v1_datagram" where
  "final_ack_datagram remote_isn c =
     \<lparr>v1_header = \<lparr>sn_source_ack = remote_isn, receive_window_size = advertised_window c,
        fec_flags = V1_ACK\<rparr>,
      v1_ack_vector = Some \<lparr>elements = [\<lparr>el_state = DatagramReceived, el_length = 1\<rparr>]\<rparr>,
      v1_ack_of_acks = None, v1_syn_data = None, v1_correlation_id = None, v1_syn_data_ex = None\<rparr>"

definition enqueue_final_ack :: "u32 \<Rightarrow> connection \<Rightarrow> connection option" where
  "enqueue_final_ack remote_isn c =
     map_option snd (enqueue_handshake (final_ack_datagram remote_isn c) c)"

definition sample_handshake_rtt :: "instant \<Rightarrow> connection \<Rightarrow> connection option" where
  "sample_handshake_rtt now c =
     (if c_handshake_retransmits c \<noteq> 0 then Some c
      else case c_handshake_sent_at c of
        None \<Rightarrow> Some c
      | Some sent_at \<Rightarrow> do {
          rtt \<leftarrow> rtt_update (duration_since now sent_at) (c_rtt c);
          Some (c\<lparr>c_rtt := rtt\<rparr>) })"

definition transition_to_established :: "instant \<Rightarrow> connection \<Rightarrow> connection option" where
  "transition_to_established now c = do {
     let c = disarm TimerRetransmit (c\<lparr>c_state := Established\<rparr>);
     let c = (if c_side c = Server then c\<lparr>c_handshake_datagram := None\<rparr> else c);
     params \<leftarrow> c_params c;
     let c = c\<lparr>c_send_window := Some (sw_new INITIAL_DATA_SEQ 1 (np_log_window_size params)),
               c_recv_window := Some (rw_new INITIAL_DATA_SEQ 1 (np_log_window_size params))\<rparr>;
     let c = arm TimerIdle (instant_add now (cf_idle_timeout (c_config c))) c;
     let c = arm TimerKeepAlive (instant_add now (cf_keep_alive_interval (c_config c))) c;
     Some (push_event Connected c) }"

definition handle_syn_ack ::
  "bytes \<Rightarrow> instant \<Rightarrow> connection \<Rightarrow> ((rdpeudp_error + unit) \<times> connection) option" where
  "handle_syn_ack wire now c = do {
     decoded \<leftarrow> unwind (decode decode_v1_datagram wire);
     case decoded of
       Inl e \<Rightarrow> Some (Inl (ErrDecode e), c)
     | Inr datagram \<Rightarrow>
     if \<not> flags_contain (fec_flags (v1_header datagram)) (V1_SYN OR V1_ACK)
     then Some (Inl (ErrInvalidPacket ''expected SYN+ACK during handshake''), c)
     else (case v1_syn_data datagram of
       None \<Rightarrow> Some (Inl (ErrInvalidPacket ''SYN+ACK missing SynData''), c)
     | Some syn_data \<Rightarrow>
     (case v1_syn_data_ex datagram of
       None \<Rightarrow> Some (Inl (ErrInvalidPacket ''SYN+ACK missing SynDataEx''), c)
     | Some syn_data_ex \<Rightarrow>
     if \<not> uses_v2_wire_format (udp_ver syn_data_ex)
     then Some (Inl (ErrInvalidPacket ''server settled on a protocol version below 3''), c)
     else do {
       c \<leftarrow> sample_handshake_rtt now (negotiate syn_data c);
       c \<leftarrow> enqueue_final_ack (initial_sequence_number syn_data) c;
       c \<leftarrow> transition_to_established now c;
       Some (Inr (), c) })) }"

text \<open>The result is \<open>Ok(handled)\<close>; the code has no error path here.\<close>

definition handle_final_ack :: "bytes \<Rightarrow> instant \<Rightarrow> connection \<Rightarrow> (bool \<times> connection) option" where
  "handle_final_ack wire now c = do {
     decoded \<leftarrow> unwind (decode decode_v1_datagram wire);
     case decoded of
       Inl _ \<Rightarrow> Some (False, c)
     | Inr datagram \<Rightarrow>
     if flags_contain (fec_flags (v1_header datagram)) V1_SYN
     then Some (True, resend_handshake_datagram c)
     else if \<not> flags_contain (fec_flags (v1_header datagram)) V1_ACK then Some (False, c)
     else do {
       c \<leftarrow> sample_handshake_rtt now c;
       c \<leftarrow> transition_to_established now c;
       Some (True, c) } }"

definition is_repeated_syn_ack :: "bytes \<Rightarrow> connection \<Rightarrow> bool option" where
  "is_repeated_syn_ack wire c =
     (if c_side c \<noteq> Client then Some False
      else case c_params c of
        None \<Rightarrow> Some False
      | Some params \<Rightarrow> do {
          header \<leftarrow> unwind (decode decode_fec_header wire);
          case header of
            Inl _ \<Rightarrow> Some False
          | Inr header \<Rightarrow>
          if \<not> flags_contain (fec_flags header) (V1_SYN OR V1_ACK) then Some False
          else do {
            decoded \<leftarrow> unwind (decode decode_v1_datagram wire);
            case decoded of
              Inl _ \<Rightarrow> Some False
            | Inr datagram \<Rightarrow>
                Some (case v1_syn_data datagram of
                   None \<Rightarrow> False
                 | Some syn_data \<Rightarrow> initial_sequence_number syn_data = np_remote_isn params) } })"

end
