(* ===== verification/Data_Transfer.thy ===== *)
theory Data_Transfer
  imports Connection
begin

text \<open>
  The second half of \<open>connection.rs\<close>: the handlers of version 2 packets, loss recovery, the
  generation of outgoing packets, the timer handlers, and the public API that ties them to
  the handshake. The conventions are those of \<open>Connection\<close>.
\<close>

section \<open>Loss recovery\<close>

definition declare_lost :: "u64 \<Rightarrow> connection \<Rightarrow> connection" where
  "declare_lost data_seq c =
     (case c_send_window c of
        None \<Rightarrow> c
      | Some send_window \<Rightarrow>
          let largest_sent = saturating_sub (sw_next_data_seq send_window) 1;
              (info, send_window) = mark_lost data_seq send_window;
              c = c\<lparr>c_send_window := Some send_window\<rparr>
          in case info of
               None \<Rightarrow> c
             | Some info \<Rightarrow>
                 let lowest = lowest_unacknowledged send_window
                 in c\<lparr>c_congestion := snd (on_loss data_seq largest_sent (c_congestion c)),
                      c_reliability := rel_enqueue (lp_channel_seq info) (lp_data info) (c_reliability c),
                      c_pending_ack_of_acks := Some lowest\<rparr>)"

definition run_loss_detection :: "instant \<Rightarrow> connection \<Rightarrow> connection" where
  "run_loss_detection now c =
     (case c_send_window c of
        None \<Rightarrow> c
      | Some send_window \<Rightarrow>
          let highest_acked = highest_acked_data_seq send_window;
              lost_seqs = detect (c_loss_detector c) send_window highest_acked (re_rto (c_rtt c)) now
          in fold declare_lost lost_seqs c)"

definition retire_ack_of_acks :: "u64 \<Rightarrow> connection \<Rightarrow> connection" where
  "retire_ack_of_acks peer_reported_seq c =
     (if (case c_pending_ack_of_acks c of None \<Rightarrow> False | Some advertised \<Rightarrow> peer_reported_seq > advertised)
      then c\<lparr>c_pending_ack_of_acks := None\<rparr> else c)"

definition declare_oldest_pending_lost :: "connection \<Rightarrow> connection" where
  "declare_oldest_pending_lost c =
     (case c_send_window c of
        None \<Rightarrow> c
      | Some send_window \<Rightarrow>
          (case iter_min (map se_data_seq (pending_entries send_window)) of
             None \<Rightarrow> c
           | Some oldest \<Rightarrow> declare_lost oldest c))"

definition declare_overdue_lost :: "instant \<Rightarrow> connection \<Rightarrow> connection" where
  "declare_overdue_lost now c =
     (let rto = re_rto (c_rtt c);
          overdue = (case c_send_window c of
             None \<Rightarrow> []
           | Some window \<Rightarrow> map se_data_seq
               (filter (\<lambda>entry. duration_since now (se_sent_at entry) \<ge> rto) (pending_entries window)))
      in if overdue = [] then declare_oldest_pending_lost c
         else fold declare_lost overdue c)"

definition update_retransmit_timer :: "instant \<Rightarrow> connection \<Rightarrow> connection" where
  "update_retransmit_timer now c =
     (case c_send_window c of
        None \<Rightarrow> c
      | Some send_window \<Rightarrow>
          let has_pending = (pending_entries send_window \<noteq> [])
          in if has_pending \<or> rel_has_pending (c_reliability c)
             then if \<not> tt_is_set TimerRetransmit (c_timers c)
                  then arm TimerRetransmit (instant_add now (re_rto (c_rtt c))) c else c
             else disarm TimerRetransmit c)"

section \<open>Acknowledgements received\<close>

text \<open>Karn's algorithm: the time since an entry was sent, when it is still pending and went
  out once.\<close>

definition timing_of :: "u64 \<Rightarrow> instant \<Rightarrow> send_window \<Rightarrow> duration option" where
  "timing_of data_seq now send_window =
     (case get_by_data_seq data_seq send_window of
        None \<Rightarrow> None
      | Some entry \<Rightarrow>
          if se_transmit_count entry = 1 \<and> se_state entry = SendPending
          then Some (duration_since now (se_sent_at entry)) else None)"

text \<open>One RTT sample from an acknowledgement, less the time the peer held it back.\<close>

definition sample_rtt :: "duration option \<Rightarrow> u8 option \<Rightarrow> connection \<Rightarrow> connection option" where
  "sample_rtt elapsed gap c =
     (case (elapsed, gap) of
        (Some elapsed, Some gap) \<Rightarrow>
          if gap = INVALID_ACK_TIME_GAP then Some c
          else
            let ack_gap = duration_from_millis (unat gap)
            in if elapsed < ack_gap then Some c
               else do {
                 rtt \<leftarrow> rtt_update (elapsed - ack_gap) (c_rtt c);
                 Some (c\<lparr>c_rtt := rtt\<rparr>) }
      | _ \<Rightarrow> Some c)"

text \<open>What both kinds of acknowledgement do once the window is updated.\<close>

definition after_ack :: "u64 \<Rightarrow> instant \<Rightarrow> connection \<Rightarrow> connection option" where
  "after_ack newly_acked_bytes now c = do {
     let c = (if newly_acked_bytes > 0 then c\<lparr>c_congestion := on_ack newly_acked_bytes (c_congestion c)\<rparr> else c);
     let c = run_loss_detection now c;
     c \<leftarrow> (if newly_acked_bytes > 0 then do {
             let c = disarm TimerRetransmit c;
             rtt \<leftarrow> reset_backoff (c_rtt c);
             Some (c\<lparr>c_rtt := rtt\<rparr>) }
           else Some c);
     Some (update_retransmit_timer now c) }"

definition process_ack :: "ack_payload \<Rightarrow> instant \<Rightarrow> connection \<Rightarrow> connection option" where
  "process_ack ack now c =
     (case c_send_window c of
        None \<Rightarrow> Some c
      | Some send_window \<Rightarrow> do {
          let c = c\<lparr>c_remote_timestamp_ref := reconstruct_timestamp (received_ts ack) (c_remote_timestamp_ref c)\<rparr>;
          let reference = saturating_sub (sw_next_data_seq send_window) 1;
          let acked_seq = reconstruct_seq (seq_num ack) reference;
          if acked_seq \<ge> sw_next_data_seq send_window then Some c
          else do {
            let elapsed = timing_of acked_seq now send_window;
            let (newly_acked_bytes, send_window) = mark_received_through acked_seq send_window;
            let c = c\<lparr>c_send_window := Some send_window\<rparr>;
            c \<leftarrow> sample_rtt elapsed (Some (send_ack_time_gap ack)) c;
            c \<leftarrow> after_ack newly_acked_bytes now c;
            Some (retire_ack_of_acks acked_seq c) } })"

text \<open>The walk over an acknowledgement vector: the state is the cursor, the bytes newly
  acknowledged, the latest timing and the window.\<close>

definition ack_position ::
  "instant \<Rightarrow> bool \<Rightarrow> u64 \<times> u64 \<times> duration option \<times> send_window \<Rightarrow> u64 \<times> u64 \<times> duration option \<times> send_window" where
  "ack_position now received = (\<lambda>(current_seq, newly_acked_bytes, elapsed, send_window).
     if received then
       let elapsed = (case timing_of current_seq now send_window of None \<Rightarrow> elapsed | Some sample \<Rightarrow> Some sample);
           (size_opt, send_window) = mark_received current_seq send_window;
           newly_acked_bytes = (case size_opt of None \<Rightarrow> newly_acked_bytes | Some sz \<Rightarrow> u64_add newly_acked_bytes sz)
       in (u64_add current_seq 1, newly_acked_bytes, elapsed, send_window)
     else (u64_add current_seq 1, newly_acked_bytes, elapsed, send_window))"

fun entry_positions :: "ack_vector_entry \<Rightarrow> bool list" where
  "entry_positions (RunLength received len) = replicate (unat len) received"
| "entry_positions (StateMap bitmap) = map (\<lambda>bit_pos. drop_bit bit_pos bitmap AND 1 = 1) [0..<7]"

definition process_ack_vector :: "ack_vector_payload \<Rightarrow> instant \<Rightarrow> connection \<Rightarrow> connection option" where
  "process_ack_vector vec now c =
     (case c_send_window c of
        None \<Rightarrow> Some c
      | Some send_window \<Rightarrow> do {
          let reference = saturating_sub (sw_next_data_seq send_window) 1;
          let base = reconstruct_seq (base_seq_num vec) reference;
          let (current_seq, newly_acked_bytes, elapsed, send_window) =
            fold (ack_position now) (concat (map entry_positions (entries vec))) (base, 0, None, send_window);
          let c = c\<lparr>c_send_window := Some send_window\<rparr>;
          c \<leftarrow> sample_rtt elapsed (send_ack_time_gap_ms vec) c;
          c \<leftarrow> after_ack newly_acked_bytes now c;
          Some (retire_ack_of_acks base c) })"

section \<open>Data received\<close>

definition process_ack_of_acks :: "ack_of_acks_payload \<Rightarrow> connection \<Rightarrow> connection" where
  "process_ack_of_acks aoa c =
     (case c_recv_window c of
        None \<Rightarrow> c
      | Some recv_window \<Rightarrow>
          let new_base = reconstruct_seq (ack_of_acks_seq_num aoa) (rw_highest_seq recv_window)
          in c\<lparr>c_recv_window := Some (advance_base new_base recv_window)\<rparr>)"

definition ack_delay_timeout :: "connection \<Rightarrow> duration" where
  "ack_delay_timeout c =
     (case re_srtt (c_rtt c) of
        Some srtt \<Rightarrow> min (max (srtt div 2) (duration_from_millis 50)) (duration_from_millis 200)
      | None \<Rightarrow> duration_from_millis 50)"

definition schedule_ack :: "instant \<Rightarrow> connection \<Rightarrow> connection" where
  "schedule_ack now c =
     (let c = c\<lparr>c_ack_pending := True\<rparr>
      in if \<not> tt_is_set TimerAckDelay (c_timers c)
         then (arm TimerAckDelay (instant_add now (ack_delay_timeout c)) c)\<lparr>c_ack_delay_started_at := Some now\<rparr>
         else c)"

definition process_dummy_data :: "data_header \<Rightarrow> instant \<Rightarrow> connection \<Rightarrow> connection" where
  "process_dummy_data dh now c =
     (case c_recv_window c of
        None \<Rightarrow> c
      | Some recv_window \<Rightarrow>
          let data_seq = reconstruct_seq (data_seq_num dh) (rw_highest_seq recv_window);
              (is_new, recv_window) = receive_without_payload data_seq recv_window;
              c = c\<lparr>c_recv_window := Some recv_window\<rparr>
          in if \<not> is_new then c else schedule_ack now c)"

definition process_data :: "data_header \<Rightarrow> data_body \<Rightarrow> instant \<Rightarrow> connection \<Rightarrow> connection" where
  "process_data dh db now c =
     (case c_recv_window c of
        None \<Rightarrow> c
      | Some recv_window \<Rightarrow>
          let data_seq = reconstruct_seq (data_seq_num dh) (rw_highest_seq recv_window);
              channel_seq = reconstruct_seq (channel_seq_num db) (rw_next_channel_seq recv_window);
              (is_new, recv_window) = rw_receive data_seq channel_seq (body_data db) recv_window
          in if is_new then
               let (delivered, recv_window) = drain_ordered recv_window;
                   c = c\<lparr>c_recv_window := Some recv_window,
                         c_pending_events := c_pending_events c @ map DataReceived delivered\<rparr>
               in schedule_ack now c
             else c\<lparr>c_recv_window := Some recv_window\<rparr>)"

definition handle_v2_packet ::
  "bytes \<Rightarrow> instant \<Rightarrow> connection \<Rightarrow> ((rdpeudp_error + unit) \<times> connection) option" where
  "handle_v2_packet wire now c =
     (case decode_with_prefix wire of
        Inl e \<Rightarrow> Some (Inl (ErrPrefix e), c)
      | Inr (prefix, packet_bytes) \<Rightarrow> do {
          decoded \<leftarrow> unwind (decode decode_v2_packet packet_bytes);
          case decoded of
            Inl e \<Rightarrow> Some (Inl (ErrDecode e), c)
          | Inr packet \<Rightarrow> do {
              let c = c\<lparr>c_send_window := map_option (set_peer_window (log_window_size (v2_hdr packet))) (c_send_window c)\<rparr>;
              c \<leftarrow> (case v2_ack packet of None \<Rightarrow> Some c | Some ack \<Rightarrow> process_ack ack now c);
              c \<leftarrow> (case v2_ack_vector packet of None \<Rightarrow> Some c | Some vec \<Rightarrow> process_ack_vector vec now c);
              let c = (case v2_ack_of_acks packet of None \<Rightarrow> c | Some aoa \<Rightarrow> process_ack_of_acks aoa c);
              let c = (case (v2_data_header packet, v2_data_body packet) of
                 (Some dh, Some db) \<Rightarrow>
                   if is_dummy prefix then process_dummy_data dh now c else process_data dh db now c
               | _ \<Rightarrow> c);
              Some (Inr (), c) } })"

section \<open>Acknowledgements and packets sent\<close>

definition timestamp_units :: "instant \<Rightarrow> u64" where
  "timestamp_units i = us_to_timestamp_units (u64_mul i 1000)"

text \<open>\<open>u8::try_from(..).unwrap_or(fallback)\<close> of a number of milliseconds.\<close>

definition millis_u8 :: "nat \<Rightarrow> u8 \<Rightarrow> u8" where
  "millis_u8 ms fallback = (if ms < 256 then of_nat ms else fallback)"

definition received_at :: "instant \<Rightarrow> connection \<Rightarrow> instant" where
  "received_at now c = (case c_ack_delay_started_at c of None \<Rightarrow> now | Some i \<Rightarrow> i)"

definition build_ack_payload :: "recv_window \<Rightarrow> instant \<Rightarrow> connection \<Rightarrow> ack_payload" where
  "build_ack_payload recv_window now c =
     \<lparr>seq_num = truncate_seq (rw_highest_seq recv_window),
      received_ts = truncate_timestamp (timestamp_units (received_at now c)),
      send_ack_time_gap = millis_u8 (as_millis (duration_since now (received_at now c))) 255,
      delay_ack_time_scale = 0, delay_ack_time_additions = []\<rparr>"

text \<open>The \<open>while\<close> loop that cuts a run into entries of at most 63, and the labelled loop over
  the runs; the flag says whether \<open>break 'runs\<close> was taken.\<close>

function split_run :: "bool \<Rightarrow> u64 \<Rightarrow> ack_vector_entry list \<Rightarrow> bool \<times> ack_vector_entry list" where
  "split_run received remaining es =
     (if remaining > 0 then
        if length es \<ge> ACK_VECTOR_MAX_ENTRIES then (True, es)
        else let chunk = min remaining 63
             in split_run received (remaining - chunk) (es @ [RunLength received (of_nat chunk)])
      else (False, es))"
  by auto
termination by (relation "measure (\<lambda>(_, remaining, _). remaining)") auto

declare split_run.simps [simp del]

fun split_runs :: "(bool \<times> u64) list \<Rightarrow> ack_vector_entry list \<Rightarrow> ack_vector_entry list" where
  "split_runs [] es = es"
| "split_runs ((received, count) # runs) es =
     (let (broke, es) = split_run received count es in if broke then es else split_runs runs es)"

definition build_ack_vector_payload :: "recv_window \<Rightarrow> instant \<Rightarrow> connection \<Rightarrow> ack_vector_payload" where
  "build_ack_vector_payload recv_window now c =
     \<lparr>base_seq_num = truncate_seq (rw_base_seq recv_window),
      timestamp = Some (truncate_timestamp (timestamp_units (received_at now c))),
      send_ack_time_gap_ms = Some (min (millis_u8 (as_millis (duration_since now (received_at now c))) 254) 254),
      entries = split_runs (ack_vector recv_window) []\<rparr>"

definition build_acknowledgement :: "instant \<Rightarrow> connection \<Rightarrow> acknowledgement option" where
  "build_acknowledgement now c =
     (case c_recv_window c of
        None \<Rightarrow> None
      | Some recv_window \<Rightarrow>
          Some (if has_gaps recv_window
                then \<lparr>an_flag = V2_ACKVEC, an_ack = None,
                      an_ack_vector = Some (build_ack_vector_payload recv_window now c)\<rparr>
                else \<lparr>an_flag = V2_ACK, an_ack = Some (build_ack_payload recv_window now c),
                      an_ack_vector = None\<rparr>))"

definition commit_acknowledgement :: "connection \<Rightarrow> connection" where
  "commit_acknowledgement c =
     c\<lparr>c_recv_window := map_option (\<lambda>w. snd (release_acknowledged w)) (c_recv_window c),
       c_ack_delay_started_at := None\<rparr>"

definition frame_v2_packet :: "v2_packet \<Rightarrow> connection \<Rightarrow> (bytes option \<times> connection) option" where
  "frame_v2_packet packet c = do {
     encoded \<leftarrow> unwind (encode_vec v2_packet_size encode_v2_packet packet);
     case encoded of
       Inl _ \<Rightarrow> Some (None, c)
     | Inr packet_bytes \<Rightarrow>
         (case encode_with_prefix packet_bytes False of
            Inl _ \<Rightarrow> Some (None, c)
          | Inr wire \<Rightarrow> Some (Some wire, c\<lparr>c_wire_buf := wire\<rparr>)) }"

text \<open>The packet both builders assemble: the acknowledgement, the AckOfAcks if one is
  advertised, and the data if any.\<close>

definition assemble_packet ::
  "u8 \<Rightarrow> u16 \<Rightarrow> acknowledgement option \<Rightarrow> u64 option \<Rightarrow> (u64 \<times> u64 \<times> bytes) option \<Rightarrow> v2_packet" where
  "assemble_packet lws base_flags an aoa payload =
     (let flags = base_flags OR (case an of None \<Rightarrow> 0 | Some a \<Rightarrow> an_flag a);
          flags = (if aoa \<noteq> None then flags OR V2_AOA else flags)
      in \<lparr>v2_hdr = \<lparr>v2_flags = flags, log_window_size = lws\<rparr>,
          v2_ack = Option.bind an an_ack, v2_overhead_size = None, v2_delay_ack_info = None,
          v2_ack_of_acks = map_option (\<lambda>sq. \<lparr>ack_of_acks_seq_num = truncate_seq sq\<rparr>) aoa,
          v2_data_header = map_option (\<lambda>(data_seq, _, _). \<lparr>data_seq_num = truncate_seq data_seq\<rparr>) payload,
          v2_ack_vector = Option.bind an an_ack_vector,
          v2_data_body = map_option (\<lambda>(_, channel_seq, data).
             \<lparr>channel_seq_num = truncate_seq channel_seq, body_data = data\<rparr>) payload\<rparr>)"

definition build_data_packet ::
  "u64 \<Rightarrow> u64 \<Rightarrow> bytes \<Rightarrow> instant \<Rightarrow> connection \<Rightarrow> (bytes option \<times> connection) option" where
  "build_data_packet data_seq channel_seq data now c =
     (case c_params c of
        None \<Rightarrow> Some (None, c)
      | Some params \<Rightarrow> do {
          let an = (if c_ack_pending c then build_acknowledgement now c else None);
          let packet = assemble_packet (np_log_window_size params) V2_DATA an (c_pending_ack_of_acks c)
                         (Some (data_seq, channel_seq, data));
          (transmit, c) \<leftarrow> frame_v2_packet packet c;
          case transmit of
            None \<Rightarrow> Some (None, c)
          | Some wire \<Rightarrow>
              if an \<noteq> None
              then Some (Some wire, commit_acknowledgement (disarm TimerAckDelay (c\<lparr>c_ack_pending := False\<rparr>)))
              else Some (Some wire, c) })"

definition build_standalone_ack :: "instant \<Rightarrow> connection \<Rightarrow> (bytes option \<times> connection) option" where
  "build_standalone_ack now c =
     (case c_params c of
        None \<Rightarrow> Some (None, c)
      | Some params \<Rightarrow>
          (case build_acknowledgement now c of
             None \<Rightarrow> Some (None, c)
           | Some an \<Rightarrow> do {
               let packet = assemble_packet (np_log_window_size params) 0 (Some an) (c_pending_ack_of_acks c) None;
               (transmit, c) \<leftarrow> frame_v2_packet packet c;
               case transmit of
                 None \<Rightarrow> Some (None, c)
               | Some wire \<Rightarrow> Some (Some wire, commit_acknowledgement c) }))"

definition try_retransmit :: "instant \<Rightarrow> connection \<Rightarrow> (bytes option \<times> connection) option" where
  "try_retransmit now c =
     (if \<not> rel_has_pending (c_reliability c) then Some (None, c)
      else case c_send_window c of
        None \<Rightarrow> Some (None, c)
      | Some send_window \<Rightarrow>
          if sw_bytes_in_flight send_window \<ge> cc_window (c_congestion c) then Some (None, c)
          else if \<not> has_capacity send_window then Some (None, c)
          else
            let (dequeued, reliability) = rel_dequeue (c_reliability c);
                c = c\<lparr>c_reliability := reliability\<rparr>
            in (case dequeued of
                 None \<Rightarrow> Some (None, c)
               | Some entry \<Rightarrow>
                   let (pushed, send_window) =
                         push_retransmit (rt_channel_seq entry) (rt_data entry) now send_window;
                       c = c\<lparr>c_send_window := Some send_window\<rparr>
                   in (case pushed of
                        None \<Rightarrow> Some (None, c)
                      | Some new_data_seq \<Rightarrow> do {
                          (transmit, c) \<leftarrow> build_data_packet new_data_seq (rt_channel_seq entry) (rt_data entry) now c;
                          if transmit \<noteq> None
                          then Some (transmit,
                            arm TimerRetransmit (instant_add now (re_rto (c_rtt c)))
                              (c\<lparr>c_stats := (c_stats c)\<lparr>st_retransmits := u64_add (st_retransmits (c_stats c)) 1\<rparr>\<rparr>))
                          else Some (transmit, c) })))"

definition try_send_new_data :: "instant \<Rightarrow> connection \<Rightarrow> (bytes option \<times> connection) option" where
  "try_send_new_data now c =
     (case c_send_buffer c of
        [] \<Rightarrow> Some (None, c)
      | data # rest \<Rightarrow>
          (case c_send_window c of
             None \<Rightarrow> Some (None, c)
           | Some send_window \<Rightarrow>
               if sw_bytes_in_flight send_window \<ge> cc_window (c_congestion c) then Some (None, c)
               else if \<not> has_capacity send_window then Some (None, c)
               else
                 let c = c\<lparr>c_send_buffer := rest\<rparr>;
                     (pushed, send_window) = sw_push data now send_window;
                     c = c\<lparr>c_send_window := Some send_window\<rparr>
                 in (case pushed of
                      None \<Rightarrow> Some (None, c)
                    | Some (data_seq, channel_seq) \<Rightarrow> do {
                        (transmit, c) \<leftarrow> build_data_packet data_seq channel_seq data now c;
                        if transmit \<noteq> None
                        then
                          let c = c\<lparr>c_stats := (c_stats c)\<lparr>st_data_sent := u64_add (st_data_sent (c_stats c)) 1\<rparr>\<rparr>
                          in Some (transmit,
                               if \<not> tt_is_set TimerRetransmit (c_timers c)
                               then arm TimerRetransmit (instant_add now (re_rto (c_rtt c))) c else c)
                        else Some (transmit, c) })))"

section \<open>Timer handlers\<close>

definition retransmit_handshake :: "instant \<Rightarrow> connection \<Rightarrow> connection" where
  "retransmit_handshake now c =
     (if c_handshake_datagram c = None then c
      else if c_handshake_retransmits c \<ge> HANDSHAKE_RETRANSMIT_LIMIT then close c
      else
        let c = c\<lparr>c_handshake_retransmits := c_handshake_retransmits c + 1\<rparr>;
            c = resend_handshake_datagram c
        in arm TimerRetransmit (instant_add now (re_rto (c_rtt c))) c)"

definition handle_retransmit_timeout :: "instant \<Rightarrow> connection \<Rightarrow> connection option" where
  "handle_retransmit_timeout now c = do {
     let c = disarm TimerRetransmit c;
     let c = c\<lparr>c_stats := (c_stats c)\<lparr>st_retransmit_timeouts := u64_add (st_retransmit_timeouts (c_stats c)) 1\<rparr>\<rparr>;
     if c_state c \<noteq> Established then do {
       rtt \<leftarrow> on_timeout (c_rtt c);
       Some (retransmit_handshake now (c\<lparr>c_rtt := rtt\<rparr>)) }
     else do {
       let c = declare_overdue_lost now c;
       rtt \<leftarrow> on_timeout (c_rtt c);
       Some (update_retransmit_timer now (c\<lparr>c_rtt := rtt\<rparr>)) } }"

definition handle_ack_delay_timeout :: "connection \<Rightarrow> connection" where
  "handle_ack_delay_timeout c = (disarm TimerAckDelay c)\<lparr>c_ack_pending := True\<rparr>"

definition handle_idle_timeout :: "connection \<Rightarrow> connection" where
  "handle_idle_timeout c = close c"

definition handle_keep_alive_timeout :: "instant \<Rightarrow> connection \<Rightarrow> connection" where
  "handle_keep_alive_timeout now c =
     (let c = disarm TimerKeepAlive c;
          c = c\<lparr>c_ack_pending := True\<rparr>
      in arm TimerKeepAlive (instant_add now (cf_keep_alive_interval (c_config c))) c)"

fun handle_timer :: "instant \<Rightarrow> timer \<Rightarrow> connection \<Rightarrow> connection option" where
  "handle_timer now TimerRetransmit c = handle_retransmit_timeout now c"
| "handle_timer now TimerAckDelay c = Some (handle_ack_delay_timeout c)"
| "handle_timer now TimerIdle c = Some (handle_idle_timeout c)"
| "handle_timer now TimerKeepAlive c = Some (handle_keep_alive_timeout now c)"

fun handle_timers :: "instant \<Rightarrow> timer list \<Rightarrow> connection \<Rightarrow> connection option" where
  "handle_timers now [] c = Some c"
| "handle_timers now (t # ts) c =
     (if c_state c = Closed then Some c else Option.bind (handle_timer now t c) (handle_timers now ts))"

section \<open>The public API\<close>

definition max_payload :: "connection \<Rightarrow> usize" where
  "max_payload c =
     (let mtu = (case c_params c of None \<Rightarrow> RDPEUDP2_MTU | Some params \<Rightarrow> min (unat (np_mtu params)) RDPEUDP2_MTU)
      in max (saturating_sub mtu (DATA_PACKET_OVERHEAD + PIGGYBACK_RESERVE)) 1)"

text \<open>\<open>slice::chunks\<close> for a positive chunk size.\<close>

function chunks :: "usize \<Rightarrow> bytes \<Rightarrow> bytes list" where
  "chunks n data = (if data = [] \<or> n = 0 then [] else take n data # chunks n (drop n data))"
  by auto
termination by (relation "measure (\<lambda>(n, data). length data)") (auto simp: length_greater_0_conv)

declare chunks.simps [simp del]

definition div_ceil :: "usize \<Rightarrow> usize \<Rightarrow> usize" where
  "div_ceil a b = (a + b - 1) div b"

definition send_buffer_limit :: "connection \<Rightarrow> usize" where
  "send_buffer_limit c = SEND_BUFFER_WINDOW_MULTIPLE * 2 ^ (unat (cf_log_window_size (c_config c)) mod 64)"

definition send :: "bytes \<Rightarrow> connection \<Rightarrow> (rdpeudp_error \<times> bytes + unit) \<times> connection" where
  "send data c =
     (case c_state c of
        Closed \<Rightarrow> (Inl (ErrConnectionClosed, data), c)
      | SynSent \<Rightarrow> (Inl (ErrInvalidState, data), c)
      | SynReceived \<Rightarrow> (Inl (ErrInvalidState, data), c)
      | Established \<Rightarrow>
          let max_payload = max_payload c;
              chunks_needed = max (div_ceil (length data) max_payload) 1
          in if length (c_send_buffer c) + chunks_needed > send_buffer_limit c
             then (Inl (ErrSendBufferFull, data), c)
             else if length data \<le> max_payload
             then (Inr (), c\<lparr>c_send_buffer := c_send_buffer c @ [data]\<rparr>)
             else (Inr (), c\<lparr>c_send_buffer := c_send_buffer c @ chunks max_payload data\<rparr>))"

definition handle_datagram ::
  "bytes \<Rightarrow> instant \<Rightarrow> connection \<Rightarrow> ((rdpeudp_error + unit) \<times> connection) option" where
  "handle_datagram wire now c =
     (let c = c\<lparr>c_stats := (c_stats c)\<lparr>st_datagrams_in := u64_add (st_datagrams_in (c_stats c)) 1\<rparr>\<rparr> in
      if c_state c = Closed then Some (Inl ErrConnectionClosed, c)
      else
        let c = arm TimerIdle (instant_add now (cf_idle_timeout (c_config c))) c in
        (case c_state c of
           SynSent \<Rightarrow> handle_syn_ack wire now c
         | SynReceived \<Rightarrow> do {
             (handled, c) \<leftarrow> handle_final_ack wire now c;
             if handled then Some (Inr (), c)
             else do {
               c \<leftarrow> transition_to_established now c;
               handle_v2_packet wire now c } }
         | Established \<Rightarrow> do {
             repeated \<leftarrow> is_repeated_syn_ack wire c;
             if repeated then Some (Inr (), resend_handshake_datagram c)
             else handle_v2_packet wire now c }
         | Closed \<Rightarrow> Some (Inl ErrConnectionClosed, c)))"

text \<open>What follows every packet handed out: the keep-alive interval starts again.\<close>

definition rearm_keep_alive :: "instant \<Rightarrow> connection \<Rightarrow> connection" where
  "rearm_keep_alive now c = arm TimerKeepAlive (instant_add now (cf_keep_alive_interval (c_config c))) c"

definition poll_transmit_inner :: "instant \<Rightarrow> connection \<Rightarrow> (bytes option \<times> connection) option" where
  "poll_transmit_inner now c =
     (if c_state c = Closed then Some (None, c)
      else case c_pending_transmits c of
        t # rest \<Rightarrow> Some (Some t, rearm_keep_alive now (c\<lparr>c_pending_transmits := rest\<rparr>))
      | [] \<Rightarrow>
          if c_state c \<noteq> Established then Some (None, c)
          else do {
            (transmit, c) \<leftarrow> try_retransmit now c;
            if transmit \<noteq> None then Some (transmit, rearm_keep_alive now c)
            else do {
              (transmit, c) \<leftarrow> try_send_new_data now c;
              if transmit \<noteq> None then Some (transmit, rearm_keep_alive now c)
              else if c_ack_pending c then do {
                (transmit, c) \<leftarrow> build_standalone_ack now c;
                if transmit \<noteq> None
                then Some (transmit, rearm_keep_alive now (disarm TimerAckDelay (c\<lparr>c_ack_pending := False\<rparr>)))
                else Some (None, c) }
              else Some (None, c) } })"

definition poll_transmit :: "instant \<Rightarrow> connection \<Rightarrow> (bytes option \<times> connection) option" where
  "poll_transmit now c = do {
     (transmit, c) \<leftarrow> poll_transmit_inner now c;
     Some (transmit,
       if transmit \<noteq> None
       then c\<lparr>c_stats := (c_stats c)\<lparr>st_datagrams_out := u64_add (st_datagrams_out (c_stats c)) 1\<rparr>\<rparr> else c) }"

definition conn_stats :: "connection \<Rightarrow> stats" where
  "conn_stats c =
     (c_stats c)\<lparr>st_bytes_in_flight := (case c_send_window c of None \<Rightarrow> 0 | Some w \<Rightarrow> sw_bytes_in_flight w),
       st_congestion_window := cc_window (c_congestion c),
       st_send_queue := length (c_send_buffer c),
       st_rto_ms := min (as_millis (re_rto (c_rtt c))) (2 ^ 64 - 1),
       st_srtt_ms := map_option (\<lambda>srtt. min (as_millis srtt) (2 ^ 64 - 1)) (re_srtt (c_rtt c))\<rparr>"

definition poll_timeout :: "connection \<Rightarrow> instant option" where
  "poll_timeout c = next_deadline (c_timers c)"

definition handle_timeout :: "instant \<Rightarrow> connection \<Rightarrow> connection option" where
  "handle_timeout now c =
     (if c_state c = Closed then Some c else handle_timers now (expired now (c_timers c)) c)"

definition poll_event :: "connection \<Rightarrow> event option \<times> connection" where
  "poll_event c =
     (case c_pending_events c of
        [] \<Rightarrow> (None, c)
      | e # es \<Rightarrow> (Some e, c\<lparr>c_pending_events := es\<rparr>))"

definition is_established :: "connection \<Rightarrow> bool" where
  "is_established c \<longleftrightarrow> c_state c = Established"

definition is_closed :: "connection \<Rightarrow> bool" where
  "is_closed c \<longleftrightarrow> c_state c = Closed"

definition conn_mtu :: "connection \<Rightarrow> u16 option" where
  "conn_mtu c = map_option np_mtu (c_params c)"

section \<open>Calls\<close>

text \<open>A call of the API as a step of the state machine; \<open>None\<close> is a panic.\<close>

datatype conn_call =
    CallSend bytes
  | CallDatagram bytes instant
  | CallTransmit instant
  | CallTimeout instant
  | CallEvent
  | CallClose

fun conn_step :: "conn_call \<Rightarrow> connection \<Rightarrow> connection option" where
  "conn_step (CallSend data) c = Some (snd (send data c))"
| "conn_step (CallDatagram wire now) c = map_option snd (handle_datagram wire now c)"
| "conn_step (CallTransmit now) c = map_option snd (poll_transmit now c)"
| "conn_step (CallTimeout now) c = handle_timeout now c"
| "conn_step CallEvent c = Some (snd (poll_event c))"
| "conn_step CallClose c = Some (close c)"

fun conn_run :: "conn_call list \<Rightarrow> connection \<Rightarrow> connection option" where
  "conn_run [] c = Some c"
| "conn_run (call # calls) c = Option.bind (conn_step call c) (conn_run calls)"

end
