(* ===== verification/Lifecycle.thy ===== *)
theory Lifecycle
  imports Data_Transfer
begin

text \<open>
  The life of a connection: no call panics, whatever the peer sends; the state only moves
  along the handshake and then to \<open>Closed\<close>; a closed connection has no timer left; an
  established one has its windows and parameters.

  The proofs use a small calculus for functions that can panic: \<open>safely P r\<close> says that \<open>r\<close>
  is not a panic and its value satisfies \<open>P\<close>; \<open>safely_intros\<close> takes a handler apart along
  its \<open>do\<close> block. \<open>keeps c c'\<close> is what every handler below the level of the state machine
  guarantees: the state, the parameters and the presence of the windows are unchanged and
  the components are still well-formed.
\<close>

section \<open>Functions that can panic\<close>

definition safely :: "('a \<Rightarrow> bool) \<Rightarrow> 'a option \<Rightarrow> bool" where
  "safely P r = (case r of None \<Rightarrow> False | Some x \<Rightarrow> P x)"

lemma safely_Some [simp]: "safely P (Some x) = P x"
  by (simp add: safely_def)

lemma safely_None [simp]: "\<not> safely P None"
  by (simp add: safely_def)

lemma safely_bind: "safely Q m \<Longrightarrow> (\<And>x. Q x \<Longrightarrow> safely P (f x)) \<Longrightarrow> safely P (Option.bind m f)"
  by (cases m) simp_all

lemma safely_mono: "safely Q m \<Longrightarrow> (\<And>x. Q x \<Longrightarrow> P x) \<Longrightarrow> safely P m"
  by (cases m) simp_all

lemma safely_map: "safely (\<lambda>x. P (f x)) m \<Longrightarrow> safely P (map_option f m)"
  by (cases m) simp_all

lemma safelyE:
  assumes "safely P m"
  obtains x where "m = Some x" "P x"
  using assms by (cases m) auto

lemma unwind_safely:
  assumes "r \<noteq> Inl Panic"
  shows "unwind r = Some r"
  using assms by (auto simp: unwind_def split: sum.splits codec_error.splits)

section \<open>What every handler keeps\<close>

definition parts_ok :: "connection \<Rightarrow> bool" where
  "parts_ok c \<longleftrightarrow> tt_ok (c_timers c) \<and> rtt_ok (c_rtt c) \<and> c_handshake_retransmits c \<le> HANDSHAKE_RETRANSMIT_LIMIT \<and>
     pred_option (\<lambda>p. np_log_window_size p \<le> LOG_WINDOW_SIZE_MAX) (c_params c)"

definition keeps :: "connection \<Rightarrow> connection \<Rightarrow> bool" where
  "keeps c c' \<longleftrightarrow> parts_ok c' \<and> c_side c' = c_side c \<and> c_state c' = c_state c \<and> c_config c' = c_config c \<and>
     c_params c' = c_params c \<and> (c_send_window c' = None \<longleftrightarrow> c_send_window c = None) \<and>
     (c_recv_window c' = None \<longleftrightarrow> c_recv_window c = None)"

lemma keeps_refl: "parts_ok c \<Longrightarrow> keeps c c"
  by (simp add: keeps_def)

lemma keeps_trans: "keeps c c' \<Longrightarrow> keeps c' c'' \<Longrightarrow> keeps c c''"
  by (simp add: keeps_def)

lemma keeps_parts: "keeps c c' \<Longrightarrow> parts_ok c'"
  by (simp add: keeps_def)

lemma keeps_bind:
  assumes "safely (keeps c) m" "\<And>x. keeps c x \<Longrightarrow> safely (keeps x) (f x)"
  shows "safely (keeps c) (Option.bind m f)"
  using assms by (blast intro: safely_bind safely_mono keeps_trans)

lemma fold_keeps:
  "(\<And>x c. parts_ok c \<Longrightarrow> keeps c (f x c)) \<Longrightarrow> parts_ok c \<Longrightarrow> keeps c (fold f xs c)"
proof (induction xs arbitrary: c)
  case (Cons x xs)
  have first: "keeps c (f x c)" using Cons.prems by blast
  moreover have "keeps (f x c) (fold f xs (f x c))"
    using Cons.IH [OF Cons.prems(1)] keeps_parts [OF first] by blast
  ultimately show ?case by (auto intro: keeps_trans)
qed (simp add: keeps_refl)

lemma declare_lost_keeps: "parts_ok c \<Longrightarrow> keeps c (declare_lost d c)"
  by (auto simp: declare_lost_def keeps_def parts_ok_def Let_def split: option.splits prod.splits)

lemma run_loss_detection_keeps: "parts_ok c \<Longrightarrow> keeps c (run_loss_detection now c)"
  by (auto simp: run_loss_detection_def Let_def intro: fold_keeps declare_lost_keeps keeps_refl split: option.splits)

lemma declare_overdue_lost_keeps: "parts_ok c \<Longrightarrow> keeps c (declare_overdue_lost now c)"
  by (auto simp: declare_overdue_lost_def declare_oldest_pending_lost_def Let_def
      intro: fold_keeps declare_lost_keeps keeps_refl split: option.splits)

lemma retire_ack_of_acks_keeps: "parts_ok c \<Longrightarrow> keeps c (retire_ack_of_acks d c)"
  by (simp add: retire_ack_of_acks_def keeps_def parts_ok_def)

lemma update_retransmit_timer_keeps: "parts_ok c \<Longrightarrow> keeps c (update_retransmit_timer now c)"
  by (auto simp: update_retransmit_timer_def keeps_def parts_ok_def Let_def timer_laws split: option.splits)

lemma sample_limit: "now < 2 ^ 64 \<Longrightarrow> duration_since now sent - gap < SAMPLE_LIMIT"
  by (simp add: duration_since_def duration_from_millis_def saturating_sub_def)

lemma rtt_update_keeps:
  assumes "parts_ok c" "rtt < SAMPLE_LIMIT"
  shows "safely (\<lambda>est. keeps c (c\<lparr>c_rtt := est\<rparr>)) (rtt_update rtt (c_rtt c))"
proof -
  have "rtt_ok (c_rtt c)" using assms(1) by (simp add: parts_ok_def)
  then obtain est where "rtt_update rtt (c_rtt c) = Some est" "rtt_ok est"
    by (rule rtt_update_ok [OF _ assms(2)]) blast
  with assms(1) show ?thesis by (simp add: keeps_def parts_ok_def)
qed

lemma reset_backoff_keeps:
  assumes "parts_ok c"
  shows "safely (\<lambda>est. keeps c (c\<lparr>c_rtt := est\<rparr>)) (reset_backoff (c_rtt c))"
proof -
  have "rtt_ok (c_rtt c)" using assms(1) by (simp add: parts_ok_def)
  then obtain est where "reset_backoff (c_rtt c) = Some est" "rtt_ok est"
    by (rule reset_backoff_ok) blast
  with assms(1) show ?thesis by (simp add: keeps_def parts_ok_def)
qed

lemma on_timeout_keeps:
  assumes "parts_ok c"
  shows "safely (\<lambda>est. keeps c (c\<lparr>c_rtt := est\<rparr>)) (on_timeout (c_rtt c))"
  using assms by (simp add: on_timeout_ok on_timeout_rtt_ok keeps_def parts_ok_def)

lemma timing_of_limit:
  "timing_of d now w = Some elapsed \<Longrightarrow> now < 2 ^ 64 \<Longrightarrow> elapsed < SAMPLE_LIMIT"
  using sample_limit [of now _ 0] by (auto simp: timing_of_def split: option.splits if_splits)

lemma sample_rtt_keeps:
  assumes "parts_ok c" "\<And>e. elapsed = Some e \<Longrightarrow> e < SAMPLE_LIMIT"
  shows "safely (keeps c) (sample_rtt elapsed gap c)"
proof -
  have "safely (keeps c) (Option.bind (rtt_update (e - g) (c_rtt c)) (\<lambda>rtt. Some (c\<lparr>c_rtt := rtt\<rparr>)))"
    if "elapsed = Some e" for e g
    using rtt_update_keeps [OF assms(1), of "e - g"] assms(2) [OF that]
    by (auto intro!: safely_bind)
  with assms(1) show ?thesis
    by (auto simp: sample_rtt_def Let_def keeps_refl split: option.splits)
qed

lemma keeps_timer: "parts_ok c \<Longrightarrow> keeps c (arm t d c)" "parts_ok c \<Longrightarrow> keeps c (disarm t c)"
  by (simp_all add: keeps_def parts_ok_def timer_laws)

lemma after_ack_keeps:
  assumes "parts_ok c"
  shows "safely (keeps c) (after_ack n now c)"
proof -
  define grown where "grown = (if n > 0 then c\<lparr>c_congestion := on_ack n (c_congestion c)\<rparr> else c)"
  define checked where "checked = run_loss_detection now grown"
  have "keeps c grown" using assms by (simp add: grown_def keeps_def parts_ok_def)
  then have checked: "keeps c checked"
    unfolding checked_def by (blast intro: keeps_trans run_loss_detection_keeps keeps_parts)
  have cleared: "keeps c (disarm TimerRetransmit checked)"
    by (rule keeps_trans [OF checked keeps_timer(2) [OF keeps_parts [OF checked]]])
  have "safely (keeps c) (if n > 0 then
      Option.bind (reset_backoff (c_rtt (disarm TimerRetransmit checked)))
        (\<lambda>rtt. Some ((disarm TimerRetransmit checked)\<lparr>c_rtt := rtt\<rparr>)) else Some checked)"
  proof (cases "n > 0")
    case True
    show ?thesis unfolding if_P [OF True]
      by (rule safely_bind [OF reset_backoff_keeps [OF keeps_parts [OF cleared]]])
        (use cleared in \<open>auto intro: keeps_trans\<close>)
  next
    case False
    with checked show ?thesis by simp
  qed
  then have "safely (keeps c) (Option.bind (if n > 0 then
      Option.bind (reset_backoff (c_rtt (disarm TimerRetransmit checked)))
        (\<lambda>rtt. Some ((disarm TimerRetransmit checked)\<lparr>c_rtt := rtt\<rparr>)) else Some checked)
      (\<lambda>c. Some (update_retransmit_timer now c)))"
    by (rule keeps_bind) (simp add: update_retransmit_timer_keeps keeps_parts)
  then show ?thesis unfolding after_ack_def Let_def checked_def grown_def .
qed

section \<open>Packets\<close>

lemma keeps_finish:
  assumes "safely (keeps c) m" "\<And>x. keeps c x \<Longrightarrow> keeps x (f x)"
  shows "safely (keeps c) (Option.bind m (\<lambda>x. Some (f x)))"
  by (rule keeps_bind [OF assms(1)]) (simp add: assms(2))

lemma ack_chain_keeps:
  assumes "keeps c d" "\<And>e. elapsed = Some e \<Longrightarrow> e < SAMPLE_LIMIT"
  shows "safely (keeps c) (Option.bind (sample_rtt elapsed gap d)
    (\<lambda>c. Option.bind (after_ack n now c) (\<lambda>c. Some (retire_ack_of_acks s c))))"
proof -
  have "safely (keeps d) (sample_rtt elapsed gap d)"
    by (rule sample_rtt_keeps [OF keeps_parts [OF assms(1)] assms(2)])
  then have "safely (keeps d) (Option.bind (sample_rtt elapsed gap d)
    (\<lambda>c. Option.bind (after_ack n now c) (\<lambda>c. Some (retire_ack_of_acks s c))))"
    by (rule keeps_bind) (intro keeps_finish after_ack_keeps retire_ack_of_acks_keeps, auto dest: keeps_parts)
  with assms(1) show ?thesis by (blast intro: safely_mono keeps_trans)
qed

lemma process_ack_keeps:
  assumes "parts_ok c" "now < 2 ^ 64"
  shows "safely (keeps c) (process_ack ack now c)"
proof (cases "c_send_window c")
  case None
  with assms show ?thesis by (simp add: process_ack_def keeps_refl)
next
  case (Some w)
  define d where "d = c\<lparr>c_remote_timestamp_ref := reconstruct_timestamp (received_ts ack) (c_remote_timestamp_ref c)\<rparr>"
  define acked where "acked = reconstruct_seq (seq_num ack) (saturating_sub (sw_next_data_seq w) 1)"
  have d: "keeps c d" using assms(1) by (simp add: d_def keeps_def parts_ok_def)
  have "keeps c (d\<lparr>c_send_window := Some w'\<rparr>)" for w'
    using assms(1) Some by (simp add: d_def keeps_def parts_ok_def)
  then have "safely (keeps c) (Option.bind (sample_rtt (timing_of acked now w) gap (d\<lparr>c_send_window := Some w'\<rparr>))
    (\<lambda>c. Option.bind (after_ack n now c) (\<lambda>c. Some (retire_ack_of_acks acked c))))" for gap w' n
    by (rule ack_chain_keeps) (rule timing_of_limit [OF _ assms(2)])
  with Some d show ?thesis
    by (simp add: process_ack_def Let_def d_def acked_def split: prod.splits)
qed

lemma ack_position_limit:
  assumes "now < 2 ^ 64" "pred_option (\<lambda>e. e < SAMPLE_LIMIT) (fst (snd (snd s)))"
  shows "pred_option (\<lambda>e. e < SAMPLE_LIMIT) (fst (snd (snd (ack_position now r s))))"
  using assms timing_of_limit [of _ now]
  by (auto simp: ack_position_def Let_def pred_option_def split: prod.splits option.splits)

lemma ack_positions_limit:
  assumes "now < 2 ^ 64" "pred_option (\<lambda>e. e < SAMPLE_LIMIT) (fst (snd (snd s)))"
  shows "pred_option (\<lambda>e. e < SAMPLE_LIMIT) (fst (snd (snd (fold (ack_position now) rs s))))"
  using assms(2)
proof (induction rs arbitrary: s)
  case (Cons r rs)
  show ?case using Cons.IH [OF ack_position_limit [OF assms(1) Cons.prems, of r]] by simp
qed simp

lemma process_ack_vector_keeps:
  assumes "parts_ok c" "now < 2 ^ 64"
  shows "safely (keeps c) (process_ack_vector vec now c)"
proof (cases "c_send_window c")
  case None
  with assms show ?thesis by (simp add: process_ack_vector_def keeps_refl)
next
  case (Some w)
  let ?base = "reconstruct_seq (base_seq_num vec) (saturating_sub (sw_next_data_seq w) 1)"
  obtain cur n elapsed w' where walk:
    "fold (ack_position now) (concat (map entry_positions (entries vec))) (?base, 0, None, w) = (cur, n, elapsed, w')"
    by (metis prod_cases4)
  have "pred_option (\<lambda>e. e < SAMPLE_LIMIT)
    (fst (snd (snd (fold (ack_position now) (concat (map entry_positions (entries vec))) (?base, 0, None, w)))))"
    by (rule ack_positions_limit [OF assms(2)]) simp
  then have limit: "e < SAMPLE_LIMIT" if "elapsed = Some e" for e
    using that unfolding walk by simp
  have "keeps c (c\<lparr>c_send_window := Some w'\<rparr>)" using assms(1) Some by (simp add: keeps_def parts_ok_def)
  from ack_chain_keeps [OF this limit] Some walk show ?thesis by (simp add: process_ack_vector_def Let_def)
qed

lemma schedule_ack_keeps: "parts_ok c \<Longrightarrow> keeps c (schedule_ack now c)"
  by (simp add: schedule_ack_def Let_def keeps_def parts_ok_def timer_laws)

lemma process_ack_of_acks_keeps: "parts_ok c \<Longrightarrow> keeps c (process_ack_of_acks aoa c)"
  by (auto simp: process_ack_of_acks_def Let_def keeps_def parts_ok_def split: option.splits)

lemma process_data_keeps:
  assumes "parts_ok c"
  shows "keeps c (process_dummy_data dh now c)" "keeps c (process_data dh db now c)"
proof -
  have k: "keeps c d \<Longrightarrow> keeps c (schedule_ack now d)" for d
    by (blast intro: keeps_trans schedule_ack_keeps keeps_parts)
  show "keeps c (process_dummy_data dh now c)" "keeps c (process_data dh db now c)"
    using assms
    by (auto simp: process_dummy_data_def process_data_def Let_def intro!: k split: option.splits prod.splits)
      (auto simp: keeps_def parts_ok_def)
qed

lemma unwind_decode: "dec_safe 0 d \<Longrightarrow> unwind (decode d bs) = Some (decode d bs)"
  by (intro unwind_safely dec_safe_decode)

lemma handle_v2_packet_keeps:
  assumes "parts_ok c" "now < 2 ^ 64"
  shows "safely (\<lambda>(_, c'). keeps c c') (handle_v2_packet wire now c)"
proof (cases "decode_with_prefix wire")
  case (Inr frame)
  obtain prefix body where frame: "frame = (prefix, body)" by fastforce
  show ?thesis
  proof (cases "decode decode_v2_packet body")
    case (Inr p)
    define d where "d = c\<lparr>c_send_window := map_option (set_peer_window (log_window_size (v2_hdr p))) (c_send_window c)\<rparr>"
    have d: "keeps c d" using assms(1) by (simp add: d_def keeps_def parts_ok_def)
    have acks: "safely (keeps d) (Option.bind (case v2_ack p of None \<Rightarrow> Some d | Some ack \<Rightarrow> process_ack ack now d)
      (\<lambda>c. case v2_ack_vector p of None \<Rightarrow> Some c | Some vec \<Rightarrow> process_ack_vector vec now c))"
      by (rule keeps_bind)
        (use assms(2) keeps_parts [OF d] in
          \<open>auto intro: process_ack_keeps process_ack_vector_keeps keeps_refl dest: keeps_parts split: option.splits\<close>)
    let ?rest = "\<lambda>c. let c = (case v2_ack_of_acks p of None \<Rightarrow> c | Some aoa \<Rightarrow> process_ack_of_acks aoa c)
      in case (v2_data_header p, v2_data_body p) of
           (Some dh, Some db) \<Rightarrow> if is_dummy prefix then process_dummy_data dh now c else process_data dh db now c
         | _ \<Rightarrow> c"
    have rest: "keeps x (?rest x)" if "keeps d x" for x
    proof -
      have "keeps x (case v2_ack_of_acks p of None \<Rightarrow> x | Some aoa \<Rightarrow> process_ack_of_acks aoa x)"
        using keeps_parts [OF that] by (auto intro: keeps_refl process_ack_of_acks_keeps split: option.splits)
      then show ?thesis
        by (auto simp: Let_def intro: keeps_trans process_data_keeps keeps_refl dest: keeps_parts split: option.splits)
    qed
    from acks obtain x y where xy:
      "(case v2_ack p of None \<Rightarrow> Some d | Some ack \<Rightarrow> process_ack ack now d) = Some x"
      "(case v2_ack_vector p of None \<Rightarrow> Some x | Some vec \<Rightarrow> process_ack_vector vec now x) = Some y" "keeps d y"
      by (auto elim!: safelyE simp: bind_eq_Some_conv)
    have "handle_v2_packet wire now c = Some (Inr (), ?rest y)"
      using Inr \<open>decode_with_prefix wire = Inr frame\<close> xy(1) [unfolded d_def] xy(2)
      by (simp add: handle_v2_packet_def frame unwind_decode decode_v2_packet_safe Let_def)
    with rest [OF xy(3)] xy(3) have "safely (\<lambda>(_, c'). keeps d c') (handle_v2_packet wire now c)"
      by (auto intro: keeps_trans)
    with d show ?thesis by (auto intro: safely_mono keeps_trans)
  qed (use Inr frame assms(1) in \<open>simp add: handle_v2_packet_def unwind_decode decode_v2_packet_safe keeps_refl\<close>)
qed (simp add: handle_v2_packet_def keeps_refl [OF assms(1)])

section \<open>Packets sent\<close>

fun run_entry_ok :: "ack_vector_entry \<Rightarrow> bool" where
  "run_entry_ok (RunLength received len) = (len \<le> 63)"
| "run_entry_ok (StateMap bitmap) = False"

lemma check_run_entries: "list_all run_entry_ok es \<Longrightarrow> check_entries es = Inr ()"
proof (induction es)
  case (Cons e es)
  then show ?case by (cases e) (auto simp: not_less)
qed simp

lemma split_run_ok:
  "list_all run_entry_ok es \<Longrightarrow> length es \<le> 127 \<Longrightarrow>
   list_all run_entry_ok (snd (split_run r n es)) \<and> length (snd (split_run r n es)) \<le> 127"
proof (induction r n es rule: split_run.induct)
  case (1 r n es)
  have "(of_nat (min n 63) :: u8) \<le> 63"
    by (simp add: word_le_nat_alt unat_of_nat take_bit_nat_eq_self min_le_iff_disj)
  with 1 show ?case
    by (subst (1 2) split_run.simps) (simp add: Let_def ACK_VECTOR_MAX_ENTRIES_def)
qed

lemma split_runs_ok:
  "list_all run_entry_ok es \<Longrightarrow> length es \<le> 127 \<Longrightarrow>
   list_all run_entry_ok (split_runs runs es) \<and> length (split_runs runs es) \<le> 127"
proof (induction runs es rule: split_runs.induct)
  case (2 r n runs es)
  obtain b es' where s: "split_run r n es = (b, es')" by fastforce
  with split_run_ok [OF 2(2,3), of r n] have "list_all run_entry_ok es'" "length es' \<le> 127" by simp_all
  with 2(1) [OF s [symmetric] refl] s show ?case by simp
qed simp

lemma timestamp_fits: "unat (truncate_timestamp full) < 2 ^ 24"
  by (simp add: unat_truncate_timestamp)

lemma build_acknowledgement_valid:
  assumes "build_acknowledgement now c = Some an"
  shows "ack_payload.opt_valid (an_ack an) \<and> ack_vector.opt_valid (an_ack_vector an) \<and>
    (an_ack an = None \<or> an_ack_vector an = None)"
  using assms timestamp_fits split_runs_ok [of "[]"] check_run_entries
  by (auto simp: build_acknowledgement_def build_ack_payload_def build_ack_vector_payload_def
      ack_payload.opt_valid_def ack_vector.opt_valid_def ack_payload_valid_def ack_vector_valid_def
      split: option.splits if_splits)

lemma assemble_packet_valid:
  assumes "lws \<le> LOG_WINDOW_SIZE_MAX" "\<And>a. an = Some a \<Longrightarrow> build_acknowledgement now c = Some a"
  shows "v2_packet_valid (assemble_packet lws fl an aoa payload)"
proof (cases an)
  case None
  with assms(1) show ?thesis
    by (simp add: v2_packet_valid_def assemble_packet_def Let_def LOG_WINDOW_SIZE_MAX_def
        ack_payload.opt_valid_def ack_vector.opt_valid_def)
next
  case (Some a)
  with assms build_acknowledgement_valid [of now c a] show ?thesis
    by (simp add: v2_packet_valid_def assemble_packet_def Let_def LOG_WINDOW_SIZE_MAX_def)
qed

text \<open>A valid packet is always framed, on a wire of its size plus the prefix byte.\<close>

lemma frame_v2_packet_ok:
  assumes "v2_packet_valid p"
  obtains wire where "frame_v2_packet p c = Some (Some wire, c\<lparr>c_wire_buf := wire\<rparr>)"
    "encode_with_prefix (v2_packet_layout p) False = Inr wire"
    "length wire = 1 + max (v2_packet_size p) 7"
proof -
  obtain wire where wire: "encode_with_prefix (v2_packet_layout p) False = Inr wire"
    "length wire = 1 + max (length (v2_packet_layout p)) 7"
    by (auto simp: encode_with_prefix_eq)
  then show ?thesis
    using assms
    by (intro that [of wire])
      (simp_all add: frame_v2_packet_def encode_vec_v2_layout unwind_def v2_packet_size_layout)
qed

definition sent :: "connection \<Rightarrow> bool \<Rightarrow> bytes \<Rightarrow> connection" where
  "sent c acknowledged wire =
     (if acknowledged
      then commit_acknowledgement (disarm TimerAckDelay (c\<lparr>c_wire_buf := wire, c_ack_pending := False\<rparr>))
      else c\<lparr>c_wire_buf := wire\<rparr>)"

definition data_packet :: "u8 \<Rightarrow> u64 \<Rightarrow> u64 \<Rightarrow> bytes \<Rightarrow> instant \<Rightarrow> connection \<Rightarrow> v2_packet" where
  "data_packet lws data_seq channel_seq data now c =
     assemble_packet lws V2_DATA (if c_ack_pending c then build_acknowledgement now c else None)
       (c_pending_ack_of_acks c) (Some (data_seq, channel_seq, data))"

lemma build_data_packet_ok:
  assumes "parts_ok c" "c_params c = Some params"
  obtains wire where
    "build_data_packet data_seq channel_seq data now c =
       Some (Some wire, sent c (c_ack_pending c \<and> c_recv_window c \<noteq> None) wire)"
    "encode_with_prefix (v2_packet_layout (data_packet (np_log_window_size params) data_seq channel_seq data now c)) False
       = Inr wire"
    "length wire = 1 + max (v2_packet_size (data_packet (np_log_window_size params) data_seq channel_seq data now c)) 7"
    "v2_packet_valid (data_packet (np_log_window_size params) data_seq channel_seq data now c)"
proof -
  let ?p = "data_packet (np_log_window_size params) data_seq channel_seq data now c"
  have valid: "v2_packet_valid ?p"
    unfolding data_packet_def
    by (rule assemble_packet_valid) (use assms in \<open>auto simp: parts_ok_def split: if_splits\<close>)
  then obtain wire where wire: "frame_v2_packet ?p c = Some (Some wire, c\<lparr>c_wire_buf := wire\<rparr>)"
    "encode_with_prefix (v2_packet_layout ?p) False = Inr wire" "length wire = 1 + max (v2_packet_size ?p) 7"
    by (rule frame_v2_packet_ok)
  have an: "(if c_ack_pending c then build_acknowledgement now c else None) \<noteq> None \<longleftrightarrow>
    c_ack_pending c \<and> c_recv_window c \<noteq> None"
    by (simp add: build_acknowledgement_def split: option.splits)
  have "build_data_packet data_seq channel_seq data now c =
       Some (Some wire, sent c (c_ack_pending c \<and> c_recv_window c \<noteq> None) wire)"
    using wire(1) assms(2) an by (auto simp: build_data_packet_def data_packet_def Let_def sent_def)
  with wire valid show ?thesis by (blast intro: that)
qed

lemma sent_keeps: "parts_ok c \<Longrightarrow> keeps c (sent c b wire)"
  by (simp add: sent_def commit_acknowledgement_def keeps_def parts_ok_def timer_laws)

lemma build_standalone_ack_keeps:
  assumes "parts_ok c"
  shows "safely (\<lambda>(_, c'). keeps c c') (build_standalone_ack now c)"
proof (cases "c_params c")
  case None
  then show ?thesis by (simp add: build_standalone_ack_def keeps_refl [OF assms])
next
  case (Some params)
  show ?thesis
  proof (cases "build_acknowledgement now c")
    case None
    with Some show ?thesis by (simp add: build_standalone_ack_def keeps_refl [OF assms])
  next
    case (Some an)
    let ?p = "assemble_packet (np_log_window_size params) 0 (Some an) (c_pending_ack_of_acks c) None"
    have "v2_packet_valid ?p"
      by (rule assemble_packet_valid) (use assms Some \<open>c_params c = Some params\<close> in \<open>auto simp: parts_ok_def\<close>)
    then obtain wire where "frame_v2_packet ?p c = Some (Some wire, c\<lparr>c_wire_buf := wire\<rparr>)"
      by (rule frame_v2_packet_ok)
    with Some \<open>c_params c = Some params\<close> assms show ?thesis
      by (simp add: build_standalone_ack_def Let_def commit_acknowledgement_def keeps_def parts_ok_def)
  qed
qed

lemma data_packet_cong:
  assumes "c_ack_pending c' = c_ack_pending c" "c_recv_window c' = c_recv_window c"
    "c_ack_delay_started_at c' = c_ack_delay_started_at c" "c_pending_ack_of_acks c' = c_pending_ack_of_acks c"
  shows "data_packet l d ch data now c' = data_packet l d ch data now c"
proof -
  have "build_ack_payload w now c' = build_ack_payload w now c"
    "build_ack_vector_payload w now c' = build_ack_vector_payload w now c" for w
    using assms(3) by (simp_all add: build_ack_payload_def build_ack_vector_payload_def received_at_def)
  with assms show ?thesis
    by (simp add: data_packet_def build_acknowledgement_def split: option.splits)
qed

text \<open>The two ways data goes out, with the connection they leave behind.\<close>

definition can_send :: "send_window \<Rightarrow> connection \<Rightarrow> bool" where
  "can_send w c \<longleftrightarrow> c_send_window c = Some w \<and> sw_bytes_in_flight w < cc_window (c_congestion c) \<and> has_capacity w"

lemma try_retransmit_cases:
  assumes "parts_ok c" "c_params c = Some params"
  obtains (blocked) "try_retransmit now c = Some (None, c)"
      "rel_has_pending (c_reliability c) \<Longrightarrow> \<nexists>w. can_send w c"
  | (resent) w e es d w' wire s where
      "can_send w c" "rc_queue (c_reliability c) = e # es"
      "push_retransmit (rt_channel_seq e) (rt_data e) now w = (Some d, w')"
      "try_retransmit now c = Some (Some wire, arm TimerRetransmit (instant_add now (re_rto (c_rtt c)))
         ((sent (c\<lparr>c_reliability := (c_reliability c)\<lparr>rc_queue := es\<rparr>, c_send_window := Some w'\<rparr>)
            (c_ack_pending c \<and> c_recv_window c \<noteq> None) wire)\<lparr>c_stats := s\<rparr>))"
      "length wire = 1 + max (v2_packet_size (data_packet (np_log_window_size params) d (rt_channel_seq e) (rt_data e) now c)) 7"
      "encode_with_prefix (v2_packet_layout (data_packet (np_log_window_size params) d (rt_channel_seq e) (rt_data e) now c)) False
         = Inr wire"
      "v2_packet_valid (data_packet (np_log_window_size params) d (rt_channel_seq e) (rt_data e) now c)"
proof (cases "\<exists>w. rel_has_pending (c_reliability c) \<and> can_send w c")
  case True
  then obtain w where w: "rel_has_pending (c_reliability c)" "can_send w c" by blast
  obtain e es where q: "rc_queue (c_reliability c) = e # es"
    using w(1) by (auto simp: rel_has_pending_def neq_Nil_conv)
  obtain d w' where push: "push_retransmit (rt_channel_seq e) (rt_data e) now w = (Some d, w')"
    using w(2) by (simp add: can_send_def push_retransmit_def Let_def)
  define c1 where "c1 = c\<lparr>c_reliability := (c_reliability c)\<lparr>rc_queue := es\<rparr>, c_send_window := Some w'\<rparr>"
  have c1: "parts_ok c1" "c_params c1 = Some params" using assms by (simp_all add: c1_def parts_ok_def)
  obtain wire where built:
    "build_data_packet d (rt_channel_seq e) (rt_data e) now c1 =
       Some (Some wire, sent c1 (c_ack_pending c1 \<and> c_recv_window c1 \<noteq> None) wire)"
    "encode_with_prefix (v2_packet_layout (data_packet (np_log_window_size params) d (rt_channel_seq e) (rt_data e) now c1)) False
      = Inr wire"
    "length wire = 1 + max (v2_packet_size (data_packet (np_log_window_size params) d (rt_channel_seq e) (rt_data e) now c1)) 7"
    "v2_packet_valid (data_packet (np_log_window_size params) d (rt_channel_seq e) (rt_data e) now c1)"
    by (rule build_data_packet_ok [OF c1])
  have same: "data_packet l d ch data now c1 = data_packet l d ch data now c" for l ch data
    by (rule data_packet_cong) (simp_all add: c1_def)
  show ?thesis
    using w(1) w(2) [unfolded can_send_def] q push built
    by (intro resent [OF w(2) q push])
      (auto simp: try_retransmit_def rel_dequeue_def Let_def c1_def sent_def commit_acknowledgement_def
        same [unfolded c1_def])
next
  case False
  then show ?thesis by (intro blocked) (auto simp: try_retransmit_def can_send_def split: option.splits)
qed

lemma try_send_new_data_cases:
  assumes "parts_ok c" "c_params c = Some params"
  obtains (blocked) "try_send_new_data now c = Some (None, c)"
      "c_send_buffer c \<noteq> [] \<Longrightarrow> \<nexists>w. can_send w c"
  | (sent_new) w data rest d ch w' wire s where
      "can_send w c" "c_send_buffer c = data # rest" "sw_push data now w = (Some (d, ch), w')"
      "try_send_new_data now c =
         (let c' = (sent (c\<lparr>c_send_buffer := rest, c_send_window := Some w'\<rparr>)
                      (c_ack_pending c \<and> c_recv_window c \<noteq> None) wire)\<lparr>c_stats := s\<rparr>
          in Some (Some wire, if tt_is_set TimerRetransmit (c_timers c') then c'
                 else arm TimerRetransmit (instant_add now (re_rto (c_rtt c))) c'))"
      "length wire = 1 + max (v2_packet_size (data_packet (np_log_window_size params) d ch data now c)) 7"
      "encode_with_prefix (v2_packet_layout (data_packet (np_log_window_size params) d ch data now c)) False = Inr wire"
      "v2_packet_valid (data_packet (np_log_window_size params) d ch data now c)"
proof (cases "\<exists>w. c_send_buffer c \<noteq> [] \<and> can_send w c")
  case True
  then obtain w data rest where w: "c_send_buffer c = data # rest" "can_send w c" by (auto simp: neq_Nil_conv)
  obtain d ch w' where push: "sw_push data now w = (Some (d, ch), w')"
    using w(2) by (simp add: can_send_def sw_push_def Let_def)
  define c1 where "c1 = c\<lparr>c_send_buffer := rest, c_send_window := Some w'\<rparr>"
  have c1: "parts_ok c1" "c_params c1 = Some params" using assms by (simp_all add: c1_def parts_ok_def)
  obtain wire where built:
    "build_data_packet d ch data now c1 =
       Some (Some wire, sent c1 (c_ack_pending c1 \<and> c_recv_window c1 \<noteq> None) wire)"
    "encode_with_prefix (v2_packet_layout (data_packet (np_log_window_size params) d ch data now c1)) False = Inr wire"
    "length wire = 1 + max (v2_packet_size (data_packet (np_log_window_size params) d ch data now c1)) 7"
    "v2_packet_valid (data_packet (np_log_window_size params) d ch data now c1)"
    by (rule build_data_packet_ok [OF c1])
  have same: "data_packet l d ch data now c1 = data_packet l d ch data now c" for l ch data
    by (rule data_packet_cong) (simp_all add: c1_def)
  show ?thesis
    using w(1) w(2) [unfolded can_send_def] push built
    by (intro sent_new [OF w(2,1) push])
      (auto simp: try_send_new_data_def Let_def c1_def sent_def commit_acknowledgement_def
        same [unfolded c1_def])
next
  case False
  then show ?thesis by (intro blocked) (auto simp: try_send_new_data_def can_send_def split: option.splits list.splits)
qed

lemma keeps_stats: "parts_ok c \<Longrightarrow> keeps c (c\<lparr>c_stats := s\<rparr>)"
  by (simp add: keeps_def parts_ok_def)

lemma sent_chain_keeps:
  assumes "keeps c d"
  shows "keeps c ((sent d b wire)\<lparr>c_stats := s\<rparr>)" "keeps c (arm t i ((sent d b wire)\<lparr>c_stats := s\<rparr>))"
proof -
  show k: "keeps c ((sent d b wire)\<lparr>c_stats := s\<rparr>)"
    using assms by (blast intro: keeps_trans sent_keeps keeps_stats keeps_parts)
  show "keeps c (arm t i ((sent d b wire)\<lparr>c_stats := s\<rparr>))"
    by (rule keeps_trans [OF k keeps_timer(1) [OF keeps_parts [OF k]]])
qed

lemma try_retransmit_keeps:
  assumes "parts_ok c" "c_params c \<noteq> None"
  shows "safely (\<lambda>(_, c'). keeps c c') (try_retransmit now c)"
proof -
  obtain params where params: "c_params c = Some params" using assms(2) by blast
  from assms(1) params show ?thesis
  proof (cases rule: try_retransmit_cases [where now = now])
    case blocked
    then show ?thesis by (simp add: keeps_refl assms(1))
  next
    case (resent w e es d w' wire s)
    have "keeps c (c\<lparr>c_reliability := (c_reliability c)\<lparr>rc_queue := es\<rparr>, c_send_window := Some w'\<rparr>)"
      using assms(1) resent(1) by (simp add: keeps_def parts_ok_def can_send_def)
    then show ?thesis unfolding resent(4) by (simp only: safely_Some prod.case sent_chain_keeps)
  qed
qed

lemma try_send_new_data_keeps:
  assumes "parts_ok c" "c_params c \<noteq> None"
  shows "safely (\<lambda>(_, c'). keeps c c') (try_send_new_data now c)"
proof -
  obtain params where params: "c_params c = Some params" using assms(2) by blast
  from assms(1) params show ?thesis
  proof (cases rule: try_send_new_data_cases [where now = now])
    case blocked
    then show ?thesis by (simp add: keeps_refl assms(1))
  next
    case (sent_new w data rest d ch w' wire s)
    have "keeps c (c\<lparr>c_send_buffer := rest, c_send_window := Some w'\<rparr>)"
      using assms(1) sent_new(1) by (simp add: keeps_def parts_ok_def can_send_def)
    then show ?thesis unfolding sent_new(4) Let_def
      by (simp only: safely_Some prod.case sent_chain_keeps if_split simp_thms)
  qed
qed

lemma rearm_keep_alive_keeps: "parts_ok c \<Longrightarrow> keeps c (rearm_keep_alive now c)"
  by (simp add: rearm_keep_alive_def keeps_timer)

lemma keeps_bind_pair:
  fixes m :: "('r \<times> connection) option"
  assumes "safely (\<lambda>(_, c'). keeps c c') m" "\<And>r x. keeps c x \<Longrightarrow> safely (\<lambda>(_, c'). keeps x c') (f (r, x))"
  shows "safely (\<lambda>(_, c'). keeps c c') (Option.bind m f)"
proof (rule safely_bind [OF assms(1)])
  fix rx :: "'r \<times> connection" assume "case rx of (_, c') \<Rightarrow> keeps c c'"
  then show "safely (\<lambda>(_, c'). keeps c c') (f rx)"
    by (cases rx) (auto intro: safely_mono [OF assms(2)] keeps_trans)
qed

lemma poll_transmit_inner_keeps:
  assumes "parts_ok c" "c_state c = Established \<Longrightarrow> c_params c \<noteq> None"
  shows "safely (\<lambda>(_, c'). keeps c c') (poll_transmit_inner now c)"
proof (cases "c_state c = Established \<and> c_pending_transmits c = []")
  case True
  have ack: "safely (\<lambda>(_, c'). keeps x c') (if c_ack_pending x then
      Option.bind (build_standalone_ack now x) (\<lambda>(transmit, c). if transmit \<noteq> None
        then Some (transmit, rearm_keep_alive now (disarm TimerAckDelay (c\<lparr>c_ack_pending := False\<rparr>))) else Some (None, c))
    else Some (None, x))" if "parts_ok x" for x
  proof -
    have "keeps y (rearm_keep_alive now (disarm TimerAckDelay (y\<lparr>c_ack_pending := False\<rparr>)))" if "parts_ok y" for y
      using that by (simp add: rearm_keep_alive_def keeps_def parts_ok_def timer_laws)
    then show ?thesis
      using that by (auto intro!: keeps_bind_pair build_standalone_ack_keeps intro: keeps_refl dest!: keeps_parts)
  qed
  have "safely (\<lambda>(_, c'). keeps c c') (Option.bind (try_retransmit now c) (\<lambda>(transmit, c).
      if transmit \<noteq> None then Some (transmit, rearm_keep_alive now c)
      else Option.bind (try_send_new_data now c) (\<lambda>(transmit, c).
        if transmit \<noteq> None then Some (transmit, rearm_keep_alive now c)
        else if c_ack_pending c then
          Option.bind (build_standalone_ack now c) (\<lambda>(transmit, c). if transmit \<noteq> None
            then Some (transmit, rearm_keep_alive now (disarm TimerAckDelay (c\<lparr>c_ack_pending := False\<rparr>))) else Some (None, c))
        else Some (None, c))))"
  proof (rule keeps_bind_pair [OF try_retransmit_keeps])
    show "parts_ok c" by (rule assms)
    show "c_params c \<noteq> None" using assms True by simp
    fix r x assume x: "keeps c x"
    then have x': "parts_ok x" "c_params x \<noteq> None" using True assms by (auto simp: keeps_def)
    show "safely (\<lambda>(_, c'). keeps x c') ((\<lambda>(transmit, c).
      if transmit \<noteq> None then Some (transmit, rearm_keep_alive now c)
      else Option.bind (try_send_new_data now c) (\<lambda>(transmit, c).
        if transmit \<noteq> None then Some (transmit, rearm_keep_alive now c)
        else if c_ack_pending c then
          Option.bind (build_standalone_ack now c) (\<lambda>(transmit, c). if transmit \<noteq> None
            then Some (transmit, rearm_keep_alive now (disarm TimerAckDelay (c\<lparr>c_ack_pending := False\<rparr>))) else Some (None, c))
        else Some (None, c))) (r, x))"
    proof (cases r)
      case None
      show ?thesis unfolding None
        apply simp
        apply (rule keeps_bind_pair [OF try_send_new_data_keeps [OF x']])
        using ack rearm_keep_alive_keeps keeps_parts by auto
    next
      case (Some y)
      with x' show ?thesis by (simp add: rearm_keep_alive_keeps)
    qed
  qed
  with True show ?thesis by (simp add: poll_transmit_inner_def)
next
  case False
  with assms show ?thesis
    by (auto simp: poll_transmit_inner_def keeps_refl rearm_keep_alive_def split: list.splits)
      (simp_all add: keeps_def parts_ok_def timer_laws)
qed

lemma poll_transmit_keeps:
  assumes "parts_ok c" "c_state c = Established \<Longrightarrow> c_params c \<noteq> None"
  shows "safely (\<lambda>(_, c'). keeps c c') (poll_transmit now c)"
  unfolding poll_transmit_def
  by (rule keeps_bind_pair [OF poll_transmit_inner_keeps [OF assms]])
    (auto intro: keeps_stats keeps_refl dest!: keeps_parts)

section \<open>Handshake datagrams\<close>

lemma syn_ack_valid: "v1_datagram_valid (syn_ack_datagram isn (negotiated_mtu a b) (negotiated_mtu x y) c)"
  by (auto simp: v1_datagram_valid_def syn_ack_datagram_def v1_compute_flags_def flag_eval v1_is_client_syn_def
      v1_ack_vector.opt_valid_def syn_data.opt_valid_def correlation_id.opt_valid_def syn_data_ex.opt_valid_def
      syn_data_valid_def syn_data_ex_valid_def negotiated_mtu_def MTU_MIN_def MTU_MAX_def le_max_iff_disj
      syn_ex_flags_from_bits_truncate_def SYNEX_VERSION_INFO_VALID_def)

lemma final_ack_valid: "v1_datagram_valid (final_ack_datagram isn c)"
  by (auto simp: v1_datagram_valid_def final_ack_datagram_def v1_compute_flags_def flag_eval v1_is_client_syn_def
      v1_ack_vector.opt_valid_def syn_data.opt_valid_def correlation_id.opt_valid_def syn_data_ex.opt_valid_def
      v1_ack_vector_valid_def MAX_LENGTH_def)

definition config_ok :: "connection_config \<Rightarrow> bool" where
  "config_ok config \<longleftrightarrow> pred_option (\<lambda>h. length h = 32) (cf_cookie_hash config)"

abbreviation mtu_in_range :: "u16 \<Rightarrow> bool" where
  "mtu_in_range mtu \<equiv> mtu \<in> {MTU_MIN..MTU_MAX}"

lemma syn_valid:
  assumes "config_ok (c_config c)" "cf_cookie_hash (c_config c) \<noteq> None"
    "mtu_in_range (cf_upstream_mtu (c_config c))" "mtu_in_range (cf_downstream_mtu (c_config c))"
  shows "v1_datagram_valid (syn_datagram c)"
  using assms
  by (auto simp: config_ok_def v1_datagram_valid_def syn_datagram_def v1_compute_flags_def flag_eval v1_is_client_syn_def
      v1_ack_vector.opt_valid_def syn_data.opt_valid_def correlation_id.opt_valid_def syn_data_ex.opt_valid_def
      syn_data_valid_def syn_data_ex_valid_def syn_ex_flags_from_bits_truncate_def SYNEX_VERSION_INFO_VALID_def)

lemma encode_syn_data_refused:
  assumes "wc_room dst 8" "\<not> syn_data_valid p"
  shows "\<exists>field reason. encode_syn_data p dst = Inl (InvalidField field reason None)"
  using assms
  by (auto simp: encode_syn_data_def validate_mtu_def syn_data_valid_def codec_simps wseq_def and_then_def)

lemma syn_encode_no_panic:
  assumes "config_ok (c_config c)" "cf_cookie_hash (c_config c) \<noteq> None"
  shows "encode_vec v1_datagram_size encode_v1_datagram (syn_datagram c) \<noteq> Inl Panic"
proof (cases "mtu_in_range (cf_upstream_mtu (c_config c)) \<and> mtu_in_range (cf_downstream_mtu (c_config c))")
  case True
  with syn_valid [OF assms] show ?thesis by (simp add: encode_vec_v1_layout)
next
  case False
  let ?p = "\<lparr>initial_sequence_number = cf_initial_sequence_number (c_config c),
    upstream_mtu = cf_upstream_mtu (c_config c), downstream_mtu = cf_downstream_mtu (c_config c)\<rparr>"
  let ?h = "(v1_header (syn_datagram c))\<lparr>fec_flags := v1_compute_flags (syn_datagram c)\<rparr>"
  let ?dst = "wc_new (replicate (v1_datagram_size (syn_datagram c)) 0)"
  obtain hash where hash: "cf_cookie_hash (c_config c) = Some hash" "length hash = 32"
    using assms by (auto simp: config_ok_def)
  have size: "v1_datagram_size (syn_datagram c) = 52"
    using hash by (simp add: v1_datagram_size_def syn_datagram_def size_opt_def fec_header_size_def syn_data_size_def
        syn_data_ex_size_def)
  have header: "encode_fec_header ?h ?dst = Inr (wc_put (fec_layout ?h) ?dst)"
    by (rule fec.enc_layout) (simp_all add: fec_valid_def v1_compute_flags_truncate fec_layout_def size wc_new_def byte_layouts)
  have "\<not> syn_data_valid ?p" using False by (simp add: syn_data_valid_def)
  then obtain field reason where refused: "encode_syn_data ?p (wc_put (fec_layout ?h) ?dst) = Inl (InvalidField field reason None)"
    using encode_syn_data_refused [of "wc_put (fec_layout ?h) ?dst" ?p]
    by (auto simp: fec_layout_def size wc_new_def wc_put_def byte_layouts)
  have check: "v1_check_cookie_hash (v1_compute_flags (syn_datagram c)) (v1_syn_data_ex (syn_datagram c)) = Inr ()"
    using hash by (simp add: v1_check_cookie_hash_def v1_compute_flags_def syn_datagram_def flag_eval v1_is_client_syn_def)
  have room: "ensure_size_in 52 (wc_new (replicate 52 0)) = Inr (wc_new (replicate 52 0))"
    by (rule ensure_size_in_room) (simp_all add: wc_new_def)
  have "encode_v1_datagram (syn_datagram c) ?dst = Inl (InvalidField field reason None)"
    using header refused check room unfolding encode_v1_datagram_def size
    by (simp add: Let_def wseq_def encode_opt_def wskip_def) (simp add: syn_datagram_def wseq_def codec_simps)
  then show ?thesis by (simp add: encode_vec_def)
qed

section \<open>The invariant of the state machine\<close>

fun state_ok :: "conn_state \<Rightarrow> connection \<Rightarrow> bool" where
  "state_ok SynSent c = (c_side c = Client \<and> c_send_window c = None \<and> c_recv_window c = None)"
| "state_ok SynReceived c = (c_side c = Server \<and> c_params c \<noteq> None \<and> c_send_window c = None \<and> c_recv_window c = None)"
| "state_ok Established c = (c_params c \<noteq> None \<and> c_send_window c \<noteq> None \<and> c_recv_window c \<noteq> None)"
| "state_ok Closed c = (\<forall>t. tt_get t (c_timers c) = None)"

definition base_ok :: "connection \<Rightarrow> bool" where
  "base_ok c \<longleftrightarrow> parts_ok c \<and> config_ok (c_config c) \<and> cf_log_window_size (c_config c) \<le> LOG_WINDOW_SIZE_MAX"

definition conn_ok :: "connection \<Rightarrow> bool" where
  "conn_ok c \<longleftrightarrow> base_ok c \<and> state_ok (c_state c) c"

text \<open>The moves of the lifecycle diagram in the module's documentation.\<close>

inductive lifecycle :: "conn_state \<Rightarrow> conn_state \<Rightarrow> bool" where
  stays: "lifecycle s s"
| client_established: "lifecycle SynSent Established"
| server_established: "lifecycle SynReceived Established"
| closes: "lifecycle s Closed"

inductive_cases lifecycle_from_closed: "lifecycle Closed s"

abbreviation next_ok :: "connection \<Rightarrow> connection \<Rightarrow> bool" where
  "next_ok c c' \<equiv> conn_ok c' \<and> lifecycle (c_state c) (c_state c')"

lemma keeps_base: "base_ok c \<Longrightarrow> keeps c c' \<Longrightarrow> base_ok c'"
  by (simp add: base_ok_def keeps_def)

lemma keeps_next:
  assumes "conn_ok c" "c_state c \<noteq> Closed" "keeps c c'"
  shows "next_ok c c'"
  using assms by (cases "c_state c") (auto simp: conn_ok_def base_ok_def keeps_def intro: lifecycle.stays)

lemma close_ok:
  assumes "base_ok c"
  shows "base_ok (close c)" "c_state c \<noteq> Closed \<Longrightarrow> conn_ok (close c) \<and> c_state (close c) = Closed"
proof -
  have "tt_get t (tt_clear TimerKeepAlive (tt_clear TimerIdle (tt_clear TimerAckDelay
    (tt_clear TimerRetransmit (c_timers c))))) = None" for t
    using assms by (cases t) (simp_all add: base_ok_def parts_ok_def timer_laws)
  then show "base_ok (close c)" "c_state c \<noteq> Closed \<Longrightarrow> conn_ok (close c) \<and> c_state (close c) = Closed"
    using assms by (auto simp: close_def conn_ok_def base_ok_def parts_ok_def timer_laws)
qed

lemma close_next: "conn_ok c \<Longrightarrow> next_ok c (close c)"
  using close_ok [of c] by (cases "c_state c = Closed") (auto simp: conn_ok_def close_def intro: lifecycle.intros)

lemma send_next: "conn_ok c \<Longrightarrow> next_ok c (snd (send data c))"
  by (cases "c_state c")
    (auto simp: send_def conn_ok_def base_ok_def parts_ok_def Let_def intro: lifecycle.stays)

lemma poll_event_next: "conn_ok c \<Longrightarrow> next_ok c (snd (poll_event c))"
  by (cases "c_state c")
    (auto simp: poll_event_def conn_ok_def base_ok_def parts_ok_def intro: lifecycle.stays split: list.splits)

lemma poll_transmit_next:
  assumes "conn_ok c"
  shows "safely (\<lambda>(_, c'). next_ok c c') (poll_transmit now c)"
proof (cases "c_state c = Closed")
  case True
  with assms show ?thesis by (simp add: poll_transmit_def poll_transmit_inner_def lifecycle.stays)
next
  case False
  have "safely (\<lambda>(_, c'). keeps c c') (poll_transmit now c)"
    using assms by (intro poll_transmit_keeps) (auto simp: conn_ok_def base_ok_def)
  with keeps_next [OF assms False] show ?thesis by (auto elim!: safelyE)
qed

subsection \<open>Timers\<close>

lemma retransmit_handshake_next:
  assumes "conn_ok c" "c_state c \<noteq> Closed"
  shows "next_ok c (retransmit_handshake now c)"
proof -
  have "c_handshake_retransmits c + 1 \<le> 5" if "c_handshake_retransmits c < 5"
    using that by (rule inc_le)
  moreover have "keeps c (c\<lparr>c_handshake_retransmits := n, c_pending_transmits := ts, c_timers := tt_set TimerRetransmit d (c_timers c)\<rparr>)"
    if "n \<le> 5" for n ts d
    using assms that by (simp add: conn_ok_def base_ok_def parts_ok_def keeps_def timer_laws HANDSHAKE_RETRANSMIT_LIMIT_def)
  ultimately show ?thesis
    using assms close_next [OF assms(1)] keeps_next [OF assms]
    by (auto simp: retransmit_handshake_def resend_handshake_datagram_def Let_def HANDSHAKE_RETRANSMIT_LIMIT_def not_le
        intro: lifecycle.stays split: option.splits)
qed

lemma handle_retransmit_timeout_next:
  assumes "conn_ok c" "c_state c \<noteq> Closed"
  shows "safely (next_ok c) (handle_retransmit_timeout now c)"
proof -
  define c1 where "c1 = (disarm TimerRetransmit c)\<lparr>c_stats := (c_stats c)\<lparr>st_retransmit_timeouts :=
    u64_add (st_retransmit_timeouts (c_stats c)) 1\<rparr>\<rparr>"
  have c1: "keeps c c1" using assms(1) by (simp add: c1_def conn_ok_def base_ok_def keeps_def parts_ok_def timer_laws)
  show ?thesis
  proof (cases "c_state c = Established")
    case False
    have "safely (\<lambda>est. keeps c (c1\<lparr>c_rtt := est\<rparr>)) (on_timeout (c_rtt c1))"
      using on_timeout_keeps [OF keeps_parts [OF c1]] by (rule safely_mono) (rule keeps_trans [OF c1])
    then have "safely (next_ok c) (Option.bind (on_timeout (c_rtt c1)) (\<lambda>rtt. Some (retransmit_handshake now (c1\<lparr>c_rtt := rtt\<rparr>))))"
    proof (rule safely_bind)
      fix est assume k: "keeps c (c1\<lparr>c_rtt := est\<rparr>)"
      have "next_ok c (c1\<lparr>c_rtt := est\<rparr>)" by (rule keeps_next [OF assms k])
      moreover have "c_state (c1\<lparr>c_rtt := est\<rparr>) = c_state c" using k by (simp add: keeps_def)
      ultimately show "safely (next_ok c) (Some (retransmit_handshake now (c1\<lparr>c_rtt := est\<rparr>)))"
        using retransmit_handshake_next [of "c1\<lparr>c_rtt := est\<rparr>" now] assms(2) by simp
    qed
    with False c1 show ?thesis
      by (simp add: handle_retransmit_timeout_def Let_def c1_def)
  next
    case True
    define c2 where "c2 = declare_overdue_lost now c1"
    have c2: "keeps c c2" unfolding c2_def
      by (rule keeps_trans [OF c1 declare_overdue_lost_keeps [OF keeps_parts [OF c1]]])
    have "safely (\<lambda>est. keeps c (c2\<lparr>c_rtt := est\<rparr>)) (on_timeout (c_rtt c2))"
      using on_timeout_keeps [OF keeps_parts [OF c2]] by (rule safely_mono) (rule keeps_trans [OF c2])
    then have "safely (keeps c) (Option.bind (on_timeout (c_rtt c2)) (\<lambda>rtt. Some (update_retransmit_timer now (c2\<lparr>c_rtt := rtt\<rparr>))))"
      by (rule safely_bind) (auto intro: keeps_trans update_retransmit_timer_keeps keeps_parts)
    with True keeps_next [OF assms] show ?thesis
      by (auto simp: handle_retransmit_timeout_def Let_def c2_def c1_def elim!: safelyE intro: safely_mono)
  qed
qed

lemma handle_timer_next:
  assumes "conn_ok c" "c_state c \<noteq> Closed"
  shows "safely (next_ok c) (handle_timer now t c)"
proof -
  have "keeps c (handle_ack_delay_timeout c)" "keeps c (handle_keep_alive_timeout now c)"
    using assms(1)
    by (simp_all add: conn_ok_def base_ok_def handle_ack_delay_timeout_def handle_keep_alive_timeout_def Let_def
        keeps_def parts_ok_def timer_laws)
  then show ?thesis
    using handle_retransmit_timeout_next [OF assms] keeps_next [OF assms] close_next [OF assms(1)]
    by (cases t) (simp_all add: handle_idle_timeout_def)
qed

lemma handle_timers_next:
  assumes "conn_ok c"
  shows "safely (next_ok c) (handle_timers now ts c)"
  using assms
proof (induction ts arbitrary: c)
  case (Cons t ts)
  show ?case
  proof (cases "c_state c = Closed")
    case False
    have "safely (next_ok c) (Option.bind (handle_timer now t c) (handle_timers now ts))"
    proof (rule safely_bind [OF handle_timer_next [OF Cons.prems False]])
      fix x assume x: "next_ok c x"
      then have "safely (next_ok x) (handle_timers now ts x)" by (intro Cons.IH) simp
      then show "safely (next_ok c) (handle_timers now ts x)"
        by (rule safely_mono) (use x in \<open>auto elim!: lifecycle.cases intro: lifecycle.intros\<close>)
    qed
    with False show ?thesis by simp
  qed (use Cons.prems in \<open>simp add: lifecycle.stays\<close>)
qed (simp add: lifecycle.stays)

lemma handle_timeout_next: "conn_ok c \<Longrightarrow> safely (next_ok c) (handle_timeout now c)"
  by (simp add: handle_timeout_def handle_timers_next lifecycle.stays)

subsection \<open>Datagrams\<close>

lemma transition_ok:
  assumes "base_ok c" "c_params c \<noteq> None"
  shows "safely (\<lambda>c'. conn_ok c' \<and> c_state c' = Established) (transition_to_established now c)"
  using assms
  by (auto simp: transition_to_established_def Let_def conn_ok_def base_ok_def parts_ok_def timer_laws)

lemma sample_handshake_rtt_keeps:
  assumes "parts_ok c" "now < 2 ^ 64"
  shows "safely (keeps c) (sample_handshake_rtt now c)"
proof -
  have "safely (keeps c) (Option.bind (rtt_update (duration_since now sent_at) (c_rtt c)) (\<lambda>rtt. Some (c\<lparr>c_rtt := rtt\<rparr>)))"
    for sent_at
    by (rule safely_bind [OF rtt_update_keeps [OF assms(1)]]) (use sample_limit [OF assms(2), of _ 0] in auto)
  then show ?thesis by (auto simp: sample_handshake_rtt_def keeps_refl [OF assms(1)] split: option.splits)
qed

lemma resend_keeps: "parts_ok c \<Longrightarrow> keeps c (resend_handshake_datagram c)"
  by (auto simp: resend_handshake_datagram_def keeps_def parts_ok_def split: option.splits)

lemma enqueue_handshake_valid:
  assumes "v1_datagram_valid d"
  shows "enqueue_handshake d c = Some (True, c\<lparr>c_pending_transmits := c_pending_transmits c @ [v1_datagram_layout d],
    c_handshake_datagram := Some (v1_datagram_layout d), c_handshake_retransmits := 0\<rparr>)"
  using assms by (simp add: enqueue_handshake_def encode_vec_v1_layout unwind_def)

lemma enqueue_final_ack_keeps:
  assumes "parts_ok c"
  shows "safely (keeps c) (enqueue_final_ack isn c)"
  using assms
  by (simp add: enqueue_final_ack_def enqueue_handshake_valid [OF final_ack_valid] keeps_def parts_ok_def)

lemma negotiate_base: "base_ok c \<Longrightarrow> base_ok (negotiate peer c) \<and> c_params (negotiate peer c) \<noteq> None"
  by (simp add: negotiate_def base_ok_def parts_ok_def)

lemma handle_syn_ack_next:
  assumes "conn_ok c" "c_state c = SynSent" "now < 2 ^ 64"
  shows "safely (\<lambda>(_, c'). next_ok c c') (handle_syn_ack wire now c)"
proof -
  have "safely (\<lambda>c'. conn_ok c' \<and> c_state c' = Established)
    (Option.bind (sample_handshake_rtt now (negotiate peer c)) (\<lambda>c.
      Option.bind (enqueue_final_ack isn c) (transition_to_established now)))" for peer isn
  proof -
    have n: "base_ok (negotiate peer c)" "c_params (negotiate peer c) \<noteq> None"
      using negotiate_base assms(1) by (auto simp: conn_ok_def)
    have s: "safely (keeps (negotiate peer c)) (Option.bind (sample_handshake_rtt now (negotiate peer c)) (enqueue_final_ack isn))"
      by (rule keeps_bind)
        (use n assms(3) in \<open>auto simp: base_ok_def intro: sample_handshake_rtt_keeps enqueue_final_ack_keeps keeps_parts\<close>)
    then have "safely (\<lambda>c'. conn_ok c' \<and> c_state c' = Established)
      (Option.bind (Option.bind (sample_handshake_rtt now (negotiate peer c)) (enqueue_final_ack isn)) (transition_to_established now))"
    proof (rule safely_bind)
      fix x assume "keeps (negotiate peer c) x"
      with n show "safely (\<lambda>c'. conn_ok c' \<and> c_state c' = Established) (transition_to_established now x)"
        by (intro transition_ok) (auto simp: base_ok_def keeps_def)
    qed
    then show ?thesis by simp
  qed
  then have "safely (\<lambda>(_, c'). next_ok c c')
    (Option.bind (Option.bind (sample_handshake_rtt now (negotiate peer c)) (\<lambda>c.
      Option.bind (enqueue_final_ack isn c) (transition_to_established now))) (\<lambda>c. Some (r, c)))" for peer isn r
    by (rule safely_bind) (use assms(2) in \<open>auto intro: lifecycle.client_established\<close>)
  then have finish: "safely (\<lambda>(_, c'). next_ok c c')
    (Option.bind (sample_handshake_rtt now (negotiate peer c)) (\<lambda>c.
      Option.bind (enqueue_final_ack isn c) (\<lambda>c. Option.bind (transition_to_established now c) (\<lambda>c. Some (r, c)))))" for peer isn r
    by simp
  show ?thesis
    using assms(1) finish
    by (auto simp: handle_syn_ack_def unwind_decode decode_v1_datagram_safe intro: lifecycle.stays
        split: sum.splits option.splits)
qed

lemma handle_final_ack_ok:
  assumes "conn_ok c" "c_state c = SynReceived" "now < 2 ^ 64"
  shows "safely (\<lambda>(handled, c'). next_ok c c' \<and> (\<not> handled \<longrightarrow> c' = c)) (handle_final_ack wire now c)"
proof -
  have base: "base_ok c" "c_params c \<noteq> None" "parts_ok c" using assms(1,2) by (auto simp: conn_ok_def base_ok_def)
  have "safely (\<lambda>c'. conn_ok c' \<and> c_state c' = Established)
    (Option.bind (sample_handshake_rtt now c) (transition_to_established now))"
  proof (rule safely_bind [OF sample_handshake_rtt_keeps [OF base(3) assms(3)]])
    fix x assume "keeps c x"
    with base show "safely (\<lambda>c'. conn_ok c' \<and> c_state c' = Established) (transition_to_established now x)"
      by (intro transition_ok) (auto simp: base_ok_def keeps_def)
  qed
  then have "safely (\<lambda>(handled, c'). next_ok c c' \<and> (\<not> handled \<longrightarrow> c' = c))
    (Option.bind (Option.bind (sample_handshake_rtt now c) (transition_to_established now)) (\<lambda>c. Some (True, c)))"
    by (rule safely_bind) (use assms(2) in \<open>auto intro: lifecycle.server_established\<close>)
  moreover have "next_ok c (resend_handshake_datagram c)"
    by (rule keeps_next [OF assms(1) _ resend_keeps [OF base(3)]]) (simp add: assms(2))
  ultimately show ?thesis
    using assms(1)
    by (auto simp: handle_final_ack_def unwind_decode decode_v1_datagram_safe intro: lifecycle.stays split: sum.splits)
qed

lemma is_repeated_syn_ack_total: "safely (\<lambda>_. True) (is_repeated_syn_ack wire c)"
  by (auto simp: is_repeated_syn_ack_def unwind_decode decode_v1_datagram_safe v1_decoders_safe
      split: option.splits sum.splits)

lemma handle_datagram_next:
  assumes "conn_ok c" "now < 2 ^ 64"
  shows "safely (\<lambda>(_, c'). next_ok c c') (handle_datagram wire now c)"
proof -
  define c1 where "c1 = c\<lparr>c_stats := (c_stats c)\<lparr>st_datagrams_in := u64_add (st_datagrams_in (c_stats c)) 1\<rparr>\<rparr>"
  define c2 where "c2 = arm TimerIdle (instant_add now (cf_idle_timeout (c_config c1))) c1"
  have ok1: "conn_ok c1" "c_state c1 = c_state c"
    using assms(1) by (cases "c_state c"; auto simp: c1_def conn_ok_def base_ok_def parts_ok_def)+
  have k2: "keeps c1 c2" unfolding c2_def using ok1(1) by (intro keeps_timer) (simp add: conn_ok_def base_ok_def)
  have st2: "c_state c2 = c_state c" using k2 ok1(2) by (simp add: keeps_def)
  have ok2: "conn_ok c2" if "c_state c \<noteq> Closed" using keeps_next [OF ok1(1) _ k2] that ok1(2) by simp
  have v2: "safely (\<lambda>(_, c'). conn_ok c' \<and> c_state c' = Established) (handle_v2_packet wire now x)"
    if "conn_ok x" "c_state x = Established" for x
  proof -
    have "safely (\<lambda>(_, c'). keeps x c') (handle_v2_packet wire now x)"
      using that by (intro handle_v2_packet_keeps assms(2)) (simp add: conn_ok_def base_ok_def)
    with keeps_next [OF that(1)] that(2) show ?thesis by (auto elim!: safelyE simp: keeps_def)
  qed
  have eq: "handle_datagram wire now c = (if c_state c = Closed then Some (Inl ErrConnectionClosed, c1)
    else (case c_state c of
           SynSent \<Rightarrow> handle_syn_ack wire now c2
         | SynReceived \<Rightarrow> Option.bind (handle_final_ack wire now c2) (\<lambda>(handled, c).
             if handled then Some (Inr (), c)
             else Option.bind (transition_to_established now c) (handle_v2_packet wire now))
         | Established \<Rightarrow> Option.bind (is_repeated_syn_ack wire c2) (\<lambda>repeated.
             if repeated then Some (Inr (), resend_handshake_datagram c2) else handle_v2_packet wire now c2)
         | Closed \<Rightarrow> Some (Inl ErrConnectionClosed, c2)))"
    unfolding handle_datagram_def c1_def c2_def Let_def by (simp split: conn_state.splits)
  show ?thesis
  proof (cases "c_state c")
    case SynSent
    with handle_syn_ack_next [OF ok2 _ assms(2), of wire] st2 show ?thesis by (simp add: eq)
  next
    case SynReceived
    have "safely (\<lambda>(_, c'). next_ok c c') (Option.bind (handle_final_ack wire now c2) (\<lambda>(handled, c).
             if handled then Some (Inr (), c)
             else Option.bind (transition_to_established now c) (handle_v2_packet wire now)))"
    proof (rule safely_bind [OF handle_final_ack_ok])
      show "conn_ok c2" "c_state c2 = SynReceived" "now < 2 ^ 64" using ok2 st2 SynReceived assms(2) by auto
      fix hx assume hx: "case hx of (handled, c') \<Rightarrow> next_ok c2 c' \<and> (\<not> handled \<longrightarrow> c' = c2)"
      have "safely (\<lambda>(_, c'). conn_ok c' \<and> c_state c' = Established) (Option.bind (transition_to_established now c2) (handle_v2_packet wire now))"
        by (rule safely_bind [OF transition_ok])
          (use ok2 st2 SynReceived v2 in \<open>auto simp: conn_ok_def\<close>)
      then have "safely (\<lambda>(_, c'). next_ok c c') (Option.bind (transition_to_established now c2) (handle_v2_packet wire now))"
        by (rule safely_mono) (use SynReceived in \<open>auto intro: lifecycle.server_established\<close>)
      with hx st2 show "safely (\<lambda>(_, c'). next_ok c c') (case hx of (handled, c) \<Rightarrow>
             if handled then Some (Inr (), c)
             else Option.bind (transition_to_established now c) (handle_v2_packet wire now))"
        by (cases hx) auto
    qed
    with SynReceived show ?thesis by (simp add: eq)
  next
    case Established
    have "next_ok c2 (resend_handshake_datagram c2)"
      using ok2 st2 Established by (intro keeps_next resend_keeps) (auto simp: conn_ok_def base_ok_def)
    then have "safely (\<lambda>(_, c'). next_ok c c') (Option.bind (is_repeated_syn_ack wire c2) (\<lambda>repeated.
             if repeated then Some (Inr (), resend_handshake_datagram c2) else handle_v2_packet wire now c2))"
      using v2 [OF ok2] st2 Established
      by (intro safely_bind [OF is_repeated_syn_ack_total]) (auto elim!: safelyE intro: lifecycle.stays)
    with Established show ?thesis by (simp add: eq)
  next
    case Closed
    with ok1 show ?thesis by (simp add: eq lifecycle.stays)
  qed
qed

section \<open>Reachable connections\<close>

fun call_ok :: "conn_call \<Rightarrow> bool" where
  "call_ok (CallDatagram wire now) = (now < 2 ^ 64)"
| "call_ok (CallTransmit now) = (now < 2 ^ 64)"
| "call_ok (CallTimeout now) = (now < 2 ^ 64)"
| "call_ok _ = True"

inductive reachable :: "connection \<Rightarrow> bool" where
  client: "config_ok config \<Longrightarrow> now < 2 ^ 64 \<Longrightarrow> connect config now = Some (Inr c) \<Longrightarrow> reachable c"
| server: "config_ok config \<Longrightarrow> now < 2 ^ 64 \<Longrightarrow> accept config syn now = Some (Inr c) \<Longrightarrow> reachable c"
| call: "reachable c \<Longrightarrow> call_ok call \<Longrightarrow> conn_step call c = Some c' \<Longrightarrow> reachable c'"

lemma conn_new_base:
  "config_ok config \<Longrightarrow> cf_log_window_size config \<le> LOG_WINDOW_SIZE_MAX \<Longrightarrow> base_ok (conn_new side config)"
  by (simp add: base_ok_def parts_ok_def conn_new_def timer_laws rtt_new_ok HANDSHAKE_RETRANSMIT_LIMIT_def)

lemma connect_safely:
  assumes "config_ok config"
  shows "safely (\<lambda>r. case r of Inl _ \<Rightarrow> True | Inr c \<Rightarrow> conn_ok c) (connect config now)"
proof (cases "cf_log_window_size config \<le> LOG_WINDOW_SIZE_MAX \<and> cf_cookie_hash config \<noteq> None")
  case True
  let ?c = "conn_new Client config"
  have base: "base_ok ?c" using assms True by (simp add: conn_new_base)
  have cfg: "c_config ?c = config" by (simp add: conn_new_def)
  have "safely (\<lambda>(queued, c'). (queued \<longrightarrow> base_ok c' \<and> state_ok SynSent c' \<and> c_state c' = SynSent) \<and>
      (\<not> queued \<longrightarrow> conn_ok c')) (enqueue_handshake (syn_datagram ?c) ?c)"
    using syn_encode_no_panic [of ?c] assms True base close_ok(2) [OF base]
    by (cases "encode_vec v1_datagram_size encode_v1_datagram (syn_datagram ?c)")
      (auto simp: enqueue_handshake_def unwind_safely cfg base_ok_def parts_ok_def,
       auto simp: conn_new_def)
  then have "safely conn_ok (enqueue_syn now ?c)"
    unfolding enqueue_syn_def
    by (rule safely_bind) (auto simp: conn_ok_def base_ok_def parts_ok_def timer_laws Let_def)
  with True show ?thesis
    by (auto simp: connect_def elim!: safelyE)
qed (auto simp: connect_def not_le)

lemma enqueue_syn_ack_ok:
  "enqueue_syn_ack isn (negotiated_mtu a b) (negotiated_mtu x y) now c =
     Some (let d = v1_datagram_layout (syn_ack_datagram isn (negotiated_mtu a b) (negotiated_mtu x y) c)
           in arm TimerRetransmit (instant_add now (re_rto (c_rtt c)))
             (c\<lparr>c_pending_transmits := c_pending_transmits c @ [d], c_handshake_datagram := Some d,
                c_handshake_retransmits := 0, c_handshake_sent_at := Some now\<rparr>))"
  by (simp add: enqueue_syn_ack_def enqueue_handshake_valid [OF syn_ack_valid] Let_def)

lemma accept_safely:
  assumes "config_ok config"
  shows "safely (\<lambda>r. case r of Inl _ \<Rightarrow> True | Inr c \<Rightarrow> conn_ok c) (accept config syn now)"
  using assms
  by (auto simp: accept_def enqueue_syn_ack_ok Let_def not_less negotiate_def conn_new_def conn_ok_def base_ok_def
      parts_ok_def timer_laws rtt_new_ok HANDSHAKE_RETRANSMIT_LIMIT_def split: option.splits)

lemma conn_step_next:
  assumes "conn_ok c" "call_ok call"
  shows "safely (next_ok c) (conn_step call c)"
  using assms send_next [OF assms(1)] poll_event_next [OF assms(1)] close_next [OF assms(1)]
    poll_transmit_next [OF assms(1)] handle_timeout_next [OF assms(1)] handle_datagram_next [OF assms(1)]
  by (cases call) (auto intro!: safely_map simp: case_prod_unfold)

lemma reachable_ok: "reachable c \<Longrightarrow> conn_ok c"
proof (induction rule: reachable.induct)
  case (client config now c)
  with connect_safely [of config now] show ?case by simp
next
  case (server config now syn c)
  with accept_safely [of config syn now] show ?case by simp
next
  case (call c call c')
  with conn_step_next [of c call] show ?case by simp
qed

text \<open>
  C1. No peer and no application can crash a connection: in every reachable state, every
  call of the API returns, whatever bytes a datagram holds and whenever a timer is serviced,
  and the state moves only along the documented lifecycle: from the handshake to
  \<open>Established\<close>, and from anywhere to \<open>Closed\<close>.
\<close>

theorem connection_never_panics:
  assumes "reachable c" "call_ok call"
  shows "\<exists>c'. conn_step call c = Some c' \<and> lifecycle (c_state c) (c_state c')"
  using conn_step_next [OF reachable_ok [OF assms(1)] assms(2)] by (auto elim!: safelyE)

definition sample_config :: connection_config where
  "sample_config = default_config\<lparr>cf_cookie_hash := Some (replicate 32 7)\<rparr>"

lemma sample_client_reachable:
  obtains c where "connect sample_config 0 = Some (Inr c)" "reachable c"
proof -
  have cfg: "config_ok sample_config" by (simp add: sample_config_def config_ok_def)
  have "v1_datagram_valid (syn_datagram (conn_new Client sample_config))"
    by (rule syn_valid) (simp_all add: conn_new_def cfg, simp_all add: sample_config_def default_config_def MTU_MIN_def MTU_MAX_def)
  then have "\<exists>c. connect sample_config 0 = Some (Inr c)"
    by (simp add: connect_def enqueue_syn_def enqueue_handshake_valid Let_def)
      (simp add: sample_config_def default_config_def LOG_WINDOW_SIZE_MAX_def)
  then obtain c where "connect sample_config 0 = Some (Inr c)" by blast
  with cfg show ?thesis by (intro that reachable.client) auto
qed

theorem connection_never_panics_witness:
  "\<exists>c c'. reachable c \<and> conn_step (CallDatagram [1, 2, 3] 40) c = Some c'"
proof -
  obtain c where "connect sample_config 0 = Some (Inr c)" "reachable c" by (rule sample_client_reachable)
  with connection_never_panics [of c "CallDatagram [1, 2, 3] 40"] show ?thesis by auto
qed

text \<open>
  C4. A closed connection stays closed and is silent: it asks for no wake-up, has nothing
  to transmit, refuses datagrams and data, and no call brings it back.
\<close>

theorem closed_connection_is_silent:
  assumes "reachable c" "is_closed c" "call_ok call"
  shows "poll_timeout c = None \<and> poll_transmit now c = Some (None, c) \<and>
    fst (send data c) = Inl (ErrConnectionClosed, data) \<and>
    (\<exists>c'. handle_datagram wire now c = Some (Inl ErrConnectionClosed, c')) \<and>
    (\<exists>c'. conn_step call c = Some c' \<and> is_closed c')"
proof -
  have closed: "c_state c = Closed" using assms(2) by (simp add: is_closed_def)
  have ok: "conn_ok c" by (rule reachable_ok [OF assms(1)])
  then have "poll_timeout c = None"
    using closed by (simp add: poll_timeout_def conn_ok_def base_ok_def parts_ok_def next_deadline_None_iff)
  moreover obtain c' where "conn_step call c = Some c'" "lifecycle Closed (c_state c')"
    using conn_step_next [OF ok assms(3)] closed by (auto elim!: safelyE)
  ultimately show ?thesis
    using closed
    by (auto simp: poll_transmit_def poll_transmit_inner_def send_def handle_datagram_def is_closed_def
        elim: lifecycle_from_closed)
qed

theorem closed_connection_is_silent_witness:
  "\<exists>c. reachable c \<and> is_closed c \<and> poll_timeout c = None"
proof -
  obtain c where c: "reachable c" by (rule sample_client_reachable)
  have "reachable (close c)" by (rule reachable.call [OF c, of CallClose]) simp_all
  moreover have "is_closed (close c)" by (simp add: is_closed_def close_def)
  ultimately show ?thesis using closed_connection_is_silent [of "close c" CallEvent] by auto
qed

end
