(* ===== verification/Handshake.thy ===== *)
theory Handshake
  imports Lifecycle
begin

text \<open>
  The three-way handshake between the two ends of this crate, over the bytes on the wire:
  \<open>connect\<close> on the client, \<open>accept\<close> on the server, and the datagrams each hands to the other.
  \<open>run_handshake\<close> composes the calls a driver makes.
\<close>

section \<open>The datagrams as the peer sees them\<close>

lemma decode_v1_layout:
  "v1_datagram_valid d \<Longrightarrow> decode decode_v1_datagram (v1_datagram_layout d) = Inr (v1_normal d)"
  using decode_v1_datagram_layout [where r = "[]"] by (simp add: decode_def)

lemma flags_contain_or: "flags_contain f (a OR b) \<longleftrightarrow> flags_contain f a \<and> flags_contain f b"
proof -
  have "f AND (a OR b) = a OR b \<longleftrightarrow> f AND a = a \<and> f AND b = b" for a b f :: u16
    by (auto simp: bit_eq_iff bit_and_iff bit_or_iff)
  then show ?thesis by (simp add: flags_contain_def)
qed

lemma v1_normal_parts [simp]:
  "fec_flags (v1_header (v1_normal d)) = v1_compute_flags d" "v1_syn_data (v1_normal d) = v1_syn_data d"
  "v1_syn_data_ex (v1_normal d) = v1_syn_data_ex d"
  by (simp_all add: v1_normal_def)

text \<open>
  C3. The server admits exactly the clients that can prove they belong: \<open>accept\<close> builds a
  connection if and only if its own configuration is usable and the SYN carries its SYNDATA,
  offers protocol version 3 or higher with the version field marked valid, and carries the
  cookie hash the server expects. In every other case it returns an error.
\<close>

theorem accept_admits_exactly:
  assumes "config_ok config"
  shows "(\<exists>c. accept config syn now = Some (Inr c)) \<longleftrightarrow>
    cf_log_window_size config \<le> 15 \<and>
    (\<exists>sd ex hash. v1_syn_data syn = Some sd \<and> v1_syn_data_ex syn = Some ex \<and>
       cf_cookie_hash config = Some hash \<and> cookie_hash ex = Some hash \<and>
       flags_contain (syn_ex_flags ex) SYNEX_VERSION_INFO_VALID \<and> UDP_V3 \<le> udp_ver ex)"
  by (auto simp: accept_def enqueue_syn_ack_ok Let_def not_less LOG_WINDOW_SIZE_MAX_def UDP_V1_def UDP_V3_def
      split: option.splits)

theorem accept_admits_exactly_witness:
  "config_ok sample_config \<and> \<not> (\<exists>c. accept sample_config sample_client_syn 0 = Some (Inr c)) \<and>
   (\<exists>c. accept (sample_config\<lparr>cf_cookie_hash := Some (replicate 32 5)\<rparr>) sample_client_syn 0 = Some (Inr c))"
proof -
  have ok: "config_ok sample_config" "config_ok (sample_config\<lparr>cf_cookie_hash := Some (replicate 32 5)\<rparr>)"
    by (simp_all add: config_ok_def sample_config_def)
  have "replicate 32 7 \<noteq> (replicate 32 5 :: bytes)"
    by (simp add: replicate_unfold)
  then show ?thesis
    using accept_admits_exactly [OF ok(1), of sample_client_syn 0] accept_admits_exactly [OF ok(2), of sample_client_syn 0] ok(1)
    by (simp add: sample_config_def default_config_def sample_client_syn_def flags_contain_def SYNEX_VERSION_INFO_VALID_def)
qed

section \<open>The exchange\<close>

definition ok_of :: "'e + 'a \<Rightarrow> 'a option" where
  "ok_of r = (case r of Inl _ \<Rightarrow> None | Inr x \<Rightarrow> Some x)"

definition run_handshake ::
  "connection_config \<Rightarrow> connection_config \<Rightarrow> instant \<Rightarrow> instant \<Rightarrow> instant \<Rightarrow> instant \<Rightarrow> (connection \<times> connection) option" where
  "run_handshake ccfg scfg t0 t1 t2 t3 = do {
     r \<leftarrow> connect ccfg t0;
     c \<leftarrow> ok_of r;
     (sent, c) \<leftarrow> poll_transmit t0 c;
     syn \<leftarrow> sent;
     datagram \<leftarrow> ok_of (decode decode_v1_datagram syn);
     r \<leftarrow> accept scfg datagram t1;
     s \<leftarrow> ok_of r;
     (sent, s) \<leftarrow> poll_transmit t1 s;
     syn_ack \<leftarrow> sent;
     (r, c) \<leftarrow> handle_datagram syn_ack t2 c;
     _ \<leftarrow> ok_of r;
     (sent, c) \<leftarrow> poll_transmit t2 c;
     ack \<leftarrow> sent;
     (r, s) \<leftarrow> handle_datagram ack t3 s;
     _ \<leftarrow> ok_of r;
     Some (c, s) }"

text \<open>Handing out a queued datagram changes the queue, the keep-alive timer and a counter.\<close>

definition handed_out :: "instant \<Rightarrow> connection \<Rightarrow> connection" where
  "handed_out now c = (rearm_keep_alive now (c\<lparr>c_pending_transmits := tl (c_pending_transmits c)\<rparr>))
     \<lparr>c_stats := (c_stats c)\<lparr>st_datagrams_out := u64_add (st_datagrams_out (c_stats c)) 1\<rparr>\<rparr>"

lemma handed_out_fields [simp]:
  "c_state (handed_out now c) = c_state c" "c_side (handed_out now c) = c_side c" "c_config (handed_out now c) = c_config c"
  "c_params (handed_out now c) = c_params c" "c_pending_events (handed_out now c) = c_pending_events c"
  "c_pending_transmits (handed_out now c) = tl (c_pending_transmits c)" "c_rtt (handed_out now c) = c_rtt c"
  "c_handshake_retransmits (handed_out now c) = c_handshake_retransmits c"
  "c_handshake_sent_at (handed_out now c) = c_handshake_sent_at c" "c_handshake_datagram (handed_out now c) = c_handshake_datagram c"
  "conn_mtu (handed_out now c) = conn_mtu c" "c_send_window (handed_out now c) = c_send_window c"
  "c_recv_window (handed_out now c) = c_recv_window c" "c_congestion (handed_out now c) = c_congestion c"
  "c_send_buffer (handed_out now c) = c_send_buffer c" "c_reliability (handed_out now c) = c_reliability c"
  by (simp_all add: handed_out_def rearm_keep_alive_def conn_mtu_def)

lemma poll_transmit_queued:
  assumes "conn_ok c" "c_state c \<noteq> Closed" "c_pending_transmits c = t # rest"
  shows "poll_transmit now c = Some (Some t, handed_out now c) \<and> conn_ok (handed_out now c)"
proof -
  have eq: "poll_transmit now c = Some (Some t, handed_out now c)"
    using assms by (simp add: poll_transmit_def poll_transmit_inner_def handed_out_def rearm_keep_alive_def)
  with poll_transmit_next [OF assms(1), of now] show ?thesis by simp
qed

text \<open>The client after \<open>connect\<close> and after its SYN was handed out.\<close>

lemma connect_syn_sent:
  assumes "config_ok cfg" "cf_cookie_hash cfg \<noteq> None" "cf_log_window_size cfg \<le> 15"
    "mtu_in_range (cf_upstream_mtu cfg)" "mtu_in_range (cf_downstream_mtu cfg)" "t0 < 2 ^ 64"
  obtains c c' where "connect cfg t0 = Some (Inr c)"
    "poll_transmit t0 c = Some (Some (v1_datagram_layout (syn_datagram (conn_new Client cfg))), c')"
    "conn_ok c'" "c_state c' = SynSent" "c_config c' = cfg" "c_pending_transmits c' = []" "c_pending_events c' = []"
    "c_handshake_retransmits c' = 0" "c_handshake_sent_at c' = Some t0" "c_rtt c' = rtt_new"
proof -
  have valid: "v1_datagram_valid (syn_datagram (conn_new Client cfg))"
    by (rule syn_valid) (use assms in \<open>simp_all add: conn_new_def\<close>)
  let ?syn = "v1_datagram_layout (syn_datagram (conn_new Client cfg))"
  define c where "c = arm TimerIdle (instant_add t0 (cf_idle_timeout cfg)) (arm TimerRetransmit (instant_add t0 (re_rto rtt_new))
    ((conn_new Client cfg)\<lparr>c_pending_transmits := [?syn], c_handshake_datagram := Some ?syn,
       c_handshake_retransmits := 0, c_handshake_sent_at := Some t0\<rparr>))"
  have new: "c_pending_transmits (conn_new Client cfg) = []" "c_config (conn_new Client cfg) = cfg" "c_rtt (conn_new Client cfg) = rtt_new"
    by (simp_all add: conn_new_def)
  have con: "connect cfg t0 = Some (Inr c)"
    using assms by (simp add: connect_def enqueue_syn_def enqueue_handshake_valid [OF valid] Let_def LOG_WINDOW_SIZE_MAX_def
        c_def new not_less)
  have fields: "c_state c = SynSent" "c_config c = cfg" "c_pending_transmits c = [?syn]" "c_pending_events c = []"
    "c_handshake_retransmits c = 0" "c_handshake_sent_at c = Some t0" "c_rtt c = rtt_new"
    by (simp_all add: c_def conn_new_def)
  have ok: "conn_ok c" using connect_safely [OF assms(1), of t0] con by simp
  have "poll_transmit t0 c = Some (Some ?syn, handed_out t0 c) \<and> conn_ok (handed_out t0 c)"
    by (rule poll_transmit_queued [OF ok]) (simp_all add: fields)
  then show ?thesis by (intro that [OF con, of "handed_out t0 c"]) (simp_all add: fields)
qed

text \<open>The server after \<open>accept\<close> and after its SYN+ACK was handed out.\<close>

lemma accept_syn_ack_sent:
  assumes "config_ok cfg" "cf_cookie_hash cfg = Some hash" "cf_log_window_size cfg \<le> 15" "t1 < 2 ^ 64"
    "cf_cookie_hash (c_config peer) = Some hash"
  obtains s s' where "accept cfg (v1_normal (syn_datagram peer)) t1 = Some (Inr s)"
    "poll_transmit t1 s = Some (Some (v1_datagram_layout (syn_ack_datagram
       (cf_initial_sequence_number (c_config peer))
       (negotiated_mtu (cf_upstream_mtu (c_config peer)) (cf_downstream_mtu cfg))
       (negotiated_mtu (cf_downstream_mtu (c_config peer)) (cf_upstream_mtu cfg)) s)), s')"
    "c_config s = cfg" "conn_ok s'" "c_state s' = SynReceived" "c_config s' = cfg" "c_pending_events s' = []"
    "conn_mtu s' = Some (min (min (min (cf_upstream_mtu cfg) (cf_downstream_mtu cfg))
       (cf_upstream_mtu (c_config peer))) (cf_downstream_mtu (c_config peer)))"
    "c_pending_transmits s' = []" "c_congestion s' = cc_new" "c_send_buffer s' = []" "c_reliability s' = rel_new"
proof -
  define s0 where "s0 = negotiate \<lparr>initial_sequence_number = cf_initial_sequence_number (c_config peer),
      upstream_mtu = cf_upstream_mtu (c_config peer), downstream_mtu = cf_downstream_mtu (c_config peer)\<rparr>
    ((conn_new Server cfg)\<lparr>c_state := SynReceived\<rparr>)"
  let ?d = "syn_ack_datagram (cf_initial_sequence_number (c_config peer))
       (negotiated_mtu (cf_upstream_mtu (c_config peer)) (cf_downstream_mtu cfg))
       (negotiated_mtu (cf_downstream_mtu (c_config peer)) (cf_upstream_mtu cfg))"
  define s where "s = (arm TimerIdle (instant_add t1 (cf_idle_timeout cfg)) (arm TimerRetransmit (instant_add t1 (re_rto (c_rtt s0)))
    (s0\<lparr>c_pending_transmits := [v1_datagram_layout (?d s0)], c_handshake_datagram := Some (v1_datagram_layout (?d s0)),
       c_handshake_retransmits := 0, c_handshake_sent_at := Some t1\<rparr>)))"
  have acc: "accept cfg (v1_normal (syn_datagram peer)) t1 = Some (Inr s)"
    using assms
    by (simp add: accept_def syn_datagram_def enqueue_syn_ack_ok Let_def LOG_WINDOW_SIZE_MAX_def flags_contain_def
        s_def s0_def negotiate_def)
      (simp add: conn_new_def)
  have fields: "c_config s = cfg" "c_state s = SynReceived" "c_pending_events s = []" "c_config s0 = cfg"
    "c_pending_transmits s = [v1_datagram_layout (?d s0)]"
    "conn_mtu s = Some (min (min (min (cf_upstream_mtu cfg) (cf_downstream_mtu cfg))
       (cf_upstream_mtu (c_config peer))) (cf_downstream_mtu (c_config peer)))"
    "c_congestion s = cc_new" "c_send_buffer s = []" "c_reliability s = rel_new"
    by (simp_all add: s_def s0_def negotiate_def conn_new_def conn_mtu_def smallest_mtu_def)
  have d: "?d s0 = ?d s" by (simp add: syn_ack_datagram_def advertised_window_def fields)
  have ok: "conn_ok s" using accept_safely [OF assms(1), of "v1_normal (syn_datagram peer)" t1] acc by simp
  have "poll_transmit t1 s = Some (Some (v1_datagram_layout (?d s)), handed_out t1 s) \<and> conn_ok (handed_out t1 s)"
    by (rule poll_transmit_queued [OF ok]) (simp_all add: fields d)
  then show ?thesis by (intro that [OF acc, of "handed_out t1 s"]) (simp_all add: fields)
qed

lemma transition_fields:
  assumes "c_params c \<noteq> None"
  obtains c' where "transition_to_established now c = Some c'" "c_state c' = Established"
    "c_pending_events c' = c_pending_events c @ [Connected]" "c_rtt c' = c_rtt c"
    "c_pending_transmits c' = c_pending_transmits c" "c_params c' = c_params c"
  using assms by (cases "c_side c = Server") (auto simp: transition_to_established_def Let_def)

text \<open>The client on the SYN+ACK.\<close>

lemma client_establishes:
  assumes ok: "conn_ok c" "c_state c = SynSent" "c_pending_transmits c = []" "c_pending_events c = []"
    and hs: "c_handshake_retransmits c = 0" "c_handshake_sent_at c = Some t0" "c_rtt c = rtt_new"
    and t2: "t2 < 2 ^ 64"
    and mtu: "mtu_in_range up" "mtu_in_range down"
  obtains c' ack c'' where
    "handle_datagram (v1_datagram_layout (syn_ack_datagram isn up down s)) t2 c = Some (Inr (), c')"
    "poll_transmit t2 c' = Some (Some (v1_datagram_layout (final_ack_datagram (cf_initial_sequence_number (c_config s)) ack)), c'')"
    "c_state c'' = Established" "c_pending_events c'' = [Connected]" "re_srtt (c_rtt c'') = Some (duration_since t2 t0)"
    "conn_mtu c'' = Some (min (min (min (cf_upstream_mtu (c_config c)) (cf_downstream_mtu (c_config c))) up) down)"
    "conn_ok c''"
proof -
  let ?d = "syn_ack_datagram isn up down s"
  let ?peer = "\<lparr>initial_sequence_number = cf_initial_sequence_number (c_config s), upstream_mtu = up, downstream_mtu = down\<rparr>"
  have valid: "v1_datagram_valid ?d"
    using mtu
    by (auto simp: v1_datagram_valid_def syn_ack_datagram_def v1_compute_flags_def flag_eval v1_is_client_syn_def
        v1_ack_vector.opt_valid_def syn_data.opt_valid_def correlation_id.opt_valid_def syn_data_ex.opt_valid_def
        syn_data_valid_def syn_data_ex_valid_def syn_ex_flags_from_bits_truncate_def SYNEX_VERSION_INFO_VALID_def)
  have flags: "flags_contain (v1_compute_flags ?d) (V1_SYN OR V1_ACK)"
    by (simp add: flags_contain_or v1_compute_flags_contain) (simp add: syn_ack_datagram_def flag_eval)
  have syn: "v1_syn_data ?d = Some ?peer" "\<exists>ex. v1_syn_data_ex ?d = Some ex \<and> udp_ver ex = UDP_V3"
    by (simp_all add: syn_ack_datagram_def)
  define c1 where "c1 = arm TimerIdle (instant_add t2 (cf_idle_timeout (c_config c)))
    (c\<lparr>c_stats := (c_stats c)\<lparr>st_datagrams_in := u64_add (st_datagrams_in (c_stats c)) 1\<rparr>\<rparr>)"
  have lim: "duration_since t2 t0 < SAMPLE_LIMIT" using sample_limit [OF t2, of t0 0] by simp
  obtain est where est: "rtt_update (duration_since t2 t0) rtt_new = Some est" "re_srtt est = Some (duration_since t2 t0)"
  proof -
    obtain est where "rtt_update (duration_since t2 t0) rtt_new = Some est"
      by (rule rtt_update_ok [OF rtt_new_ok lim]) blast
    moreover from this have "re_srtt est = Some (duration_since t2 t0)"
      by (auto simp: rtt_update_def rtt_new_def recompute_rto_def bind_eq_Some_conv)
    ultimately show ?thesis by (rule that)
  qed
  define c2 where "c2 = (negotiate ?peer c1)\<lparr>c_rtt := est\<rparr>"
  have rtt: "sample_handshake_rtt t2 (negotiate ?peer c1) = Some c2"
    using est hs by (simp add: sample_handshake_rtt_def negotiate_def c1_def c2_def)
  let ?ack = "v1_datagram_layout (final_ack_datagram (cf_initial_sequence_number (c_config s)) c2)"
  define c3 where "c3 = c2\<lparr>c_pending_transmits := [?ack], c_handshake_datagram := Some ?ack, c_handshake_retransmits := 0\<rparr>"
  have fin: "enqueue_final_ack (cf_initial_sequence_number (c_config s)) c2 = Some c3"
    using ok(3) by (simp add: enqueue_final_ack_def enqueue_handshake_valid [OF final_ack_valid] c3_def)
      (simp add: c2_def negotiate_def c1_def)
  obtain c' where c': "transition_to_established t2 c3 = Some c'" "c_state c' = Established"
    "c_pending_events c' = [Connected]" "c_rtt c' = est" "c_pending_transmits c' = [?ack]" "c_params c' = c_params c2"
    by (rule transition_fields [of c3 t2]) (use ok(4) in \<open>auto simp: c3_def c2_def negotiate_def c1_def\<close>)
  have handled: "handle_datagram (v1_datagram_layout ?d) t2 c = Some (Inr (), c')"
    using syn flags rtt [unfolded c1_def] fin c'(1) ok(2)
    by (auto simp: handle_datagram_def handle_syn_ack_def unwind_def decode_v1_layout [OF valid] uses_v2_wire_format_def Let_def)
  have ok': "conn_ok c'" using handle_datagram_next [OF ok(1) t2, of "v1_datagram_layout ?d"] handled by simp
  have mtu': "conn_mtu c' = Some (min (min (min (cf_upstream_mtu (c_config c)) (cf_downstream_mtu (c_config c))) up) down)"
    using c'(6) by (simp add: conn_mtu_def c2_def negotiate_def smallest_mtu_def c1_def)
  have "poll_transmit t2 c' = Some (Some ?ack, handed_out t2 c') \<and> conn_ok (handed_out t2 c')"
    by (rule poll_transmit_queued [OF ok']) (simp_all add: c')
  then show ?thesis using est(2) mtu' by (intro that [OF handled, of c2 "handed_out t2 c'"]) (simp_all add: c')
qed

text \<open>The server on the final ACK.\<close>

lemma server_establishes:
  assumes ok: "conn_ok s" "c_state s = SynReceived" "c_pending_events s = []" and t3: "t3 < 2 ^ 64"
  obtains s' where "handle_datagram (v1_datagram_layout (final_ack_datagram isn c)) t3 s = Some (Inr (), s')"
    "c_state s' = Established" "c_pending_events s' = [Connected]" "conn_mtu s' = conn_mtu s" "conn_ok s'"
proof -
  let ?d = "final_ack_datagram isn c"
  define s1 where "s1 = arm TimerIdle (instant_add t3 (cf_idle_timeout (c_config s)))
    (s\<lparr>c_stats := (c_stats s)\<lparr>st_datagrams_in := u64_add (st_datagrams_in (c_stats s)) 1\<rparr>\<rparr>)"
  have flags: "\<not> flags_contain (v1_compute_flags ?d) V1_SYN" "flags_contain (v1_compute_flags ?d) V1_ACK"
    by (simp_all add: v1_compute_flags_contain final_ack_datagram_def)
  have p1: "parts_ok s1" "c_params s1 \<noteq> None"
    using ok by (auto simp: s1_def conn_ok_def base_ok_def parts_ok_def timer_laws)
  have sampled: "safely (\<lambda>x. c_params x = c_params s1 \<and> c_pending_events x = c_pending_events s1 \<and> keeps s1 x)
    (sample_handshake_rtt t3 s1)"
    using sample_handshake_rtt_keeps [OF p1(1) t3]
    by (auto simp: sample_handshake_rtt_def bind_eq_Some_conv elim!: safelyE split: option.splits if_splits)
  then obtain s2 where s2: "sample_handshake_rtt t3 s1 = Some s2" "c_params s2 = c_params s1"
    "c_pending_events s2 = c_pending_events s1" by (auto elim!: safelyE)
  obtain s' where s': "transition_to_established t3 s2 = Some s'" "c_state s' = Established"
    "c_pending_events s' = [Connected]" "c_params s' = c_params s"
    by (rule transition_fields [of s2 t3]) (use p1(2) s2 ok(3) in \<open>auto simp: s1_def\<close>)
  have handled: "handle_datagram (v1_datagram_layout ?d) t3 s = Some (Inr (), s')"
    using flags s2(1) [unfolded s1_def] s'(1) ok(2)
    by (auto simp: handle_datagram_def handle_final_ack_def unwind_def decode_v1_layout [OF final_ack_valid] Let_def)
  have "conn_ok s'" using handle_datagram_next [OF ok(1) t3, of "v1_datagram_layout ?d"] handled by simp
  with handled s' show ?thesis by (intro that) (simp_all add: conn_mtu_def)
qed

text \<open>
  C2. The handshake completes: two endpoints that share the cookie, with windows and MTUs
  in the range the protocol allows, reach \<open>Established\<close> in three datagrams. Each side reports
  \<open>Connected\<close> once, the client has the round trip of its SYN as its first RTT estimate, and
  both work with the same MTU, the smallest of the four configured.
\<close>

theorem handshake_completes:
  assumes "config_ok ccfg" "cf_log_window_size ccfg \<le> 15"
    "mtu_in_range (cf_upstream_mtu ccfg)" "mtu_in_range (cf_downstream_mtu ccfg)"
    and "config_ok scfg" "cf_log_window_size scfg \<le> 15"
    "mtu_in_range (cf_upstream_mtu scfg)" "mtu_in_range (cf_downstream_mtu scfg)"
    and "cf_cookie_hash ccfg = Some hash" "cf_cookie_hash scfg = Some hash"
    and "t0 < 2 ^ 64" "t1 < 2 ^ 64" "t2 < 2 ^ 64" "t3 < 2 ^ 64"
  shows "\<exists>c s. run_handshake ccfg scfg t0 t1 t2 t3 = Some (c, s) \<and> is_established c \<and> is_established s \<and>
    c_pending_events c = [Connected] \<and> c_pending_events s = [Connected] \<and>
    re_srtt (c_rtt c) = Some (duration_since t2 t0) \<and>
    conn_mtu c = Some (min (min (cf_upstream_mtu ccfg) (cf_downstream_mtu ccfg))
      (min (cf_upstream_mtu scfg) (cf_downstream_mtu scfg))) \<and> conn_mtu s = conn_mtu c"
proof -
  let ?up = "negotiated_mtu (cf_upstream_mtu ccfg) (cf_downstream_mtu scfg)"
  let ?down = "negotiated_mtu (cf_downstream_mtu ccfg) (cf_upstream_mtu scfg)"
  have neg: "?up = min (cf_upstream_mtu ccfg) (cf_downstream_mtu scfg)" "?down = min (cf_downstream_mtu ccfg) (cf_upstream_mtu scfg)"
    using assms(3,4,7,8) by (auto simp: negotiated_mtu_def MTU_MIN_def MTU_MAX_def min_def max_def)
  have range: "mtu_in_range ?up" "mtu_in_range ?down"
    using assms(3,4,7,8) unfolding neg by (auto simp: min_def)
  obtain c0 c1 where c1: "connect ccfg t0 = Some (Inr c0)"
    "poll_transmit t0 c0 = Some (Some (v1_datagram_layout (syn_datagram (conn_new Client ccfg))), c1)"
    "conn_ok c1" "c_state c1 = SynSent" "c_config c1 = ccfg" "c_pending_transmits c1 = []" "c_pending_events c1 = []"
    "c_handshake_retransmits c1 = 0" "c_handshake_sent_at c1 = Some t0" "c_rtt c1 = rtt_new"
    by (rule connect_syn_sent [of ccfg t0]) (use assms in auto)
  have cfg: "c_config (conn_new Client ccfg) = ccfg" by (simp add: conn_new_def)
  have syn: "decode decode_v1_datagram (v1_datagram_layout (syn_datagram (conn_new Client ccfg))) =
    Inr (v1_normal (syn_datagram (conn_new Client ccfg)))"
    by (rule decode_v1_layout [OF syn_valid]) (use assms cfg in auto)
  obtain s0 s1 where s1: "accept scfg (v1_normal (syn_datagram (conn_new Client ccfg))) t1 = Some (Inr s0)"
    "poll_transmit t1 s0 = Some (Some (v1_datagram_layout (syn_ack_datagram (cf_initial_sequence_number ccfg) ?up ?down s0)), s1)"
    "c_config s0 = scfg" "conn_ok s1" "c_state s1 = SynReceived" "c_pending_events s1 = []"
    "conn_mtu s1 = Some (min (min (min (cf_upstream_mtu scfg) (cf_downstream_mtu scfg)) (cf_upstream_mtu ccfg)) (cf_downstream_mtu ccfg))"
    by (rule accept_syn_ack_sent [of scfg hash t1 "conn_new Client ccfg"]) (use assms cfg in auto)
  obtain c2 d c3 where c3:
    "handle_datagram (v1_datagram_layout (syn_ack_datagram (cf_initial_sequence_number ccfg) ?up ?down s0)) t2 c1 = Some (Inr (), c2)"
    "poll_transmit t2 c2 = Some (Some (v1_datagram_layout (final_ack_datagram (cf_initial_sequence_number (c_config s0)) d)), c3)"
    "c_state c3 = Established" "c_pending_events c3 = [Connected]" "re_srtt (c_rtt c3) = Some (duration_since t2 t0)"
    "conn_mtu c3 = Some (min (min (min (cf_upstream_mtu ccfg) (cf_downstream_mtu ccfg)) ?up) ?down)"
    using client_establishes [OF c1(3,4,6-10) assms(13) range, of "cf_initial_sequence_number ccfg" s0] c1(5) by metis
  obtain s2 where s2: "handle_datagram (v1_datagram_layout (final_ack_datagram (cf_initial_sequence_number (c_config s0)) d)) t3 s1 = Some (Inr (), s2)"
    "c_state s2 = Established" "c_pending_events s2 = [Connected]" "conn_mtu s2 = conn_mtu s1"
    by (rule server_establishes [OF s1(4-6) assms(14)]) blast
  have "run_handshake ccfg scfg t0 t1 t2 t3 = Some (c3, s2)"
    by (simp add: run_handshake_def ok_of_def c1(1,2) syn s1(1,2) c3(1,2) s2(1))
  moreover have "min (min (min (cf_upstream_mtu ccfg) (cf_downstream_mtu ccfg)) ?up) ?down =
      min (min (cf_upstream_mtu ccfg) (cf_downstream_mtu ccfg)) (min (cf_upstream_mtu scfg) (cf_downstream_mtu scfg))"
    unfolding neg by (simp add: min.assoc min.commute min.left_commute)
  ultimately show ?thesis
    using c3 s2 s1(7) by (auto simp: is_established_def min.assoc min.commute min.left_commute)
qed

theorem handshake_completes_witness:
  "\<exists>c s. run_handshake sample_config (sample_config\<lparr>cf_downstream_mtu := 1180\<rparr>) 0 10 20 30 = Some (c, s) \<and>
     is_established c \<and> is_established s \<and> conn_mtu c = Some 1180"
  using handshake_completes [of sample_config "sample_config\<lparr>cf_downstream_mtu := 1180\<rparr>" "replicate 32 7" 0 10 20 30]
  by (auto simp: sample_config_def default_config_def config_ok_def MTU_MIN_def MTU_MAX_def)

section \<open>What ends the handshake on the server\<close>

text \<open>The lifecycle diagram has the server leave \<open>SynReceived\<close> on an ACK. The code leaves it on
  any datagram that does not decode as a version 1 datagram, even one that is then
  refused: it can only be the first version 2 packet of a client that skips the bare ACK.\<close>

lemma undecodable_datagram_establishes:
  assumes "conn_ok s" "c_state s = SynReceived" "now < 2 ^ 64" "decode decode_v1_datagram wire = Inl e"
  shows "\<exists>r s'. handle_datagram wire now s = Some (r, s') \<and> c_state s' = Established \<and>
    (length wire < 8 \<longrightarrow> r = Inl (ErrPrefix (PayloadTooShort (length wire))))"
proof -
  define s1 where "s1 = arm TimerIdle (instant_add now (cf_idle_timeout (c_config s)))
    (s\<lparr>c_stats := (c_stats s)\<lparr>st_datagrams_in := u64_add (st_datagrams_in (c_stats s)) 1\<rparr>\<rparr>)"
  have s1: "base_ok s1" "c_params s1 \<noteq> None"
    using assms by (auto simp: s1_def conn_ok_def base_ok_def parts_ok_def timer_laws)
  obtain s2 where s2: "transition_to_established now s1 = Some s2" "conn_ok s2" "c_state s2 = Established"
    using transition_ok [OF s1, of now] by (auto elim!: safelyE)
  have "e \<noteq> Panic" using assms(4) dec_safe_decode [OF decode_v1_datagram_safe, of wire] by auto
  then have eq: "handle_datagram wire now s = handle_v2_packet wire now s2"
    using assms(2,4) s2(1) [unfolded s1_def]
    by (simp add: handle_datagram_def handle_final_ack_def unwind_safely Let_def)
  have "safely (\<lambda>(_, c'). keeps s2 c') (handle_v2_packet wire now s2)"
    using s2 assms(3) by (intro handle_v2_packet_keeps) (auto simp: conn_ok_def base_ok_def)
  then obtain r s' where "handle_v2_packet wire now s2 = Some (r, s')" "keeps s2 s'" by (auto elim!: safelyE)
  with eq s2(3) show ?thesis
    by (auto simp: keeps_def handle_v2_packet_def decode_with_prefix_def MIN_WIRE_SIZE_def)
qed

end
