(* ===== verification/Sender.thy ===== *)
theory Sender
  imports Send_Window Reliability "HOL-Library.Multiset"
begin

text \<open>
  What the sending half of a connection promises, as a labelled transition system over the
  send window, the retransmission queue and the send buffer. The connection implements it
  (theory \<open>Data_Path\<close>); here the promise is shown of the system itself: every chunk the
  application handed over is, at every moment, waiting in the buffer, in flight, queued for
  retransmission or acknowledged, in exactly one of these places and with its own channel
  number, and DataSeqNums are used once each.
\<close>

section \<open>The system\<close>

record sender =
  sd_window :: send_window
  sd_queue :: reliability_controller
  sd_buffer :: "bytes list"

datatype sender_action =
    Buffered "bytes list"
  | Transmitted u64 u64 bytes
  | Acknowledged u64
  | GivenUp u64
  | WindowAnnounced u8

inductive sender_step :: "sender_action \<Rightarrow> sender \<Rightarrow> sender \<Rightarrow> bool" where
  buffer: "sender_step (Buffered cs) s (s\<lparr>sd_buffer := sd_buffer s @ cs\<rparr>)"
| transmit: "sd_buffer s = data # rest \<Longrightarrow> sw_push data now (sd_window s) = (Some (d, ch), w) \<Longrightarrow>
    sender_step (Transmitted d ch data) s (s\<lparr>sd_window := w, sd_buffer := rest\<rparr>)"
| retransmit: "rc_queue (sd_queue s) = e # es \<Longrightarrow>
    push_retransmit (rt_channel_seq e) (rt_data e) now (sd_window s) = (Some d, w) \<Longrightarrow>
    sender_step (Transmitted d (rt_channel_seq e) (rt_data e)) s
      (s\<lparr>sd_window := w, sd_queue := (sd_queue s)\<lparr>rc_queue := es\<rparr>\<rparr>)"
| acknowledge: "sender_step (Acknowledged d) s (s\<lparr>sd_window := snd (mark_received d (sd_window s))\<rparr>)"
| give_up: "mark_lost d (sd_window s) = (Some info, w) \<Longrightarrow>
    sender_step (GivenUp d) s
      (s\<lparr>sd_window := w, sd_queue := rel_enqueue (lp_channel_seq info) (lp_data info) (sd_queue s)\<rparr>)"
| announce: "sender_step (WindowAnnounced l) s (s\<lparr>sd_window := set_peer_window l (sd_window s)\<rparr>)"

inductive sender_run :: "sender_action list \<Rightarrow> sender \<Rightarrow> sender \<Rightarrow> bool" where
  nothing: "sender_run [] s s"
| one_more: "sender_run acts s s' \<Longrightarrow> sender_step a s' s'' \<Longrightarrow> sender_run (acts @ [a]) s s''"

lemma sender_run_append:
  assumes "sender_run bcts s' s''" "sender_run acts s s'"
  shows "sender_run (acts @ bcts) s s''"
  using assms
proof (induction arbitrary: acts rule: sender_run.induct)
  case (one_more bcts s' t a u)
  then show ?case using sender_run.one_more [of "acts @ bcts" s t a u] by simp
qed simp

lemma sender_run_one: "sender_step a s s' \<Longrightarrow> sender_run [a] s s'"
  using sender_run.one_more [OF sender_run.nothing] by simp

section \<open>Histories\<close>

text \<open>The stream the application has handed over, and the transmissions made of it.\<close>

fun buffered_by :: "sender_action \<Rightarrow> bytes list" where
  "buffered_by (Buffered cs) = cs"
| "buffered_by _ = []"

fun transmitted_by :: "sender_action \<Rightarrow> (u64 \<times> u64 \<times> bytes) list" where
  "transmitted_by (Transmitted d ch data) = [(d, ch, data)]"
| "transmitted_by _ = []"

definition stream_of :: "sender_action list \<Rightarrow> bytes list" where
  "stream_of acts = concat (map buffered_by acts)"

definition transmissions :: "sender_action list \<Rightarrow> (u64 \<times> u64 \<times> bytes) list" where
  "transmissions acts = concat (map transmitted_by acts)"

lemma history_append [simp]:
  "stream_of (acts @ bcts) = stream_of acts @ stream_of bcts"
  "transmissions (acts @ bcts) = transmissions acts @ transmissions bcts"
  "stream_of [] = []" "transmissions [] = []"
  "stream_of [a] = buffered_by a" "transmissions [a] = transmitted_by a"
  by (simp_all add: stream_of_def transmissions_def)

section \<open>The accounting invariant\<close>

definition held :: "sender \<Rightarrow> (u64 \<times> bytes) multiset" where
  "held s = mset (map snd (in_flight (sd_window s))) + mset (rel_items (sd_queue s))"

definition numbered :: "bytes list \<Rightarrow> nat set \<Rightarrow> (u64 \<times> bytes) multiset" where
  "numbered str I = image_mset (\<lambda>i. (channel_number i, str ! i)) (mset_set I)"

definition accounts :: "u64 \<Rightarrow> sender_action list \<Rightarrow> nat \<Rightarrow> nat set \<Rightarrow> sender \<Rightarrow> bool" where
  "accounts d0 acts k acked s \<longleftrightarrow>
     sw_ok (sd_window s) \<and>
     sw_next_data_seq (sd_window s) = d0 + length (transmissions acts) \<and>
     sw_next_channel_seq (sd_window s) = channel_number k \<and>
     k \<le> length (stream_of acts) \<and> sd_buffer s = drop k (stream_of acts) \<and> acked \<subseteq> {..<k} \<and>
     held s = numbered (stream_of acts) ({..<k} - acked) \<and>
     map fst (transmissions acts) = [d0..<d0 + length (transmissions acts)] \<and>
     (\<forall>(d, ch, data) \<in> set (transmissions acts). \<exists>i < k. ch = channel_number i \<and> data = stream_of acts ! i)"

text \<open>The numbers stay below the width of their types.\<close>

definition within_range :: "u64 \<Rightarrow> sender_action list \<Rightarrow> bool" where
  "within_range d0 acts \<longleftrightarrow> d0 + length (transmissions acts) < 2 ^ 64 \<and>
     length (stream_of acts) < 2 ^ 62 \<and> sum_list (map length (stream_of acts)) < 2 ^ 64"

lemma within_range_prefix: "within_range d0 (acts @ bcts) \<Longrightarrow> within_range d0 acts"
  by (simp add: within_range_def)

abbreviation payload_bytes :: "(u64 \<times> bytes) multiset \<Rightarrow> nat" where
  "payload_bytes M \<equiv> sum_mset (image_mset (\<lambda>(_, data). length data) M)"

lemma numbered_append: "I \<subseteq> {..<length str} \<Longrightarrow> numbered (str @ cs) I = numbered str I"
  using finite_subset [of I "{..<length str}"]
  by (auto simp: numbered_def nth_append intro!: image_mset_cong)

lemma numbered_insert: "finite I \<Longrightarrow> i \<notin> I \<Longrightarrow> numbered str (insert i I) = add_mset (channel_number i, str ! i) (numbered str I)"
  by (simp add: numbered_def)

lemma numbered_bytes:
  assumes "finite I" "I \<subseteq> {..<k}" "k \<le> length str"
  shows "payload_bytes (numbered str I) \<le> sum_list (map length (take k str))"
proof -
  have "payload_bytes (numbered str I) = (\<Sum>i\<in>I. length (str ! i))"
    by (simp add: numbered_def sum_unfold_sum_mset multiset.map_comp comp_def)
  also have "\<dots> \<le> (\<Sum>i<k. length (str ! i))" using assms by (intro sum_mono2) auto
  also have "\<dots> = sum_list (map length (take k str))"
    using assms(3) by (simp add: sum_list_sum_nth atLeast0LessThan)
  finally show ?thesis .
qed

lemma numbered_keys: "count (image_mset fst (numbered str I)) ch \<le> 1"
proof -
  have "image_mset fst (numbered str I) = image_mset channel_number (mset_set I)"
    by (simp add: numbered_def multiset.map_comp comp_def)
  moreover have "image_mset channel_number (mset_set I) = mset_set (channel_number ` I)"
    by (rule image_mset_mset_set) (simp add: inj_on_def channel_number_inject)
  ultimately show ?thesis by (simp add: count_mset_set')
qed

lemma in_flight_bytes:
  assumes "sw_ok w"
  shows "sw_bytes_in_flight w = payload_bytes (mset (map snd (in_flight w)))"
proof -
  let ?p = "pending (sw_entries w)"
  have "map se_size ?p = map (\<lambda>e. length (payload_of (sw_data_store w) (se_data_seq e))) ?p"
    using assms by (simp add: sw_ok_def)
  moreover have "payload_bytes (mset (map snd (in_flight w))) =
      sum_list (map (\<lambda>e. length (payload_of (sw_data_store w) (se_data_seq e))) ?p)"
    by (simp add: in_flight_def comp_def sum_mset_sum_list [symmetric] multiset.map_comp flip: mset_map)
  ultimately have "sum_list (map se_size ?p) = payload_bytes (mset (map snd (in_flight w)))"
    by (simp only:)
  then show ?thesis using assms by (simp add: sw_ok_def)
qed

lemma mset_remove_key:
  "distinct (map fst xs) \<Longrightarrow> (d, x) \<in> set xs \<Longrightarrow>
   mset (map snd xs) = add_mset x (mset (map snd (filter (\<lambda>(d', _). d' \<noteq> d) xs)))"
proof (induction xs)
  case (Cons y ys)
  show ?case
  proof (cases "fst y = d")
    case True
    with Cons.prems have y: "y = (d, x)" and "d \<notin> fst ` set ys" by (auto simp: rev_image_eqI)
    then have "filter (\<lambda>(d', _). d' \<noteq> d) ys = ys" by (intro filter_True) force
    with y show ?thesis by simp
  next
    case False
    with Cons show ?thesis by auto
  qed
qed simp

lemma in_flight_remove:
  assumes "sw_ok w" "(d, x) \<in> set (in_flight w)"
  shows "mset (map snd (in_flight w)) = add_mset x (mset (map snd (filter (\<lambda>(d', _). d' \<noteq> d) (in_flight w))))"
proof (rule mset_remove_key [OF _ assms(2)])
  show "distinct (map fst (in_flight w))"
    using in_flight_sorted [OF assms(1)] strict_sorted_iff by blast
qed

section \<open>Every step keeps the accounts\<close>

lemma accounts_initially:
  "accounts d0 [] 0 {} \<lparr>sd_window = sw_new d0 1 lws, sd_queue = rel_new, sd_buffer = []\<rparr>"
  by (simp add: accounts_def sw_new_ok held_def numbered_def channel_number_0 rel_items_def rel_new_def)
    (simp add: sw_new_def in_flight_def)

lemma accounts_finite: "accounts d0 acts k acked s \<Longrightarrow> finite ({..<k} - acked)"
  by simp

lemma accounts_bytes:
  assumes "accounts d0 acts k acked s"
  shows "sw_bytes_in_flight (sd_window s) + payload_bytes (mset (rel_items (sd_queue s)))
    \<le> sum_list (map length (take k (stream_of acts)))"
proof -
  have "payload_bytes (held s) \<le> sum_list (map length (take k (stream_of acts)))"
    using assms numbered_bytes [of "{..<k} - acked" k "stream_of acts"] by (auto simp: accounts_def)
  moreover have "sw_ok (sd_window s)" using assms by (simp add: accounts_def)
  ultimately show ?thesis by (simp add: held_def in_flight_bytes)
qed

lemma take_sum_le: "sum_list (map length (take k xs)) \<le> sum_list (map length xs)"
  by (metis append_take_drop_id le_add1 map_append sum_list_append)

text \<open>A chunk in flight is not queued as well.\<close>

lemma accounts_exclusive:
  assumes "accounts d0 acts k acked s" "(d, ch, data) \<in> set (in_flight (sd_window s))"
  shows "ch \<notin> fst ` set (rel_items (sd_queue s))"
proof
  assume "ch \<in> fst ` set (rel_items (sd_queue s))"
  then have "1 \<le> count (image_mset fst (mset (rel_items (sd_queue s)))) ch"
    by (simp add: count_greater_eq_one_iff)
  moreover have "1 \<le> count (image_mset fst (mset (map snd (in_flight (sd_window s))))) ch"
    using assms(2) by (force simp: count_greater_eq_one_iff)
  moreover have "count (image_mset fst (held s)) ch \<le> 1"
    using assms(1) numbered_keys by (simp add: accounts_def)
  ultimately show False unfolding held_def image_mset_union count_union by linarith
qed

lemma held_index:
  assumes "accounts d0 acts k acked s" "(ch, data) \<in># held s"
  obtains i where "i < k" "i \<notin> acked" "ch = channel_number i" "data = stream_of acts ! i"
  using assms by (auto simp: accounts_def numbered_def)


lemma accounts_buffer:
  assumes "accounts d0 acts k acked s"
  shows "accounts d0 (acts @ [Buffered cs]) k acked (s\<lparr>sd_buffer := sd_buffer s @ cs\<rparr>)"
  using assms numbered_append [of "{..<k} - acked" "stream_of acts" cs]
  by (fastforce simp: accounts_def held_def nth_append)

lemma accounts_transmit:
  assumes acc: "accounts d0 acts k acked s" and buf: "sd_buffer s = data # rest"
    and push: "sw_push data now (sd_window s) = (Some (d, ch), w)"
    and range: "within_range d0 (acts @ [Transmitted d ch data])"
  shows "accounts d0 (acts @ [Transmitted d ch data]) (Suc k) acked (s\<lparr>sd_window := w, sd_buffer := rest\<rparr>)"
proof -
  let ?str = "stream_of acts"
  have k: "k < length ?str" "?str ! k = data" "rest = drop (Suc k) ?str"
    using acc buf
    by (auto simp: accounts_def)
      (metis drop_eq_Nil list.discI not_le, metis Cons_nth_drop_Suc drop_eq_Nil list.discI list.inject not_le,
       metis Cons_nth_drop_Suc drop_eq_Nil list.discI list.inject not_le)
  have bounds: "sw_next_data_seq (sd_window s) + 1 < 2 ^ 64" 
    "sw_bytes_in_flight (sd_window s) + length data < 2 ^ 64"
  proof -
    show "sw_next_data_seq (sd_window s) + 1 < 2 ^ 64"
      using acc range by (simp add: accounts_def within_range_def)
    have "sw_bytes_in_flight (sd_window s) + length data \<le> sum_list (map length (take (Suc k) ?str))"
      using accounts_bytes [OF acc] k(1,2) by (simp add: take_Suc_conv_app_nth)
    also have "\<dots> < 2 ^ 64" using take_sum_le [of "Suc k" ?str] range by (simp add: within_range_def)
    finally show "sw_bytes_in_flight (sd_window s) + length data < 2 ^ 64" .
  qed
  have cap: "has_capacity (sd_window s)" using push by (auto simp: sw_push_def split: if_splits)
  have ok: "sw_ok (sd_window s)" using acc by (simp add: accounts_def)
  have res: "d = sw_next_data_seq (sd_window s)" "ch = channel_number k" "sw_ok w"
    "in_flight w = in_flight (sd_window s) @ [(d, ch, data)]"
    using sw_push_ok [OF ok cap bounds, of now] push acc by (auto simp: accounts_def)
  have "channel_number k + 2 < 2 ^ 64" using k(1) range by (intro channel_number_bound) (simp add: within_range_def)
  then have nxt: "sw_next_data_seq w = Suc (sw_next_data_seq (sd_window s))" "sw_next_channel_seq w = channel_number (Suc k)"
    using push cap bounds acc by (auto simp: sw_push_def Let_def u64_add_exact accounts_def channel_number_Suc)
  have "{..<Suc k} - acked = insert k ({..<k} - acked)" using acc by (auto simp: accounts_def lessThan_Suc)
  then have "numbered ?str ({..<Suc k} - acked) = add_mset (ch, data) (numbered ?str ({..<k} - acked))"
    using k(2) res(2) by (simp add: numbered_insert)
  then have "held (s\<lparr>sd_window := w, sd_buffer := rest\<rparr>) = numbered ?str ({..<Suc k} - acked)"
    using acc res(4) by (simp add: accounts_def held_def)
  then show ?thesis
    using acc res nxt k by (fastforce simp: accounts_def less_Suc_eq)
qed


lemma accounts_retransmit:
  assumes acc: "accounts d0 acts k acked s" and queue: "rc_queue (sd_queue s) = e # es"
    and push: "push_retransmit (rt_channel_seq e) (rt_data e) now (sd_window s) = (Some d, w)"
    and range: "within_range d0 (acts @ [Transmitted d (rt_channel_seq e) (rt_data e)])"
  shows "accounts d0 (acts @ [Transmitted d (rt_channel_seq e) (rt_data e)]) k acked
    (s\<lparr>sd_window := w, sd_queue := (sd_queue s)\<lparr>rc_queue := es\<rparr>\<rparr>)"
proof -
  let ?s = "s\<lparr>sd_window := w, sd_queue := (sd_queue s)\<lparr>rc_queue := es\<rparr>\<rparr>"
  have bounds: "sw_next_data_seq (sd_window s) + 1 < 2 ^ 64"
    "sw_bytes_in_flight (sd_window s) + length (rt_data e) < 2 ^ 64"
    using acc range accounts_bytes [OF acc] take_sum_le [of k "stream_of acts"] queue
    by (simp_all add: accounts_def within_range_def rel_items_def)
  have cap: "has_capacity (sd_window s)" using push by (auto simp: push_retransmit_def split: if_splits)
  have ok: "sw_ok (sd_window s)" using acc by (simp add: accounts_def)
  have res: "d = sw_next_data_seq (sd_window s)" "sw_ok w"
    "in_flight w = in_flight (sd_window s) @ [(d, rt_channel_seq e, rt_data e)]"
    using push_retransmit_ok [OF ok cap bounds, of "rt_channel_seq e" now] push by auto
  have nxt: "sw_next_data_seq w = Suc (sw_next_data_seq (sd_window s))"
    "sw_next_channel_seq w = sw_next_channel_seq (sd_window s)"
    using push cap bounds by (auto simp: push_retransmit_def Let_def u64_add_exact)
  have "held ?s = held s" using queue res(3) by (simp add: held_def rel_items_def)
  moreover have "(rt_channel_seq e, rt_data e) \<in># held s" using queue by (simp add: held_def rel_items_def)
  then obtain i where "i < k" "rt_channel_seq e = channel_number i" "rt_data e = stream_of acts ! i"
    by (rule held_index [OF acc])
  ultimately show ?thesis using acc res nxt by (fastforce simp: accounts_def)
qed

lemma accounts_acknowledge:
  assumes acc: "accounts d0 acts k acked s"
  shows "\<exists>acked'. acked \<subseteq> acked' \<and>
    accounts d0 (acts @ [Acknowledged d]) k acked' (s\<lparr>sd_window := snd (mark_received d (sd_window s))\<rparr>)"
proof (cases "is_pending d (sd_window s)")
  case False
  with acc mark_received_absent [of "sd_window s" d] show ?thesis
    by (intro exI [of _ acked]) (simp add: accounts_def held_def)
next
  case True
  have ok: "sw_ok (sd_window s)" using acc by (simp add: accounts_def)
  obtain e :: send_entry and w where w: "mark_received d (sd_window s) = (Some (se_size e), w)" "sw_ok w"
    "in_flight w = filter (\<lambda>(d', _). d' \<noteq> d) (in_flight (sd_window s))"
    "sw_next_data_seq w = sw_next_data_seq (sd_window s)" "sw_next_channel_seq w = sw_next_channel_seq (sd_window s)"
    by (rule mark_received_pending [OF ok True]) blast
  obtain ch data where x: "(d, ch, data) \<in> set (in_flight (sd_window s))"
    using True by (auto simp: is_pending_iff in_flight_def)
  note gone = in_flight_remove [OF ok x, folded w(3)]
  then have "(ch, data) \<in># held s" by (simp add: held_def)
  then obtain i where i: "i < k" "i \<notin> acked" "ch = channel_number i" "data = stream_of acts ! i"
    by (rule held_index [OF acc])
  have "{..<k} - acked = insert i ({..<k} - insert i acked)" using i by auto
  then have "numbered (stream_of acts) ({..<k} - acked)
      = add_mset (ch, data) (numbered (stream_of acts) ({..<k} - insert i acked))"
    using i by (metis Diff_iff finite_Diff finite_lessThan insertI1 numbered_insert)
  with gone acc have "held (s\<lparr>sd_window := w\<rparr>) = numbered (stream_of acts) ({..<k} - insert i acked)"
    by (simp add: accounts_def held_def)
  then show ?thesis
    using acc w i by (intro exI [of _ "insert i acked"]) (auto simp: accounts_def)
qed

lemma accounts_give_up:
  assumes acc: "accounts d0 acts k acked s" and lost: "mark_lost d (sd_window s) = (Some info, w)"
  shows "accounts d0 (acts @ [GivenUp d]) k acked
    (s\<lparr>sd_window := w, sd_queue := rel_enqueue (lp_channel_seq info) (lp_data info) (sd_queue s)\<rparr>)"
proof -
  let ?q = "rel_enqueue (lp_channel_seq info) (lp_data info) (sd_queue s)"
  have ok: "sw_ok (sd_window s)" using acc by (simp add: accounts_def)
  have pend: "is_pending d (sd_window s)" using lost mark_lost_absent [OF ok] by fastforce
  obtain info' w' where w: "mark_lost d (sd_window s) = (Some info', w')"
    "(d, lp_channel_seq info', lp_data info') \<in> set (in_flight (sd_window s))" "sw_ok w'"
    "in_flight w' = filter (\<lambda>(d', _). d' \<noteq> d) (in_flight (sd_window s))"
    "sw_next_data_seq w' = sw_next_data_seq (sd_window s)" "sw_next_channel_seq w' = sw_next_channel_seq (sd_window s)"
    by (rule mark_lost_pending [OF ok pend]) blast
  then have eq: "info' = info" "w' = w" using lost by simp_all
  have "rel_items ?q = rel_items (sd_queue s) @ [(lp_channel_seq info, lp_data info)]"
    using accounts_exclusive [OF acc w(2)] by (simp add: eq retransmit_queue.items_enq)
  then have "held (s\<lparr>sd_window := w, sd_queue := ?q\<rparr>) = held s"
    using in_flight_remove [OF ok w(2)] w(4) by (simp add: held_def eq)
  then show ?thesis using acc w by (simp add: accounts_def eq)
qed

lemma set_peer_window_frame:
  "sw_ok (set_peer_window l w) = sw_ok w" "in_flight (set_peer_window l w) = in_flight w"
  "sw_next_data_seq (set_peer_window l w) = sw_next_data_seq w"
  "sw_next_channel_seq (set_peer_window l w) = sw_next_channel_seq w"
  by (simp_all add: in_flight_def set_peer_window_def sw_ok_def)

lemma accounts_announce:
  "accounts d0 acts k acked s \<Longrightarrow>
   accounts d0 (acts @ [WindowAnnounced l]) k acked (s\<lparr>sd_window := set_peer_window l (sd_window s)\<rparr>)"
  by (simp add: accounts_def held_def set_peer_window_frame)

lemma accounts_step:
  assumes "accounts d0 acts k acked s" "sender_step a s s'" "within_range d0 (acts @ [a])"
  shows "\<exists>k' acked'. accounts d0 (acts @ [a]) k' acked' s' \<and> acked \<subseteq> acked' \<and>
    (a \<notin> range Acknowledged \<longrightarrow> acked' = acked)"
  using assms(2)
proof cases
  case (transmit data rest now d ch w)
  with accounts_transmit [OF assms(1)] assms(3) show ?thesis
    by (intro exI [of _ "Suc k"] exI [of _ acked]) auto
next
  case (acknowledge d)
  with accounts_acknowledge [OF assms(1)] show ?thesis by blast
next
  case (retransmit e es now d w)
  with accounts_retransmit [OF assms(1)] assms(3) show ?thesis by (intro exI [of _ k] exI [of _ acked]) auto
next
  case (give_up d info w)
  with accounts_give_up [OF assms(1)] show ?thesis by (intro exI [of _ k] exI [of _ acked]) auto
qed (use accounts_buffer [OF assms(1)] accounts_announce [OF assms(1)] in auto)

lemma accounts_run:
  assumes "sender_run bcts s s'" "accounts d0 acts k acked s" "within_range d0 (acts @ bcts)"
  shows "\<exists>k' acked'. accounts d0 (acts @ bcts) k' acked' s' \<and> acked \<subseteq> acked' \<and>
    (set bcts \<inter> range Acknowledged = {} \<longrightarrow> acked' = acked)"
  using assms
proof (induction rule: sender_run.induct)
  case (one_more bcts s s' a s'')
  have "within_range d0 (acts @ bcts)" using one_more.prems(2) within_range_prefix by (metis append_assoc)
  with one_more obtain k1 acked1 where mid: "accounts d0 (acts @ bcts) k1 acked1 s'" "acked \<subseteq> acked1"
    "set bcts \<inter> range Acknowledged = {} \<longrightarrow> acked1 = acked" by blast
  with accounts_step [OF mid(1) one_more.hyps(2)] one_more.prems(2) obtain k2 acked2 where
    "accounts d0 (acts @ bcts @ [a]) k2 acked2 s''" "acked1 \<subseteq> acked2" "a \<notin> range Acknowledged \<longrightarrow> acked2 = acked1"
    by auto
  with mid show ?case by (intro exI [of _ k2] exI [of _ acked2]) auto
qed auto

section \<open>Payloads\<close>

definition payloads :: "sender \<Rightarrow> bytes multiset" where
  "payloads s = image_mset snd (held s) + mset (sd_buffer s)"

lemma accounts_payloads:
  assumes "accounts d0 acts k acked s"
  shows "payloads s = image_mset (\<lambda>i. stream_of acts ! i) (mset_set ({..<length (stream_of acts)} - acked))"
proof -
  let ?str = "stream_of acts"
  have k: "k \<le> length ?str" "acked \<subseteq> {..<k}" using assms by (simp_all add: accounts_def)
  have "image_mset snd (held s) = image_mset (\<lambda>i. ?str ! i) (mset_set ({..<k} - acked))"
    using assms by (simp add: accounts_def numbered_def multiset.map_comp comp_def)
  moreover have "mset (sd_buffer s) = image_mset (\<lambda>i. ?str ! i) (mset_set {k..<length ?str})"
  proof -
    have "drop k ?str = map (\<lambda>i. ?str ! i) [k..<length ?str]"
      by (metis drop_map drop_upt map_nth plus_nat.add_0)
    then show ?thesis using assms by (simp add: accounts_def flip: mset_upt)
  qed
  moreover have "mset_set ({..<length ?str} - acked) = mset_set ({..<k} - acked) + mset_set {k..<length ?str}"
  proof -
    have "{..<length ?str} - acked = ({..<k} - acked) \<union> {k..<length ?str}" using k by auto
    moreover have "({..<k} - acked) \<inter> {k..<length ?str} = {}" by auto
    ultimately show ?thesis by (simp add: mset_set_Union)
  qed
  ultimately show ?thesis by (simp add: payloads_def)
qed


lemma stream_payloads_append:
  assumes "acked \<subseteq> {..<length str}"
  shows "image_mset (\<lambda>i. (str @ new) ! i) (mset_set ({..<length str + length new} - acked)) =
    image_mset (\<lambda>i. str ! i) (mset_set ({..<length str} - acked)) + mset new"
proof -
  let ?n = "length str" and ?m = "length str + length new"
  have "{..<?m} - acked = ({..<?n} - acked) \<union> {?n..<?m}" using assms by auto
  moreover have "({..<?n} - acked) \<inter> {?n..<?m} = {}" by auto
  ultimately have "mset_set ({..<?m} - acked) = mset_set ({..<?n} - acked) + mset_set {?n..<?m}"
    by (simp add: mset_set_Union)
  moreover have "image_mset (\<lambda>i. (str @ new) ! i) (mset_set ({..<?n} - acked)) =
      image_mset (\<lambda>i. str ! i) (mset_set ({..<?n} - acked))"
    by (intro image_mset_cong) (auto simp: nth_append)
  moreover have "image_mset (\<lambda>i. (str @ new) ! i) (mset_set {?n..<?m}) = mset new"
  proof -
    have "map (\<lambda>i. (str @ new) ! i) [?n..<?m] = new"
      by (rule nth_equalityI) (simp_all add: nth_append)
    then show ?thesis by (metis mset_map mset_upt)
  qed
  ultimately show ?thesis by simp
qed

end
