(* ===== verification/Data_Path.thy ===== *)
theory Data_Path
  imports Handshake Sender
begin

text \<open>
  The connection as a reliable sender. \<open>sender_view\<close> reads the abstract sender of theory
  \<open>Sender\<close> off a connection, and every call of the API is shown to be a run of it: \<open>send\<close>
  buffers, \<open>poll_transmit\<close> transmits at most one chunk, a datagram acknowledges, announces a
  window or gives transmissions up, a timer gives transmissions up, and nothing else
  happens to the data. The properties of the sender then hold of the connection.
\<close>

section \<open>The sender inside a connection\<close>

definition sender_view :: "connection \<Rightarrow> sender" where
  "sender_view c =
     \<lparr>sd_window = (case c_send_window c of
        None \<Rightarrow> sw_new INITIAL_DATA_SEQ 1 (cf_log_window_size (c_config c)) | Some w \<Rightarrow> w),
      sd_queue = c_reliability c, sd_buffer = c_send_buffer c\<rparr>"

definition does :: "sender_action set \<Rightarrow> connection \<Rightarrow> connection \<Rightarrow> bool" where
  "does A c c' \<longleftrightarrow> (\<exists>acts. set acts \<subseteq> A \<and> sender_run acts (sender_view c) (sender_view c'))"

abbreviation recovering :: "sender_action set" where
  "recovering \<equiv> range GivenUp"

abbreviation resolving :: "sender_action set" where
  "resolving \<equiv> range GivenUp \<union> range Acknowledged \<union> range WindowAnnounced"

lemma does_same: "sender_view c' = sender_view c \<Longrightarrow> does A c c'"
  by (auto simp: does_def intro!: exI [of _ "[]"] sender_run.nothing)

lemma does_refl: "does A c c"
  by (simp add: does_same)

lemma does_trans: "does A c c' \<Longrightarrow> does A c' c'' \<Longrightarrow> does A c c''"
  unfolding does_def using sender_run_append by (metis Un_subset_iff set_append)

lemma does_mono: "does A c c' \<Longrightarrow> A \<subseteq> B \<Longrightarrow> does B c c'"
  by (auto simp: does_def)

lemma does_step: "sender_step a (sender_view c) (sender_view c') \<Longrightarrow> a \<in> A \<Longrightarrow> does A c c'"
  by (auto simp: does_def intro!: exI [of _ "[a]"] sender_run_one)

lemma does_fold: "(\<And>x c. does A c (f x c)) \<Longrightarrow> does A c (fold f xs c)"
  by (induction xs arbitrary: c) (auto intro: does_refl does_trans)

text \<open>Partial correctness along a \<open>do\<close> block.\<close>

lemma pred_option_bind:
  "pred_option Q m \<Longrightarrow> (\<And>x. Q x \<Longrightarrow> pred_option P (f x)) \<Longrightarrow> pred_option P (Option.bind m f)"
  by (cases m) simp_all

lemma does_bind:
  "pred_option (does A c) m \<Longrightarrow> (\<And>x. pred_option (does A x) (f x)) \<Longrightarrow> pred_option (does A c) (Option.bind m f)"
  by (rule pred_option_bind) (auto intro: does_trans option.pred_mono_strong)

section \<open>Loss recovery and acknowledgements\<close>

lemma declare_lost_does: "does recovering c (declare_lost d c)"
proof (cases "c_send_window c")
  case None
  then show ?thesis by (simp add: declare_lost_def does_refl)
next
  case (Some w)
  show ?thesis
  proof (cases "fst (mark_lost d w)")
    case None
    then have "snd (mark_lost d w) = w"
      by (auto simp: mark_lost_def Let_def split: option.splits if_splits)
    with None Some show ?thesis
      by (intro does_same) (auto simp: declare_lost_def Let_def sender_view_def split: prod.splits)
  next
    case (Some info)
    have "sender_step (GivenUp d) (sender_view c) (sender_view (declare_lost d c))"
      using sender_step.give_up [of d "sender_view c" info "snd (mark_lost d w)"] Some \<open>c_send_window c = Some w\<close>
      by (auto simp: declare_lost_def Let_def sender_view_def prod_eq_iff split: prod.splits)
    then show ?thesis by (rule does_step) simp
  qed
qed

lemma recovery_does:
  "does recovering c (run_loss_detection now c)" "does recovering c (declare_overdue_lost now c)"
  by (auto simp: run_loss_detection_def declare_overdue_lost_def declare_oldest_pending_lost_def Let_def
      intro: does_fold declare_lost_does does_refl split: option.splits)

lemma view_frame [simp]:
  "sender_view (c\<lparr>c_timers := tt\<rparr>) = sender_view c" "sender_view (c\<lparr>c_rtt := r\<rparr>) = sender_view c"
  "sender_view (c\<lparr>c_stats := s\<rparr>) = sender_view c" "sender_view (c\<lparr>c_congestion := g\<rparr>) = sender_view c"
  "sender_view (c\<lparr>c_recv_window := rw\<rparr>) = sender_view c" "sender_view (c\<lparr>c_ack_pending := b\<rparr>) = sender_view c"
  "sender_view (c\<lparr>c_pending_ack_of_acks := a\<rparr>) = sender_view c" "sender_view (c\<lparr>c_pending_events := es\<rparr>) = sender_view c"
  "sender_view (c\<lparr>c_ack_delay_started_at := i\<rparr>) = sender_view c" "sender_view (c\<lparr>c_wire_buf := bs\<rparr>) = sender_view c"
  "sender_view (c\<lparr>c_pending_transmits := ts\<rparr>) = sender_view c" "sender_view (c\<lparr>c_state := st\<rparr>) = sender_view c"
  "sender_view (c\<lparr>c_remote_timestamp_ref := t\<rparr>) = sender_view c"
  "sender_view (c\<lparr>c_handshake_datagram := h\<rparr>) = sender_view c" "sender_view (c\<lparr>c_handshake_retransmits := n\<rparr>) = sender_view c"
  "sender_view (c\<lparr>c_handshake_sent_at := j\<rparr>) = sender_view c" "sender_view (c\<lparr>c_params := ps\<rparr>) = sender_view c"
  by (simp_all add: sender_view_def cong: option.case_cong)

lemma same_view [simp]:
  "sender_view (update_retransmit_timer now c) = sender_view c"
  "sender_view (retire_ack_of_acks d c) = sender_view c"
  "sender_view (process_ack_of_acks aoa c) = sender_view c"
  "sender_view (schedule_ack now c) = sender_view c"
  "sender_view (resend_handshake_datagram c) = sender_view c"
  "sender_view (rearm_keep_alive now c) = sender_view c"
  "sender_view (close c) = sender_view c"
  "sender_view (sent c b wire) = sender_view c"
  by (auto simp: update_retransmit_timer_def retire_ack_of_acks_def process_ack_of_acks_def schedule_ack_def
      resend_handshake_datagram_def rearm_keep_alive_def close_def sent_def commit_acknowledgement_def Let_def
      split: option.splits)

lemma process_data_view [simp]:
  "sender_view (process_dummy_data dh now c) = sender_view c" "sender_view (process_data dh db now c) = sender_view c"
  by (auto simp: process_dummy_data_def process_data_def Let_def split: option.splits prod.splits)

lemma sample_rtt_does: "pred_option (does A c) (sample_rtt elapsed gap c)"
  by (auto simp: sample_rtt_def Let_def pred_option_def bind_eq_Some_conv intro!: does_same
      split: option.splits if_splits)

lemma after_ack_does: "pred_option (does recovering c) (after_ack n now c)"
proof -
  define grown where "grown = (if n > 0 then c\<lparr>c_congestion := on_ack n (c_congestion c)\<rparr> else c)"
  have "does recovering grown (run_loss_detection now grown)" by (rule recovery_does)
  moreover have "does recovering c grown" by (simp add: grown_def does_same)
  ultimately have "does recovering c (run_loss_detection now grown)" by (rule does_trans [rotated])
  then show ?thesis
    unfolding after_ack_def Let_def grown_def [symmetric]
    by (auto simp: pred_option_def bind_eq_Some_conv does_def split: if_splits)
qed

lemma ack_chain_does:
  "pred_option (does recovering c) (Option.bind (sample_rtt elapsed gap c)
    (\<lambda>c. Option.bind (after_ack n now c) (\<lambda>c. Some (retire_ack_of_acks s c))))"
  by (rule does_bind [OF sample_rtt_does]) (rule does_bind [OF after_ack_does], simp add: does_same)

lemma mark_received_through_runs:
  "\<exists>acts. set acts \<subseteq> range Acknowledged \<and>
     sender_run acts (s\<lparr>sd_window := w\<rparr>) (s\<lparr>sd_window := snd (mark_received_through_loop d w b)\<rparr>)"
proof (induction d w b rule: mark_received_through_loop.induct)
  case (1 d w b)
  show ?case
  proof (cases "sw_entries w")
    case Nil
    then show ?thesis
      by (auto simp: mark_received_through_loop.simps [of d w] intro!: exI [of _ "[]"] sender_run.nothing)
  next
    case (Cons front es)
    have step: "sender_run [Acknowledged (se_data_seq front)] (s\<lparr>sd_window := w\<rparr>)
      (s\<lparr>sd_window := snd (mark_received (se_data_seq front) w)\<rparr>)"
      using sender_step.acknowledge [of "se_data_seq front" "s\<lparr>sd_window := w\<rparr>"] by (intro sender_run_one) simp
    consider "d < se_data_seq front" | w' where "\<not> d < se_data_seq front" "mark_received (se_data_seq front) w = (None, w')"
      | sz w' where "\<not> d < se_data_seq front" "mark_received (se_data_seq front) w = (Some sz, w')"
      by (metis option.exhaust surj_pair)
    then show ?thesis
    proof cases
      case 1
      then show ?thesis using Cons
        by (auto simp: mark_received_through_loop.simps [of d w] intro!: exI [of _ "[]"] sender_run.nothing)
    next
      case 2
      then show ?thesis using Cons step
        by (auto simp: mark_received_through_loop.simps [of d w] intro!: exI [of _ "[Acknowledged (se_data_seq front)]"])
    next
      case 3
      then obtain acts where "set acts \<subseteq> range Acknowledged"
        "sender_run acts (s\<lparr>sd_window := w'\<rparr>) (s\<lparr>sd_window := snd (mark_received_through_loop d w' (u64_add b sz))\<rparr>)"
        using "1.IH" [OF Cons 3(1) 3(2) [symmetric] refl] by blast
      with sender_run_append [OF this(2) step [unfolded 3(2) snd_conv]] 3 Cons show ?thesis
        by (intro exI [of _ "Acknowledged (se_data_seq front) # acts"])
          (simp add: mark_received_through_loop.simps [of d w])
    qed
  qed
qed

lemma ack_positions_run:
  "\<exists>acts. set acts \<subseteq> range Acknowledged \<and>
     sender_run acts (s\<lparr>sd_window := snd (snd (snd t))\<rparr>)
       (s\<lparr>sd_window := snd (snd (snd (fold (ack_position now) rs t)))\<rparr>)"
proof (induction rs arbitrary: t)
  case Nil
  show ?case by (auto intro!: exI [of _ "[]"] sender_run.nothing)
next
  case (Cons r rs)
  obtain cur n el w where t: "t = (cur, n, el, w)" by (metis prod_cases4)
  have "snd (snd (snd (ack_position now r t))) = (if r then snd (mark_received cur w) else w)"
    by (simp add: ack_position_def t Let_def split: prod.splits)
  moreover have "sender_run [Acknowledged cur] (s\<lparr>sd_window := w\<rparr>) (s\<lparr>sd_window := snd (mark_received cur w)\<rparr>)"
    using sender_step.acknowledge [of cur "s\<lparr>sd_window := w\<rparr>"] by (intro sender_run_one) simp
  ultimately obtain as where "set as \<subseteq> range Acknowledged"
    "sender_run as (s\<lparr>sd_window := w\<rparr>) (s\<lparr>sd_window := snd (snd (snd (ack_position now r t)))\<rparr>)"
    using sender_run.nothing [of "s\<lparr>sd_window := w\<rparr>"]
    by (cases r) (auto intro: that [of "[Acknowledged cur]"] that [of "[]"])
  moreover obtain bs where "set bs \<subseteq> range Acknowledged"
    "sender_run bs (s\<lparr>sd_window := snd (snd (snd (ack_position now r t)))\<rparr>)
       (s\<lparr>sd_window := snd (snd (snd (fold (ack_position now) rs (ack_position now r t))))\<rparr>)"
    using Cons.IH by blast
  ultimately show ?case
    using sender_run_append by (intro exI [of _ "as @ bs"]) (fastforce simp: t)
qed


lemma acked_window_does:
  assumes "c_send_window c = Some w" "set acts \<subseteq> A"
    "sender_run acts (sender_view c) ((sender_view c)\<lparr>sd_window := w'\<rparr>)"
  shows "does A c (c\<lparr>c_send_window := Some w'\<rparr>)"
  using assms by (auto simp: does_def sender_view_def)

lemma view_window: "c_send_window c = Some w \<Longrightarrow> (sender_view c)\<lparr>sd_window := w\<rparr> = sender_view c"
  by (simp add: sender_view_def)

lemma then_recovers:
  assumes "does resolving c d" "pred_option (does recovering d) m"
  shows "pred_option (does resolving c) m"
  using assms by (cases m) (auto intro: does_trans does_mono)

lemma process_ack_does: "pred_option (does resolving c) (process_ack ack now c)"
proof (cases "c_send_window c")
  case None
  then show ?thesis by (simp add: process_ack_def does_refl)
next
  case (Some w)
  define d where "d = c\<lparr>c_remote_timestamp_ref := reconstruct_timestamp (received_ts ack) (c_remote_timestamp_ref c)\<rparr>"
  have d: "c_send_window d = Some w" "does resolving c d" using Some by (simp_all add: d_def does_same)
  have "does resolving d (d\<lparr>c_send_window := Some (snd (mark_received_through a w))\<rparr>)" for a
  proof -
    obtain acts where "set acts \<subseteq> range Acknowledged"
      "sender_run acts ((sender_view d)\<lparr>sd_window := w\<rparr>) ((sender_view d)\<lparr>sd_window := snd (mark_received_through a w)\<rparr>)"
      using mark_received_through_runs [where s = "sender_view d" and w = w and d = a and b = 0] by (auto simp: mark_received_through_def)
    with d(1) show ?thesis by (intro acked_window_does [of _ w acts]) (auto simp: view_window)
  qed
  then have "does resolving c (d\<lparr>c_send_window := Some (snd (mark_received_through a w))\<rparr>)" for a
    by (rule does_trans [OF d(2)])
  from then_recovers [OF this ack_chain_does] d Some show ?thesis
    by (simp add: process_ack_def Let_def d_def case_prod_beta)
qed

lemma process_ack_vector_does: "pred_option (does resolving c) (process_ack_vector vec now c)"
proof (cases "c_send_window c")
  case None
  then show ?thesis by (simp add: process_ack_vector_def does_refl)
next
  case (Some w)
  let ?t = "(reconstruct_seq (base_seq_num vec) (saturating_sub (sw_next_data_seq w) 1), 0, None, w)"
  let ?u = "fold (ack_position now) (concat (map entry_positions (entries vec))) ?t"
  obtain acts where "set acts \<subseteq> range Acknowledged"
    "sender_run acts ((sender_view c)\<lparr>sd_window := w\<rparr>) ((sender_view c)\<lparr>sd_window := snd (snd (snd ?u))\<rparr>)"
    using ack_positions_run [where s = "sender_view c" and t = ?t and now = now
        and rs = "concat (map entry_positions (entries vec))"] by auto
  with Some have "does resolving c (c\<lparr>c_send_window := Some (snd (snd (snd ?u)))\<rparr>)"
    by (intro acked_window_does [of _ w acts]) (auto simp: view_window)
  from then_recovers [OF this ack_chain_does] Some show ?thesis
    by (simp add: process_ack_vector_def Let_def case_prod_beta)
qed

lemma announce_does:
  "does resolving c (c\<lparr>c_send_window := map_option (set_peer_window l) (c_send_window c)\<rparr>)"
proof (cases "c_send_window c")
  case None
  then show ?thesis by (intro does_same) (simp add: sender_view_def)
next
  case (Some w)
  have "sender_step (WindowAnnounced l) (sender_view c) (sender_view (c\<lparr>c_send_window := Some (set_peer_window l w)\<rparr>))"
    using sender_step.announce [of l "sender_view c"] Some by (simp add: sender_view_def)
  with Some show ?thesis by (intro does_step) auto
qed

lemma handle_v2_packet_does: "pred_option (does resolving c \<circ> snd) (handle_v2_packet wire now c)"
proof (cases "decode_with_prefix wire")
  case (Inr frame)
  obtain prefix body where frame: "frame = (prefix, body)" by fastforce
  show ?thesis
  proof (cases "decode decode_v2_packet body")
    case (Inr p)
    define d where "d = c\<lparr>c_send_window := map_option (set_peer_window (log_window_size (v2_hdr p))) (c_send_window c)\<rparr>"
    have d: "does resolving c d" unfolding d_def by (rule announce_does)
    have acks: "pred_option (does resolving d) (Option.bind (case v2_ack p of None \<Rightarrow> Some d | Some ack \<Rightarrow> process_ack ack now d)
      (\<lambda>c. case v2_ack_vector p of None \<Rightarrow> Some c | Some vec \<Rightarrow> process_ack_vector vec now c))"
      by (rule does_bind) (auto intro: process_ack_does process_ack_vector_does does_refl split: option.splits)
    let ?rest = "\<lambda>c. case (v2_data_header p, v2_data_body p) of
           (Some dh, Some db) \<Rightarrow> if is_dummy prefix then process_dummy_data dh now c else process_data dh db now c
         | _ \<Rightarrow> c"
    let ?aoa = "\<lambda>c. case v2_ack_of_acks p of None \<Rightarrow> c | Some aoa \<Rightarrow> process_ack_of_acks aoa c"
    have rest: "sender_view (?rest (?aoa x)) = sender_view x" for x by (simp split: option.splits)
    have eq: "handle_v2_packet wire now c = Option.bind (Option.bind
        (case v2_ack p of None \<Rightarrow> Some d | Some ack \<Rightarrow> process_ack ack now d)
        (\<lambda>c. case v2_ack_vector p of None \<Rightarrow> Some c | Some vec \<Rightarrow> process_ack_vector vec now c))
        (\<lambda>c. Some (Inr (), ?rest (?aoa c)))"
      using Inr \<open>decode_with_prefix wire = Inr frame\<close>
      by (simp add: handle_v2_packet_def frame unwind_decode decode_v2_packet_safe Let_def d_def split: option.splits)
    show ?thesis
      unfolding eq
    proof (rule pred_option_bind [OF acks])
      fix x assume "does resolving d x"
      from does_trans [OF d does_trans [OF this does_same [OF rest]]]
      show "pred_option (does resolving c \<circ> snd) (Some (Inr (), ?rest (?aoa x)))" by simp
    qed
  qed (use Inr frame in \<open>simp add: handle_v2_packet_def unwind_decode decode_v2_packet_safe does_refl\<close>)
qed (simp add: handle_v2_packet_def does_refl)


section \<open>The handshake moves no data\<close>

definition params_match :: "connection \<Rightarrow> bool" where
  "params_match c \<longleftrightarrow> pred_option (\<lambda>p. np_log_window_size p = cf_log_window_size (c_config c)) (c_params c)"

lemma transition_view:
  assumes "transition_to_established now c = Some c'" "c_send_window c = None" "params_match c"
  shows "sender_view c' = sender_view c" "c_config c' = c_config c" "c_params c' = c_params c" "c_state c' = Established"
  using assms
  by (auto simp: transition_to_established_def bind_eq_Some_conv Let_def sender_view_def params_match_def split: if_splits)

lemma sample_handshake_rtt_frame:
  assumes "sample_handshake_rtt now c = Some c'"
  shows "sender_view c' = sender_view c" "c_config c' = c_config c" "c_params c' = c_params c"
    "c_send_window c' = c_send_window c" "c_state c' = c_state c"
  using assms by (auto simp: sample_handshake_rtt_def bind_eq_Some_conv split: if_splits option.splits)

lemma enqueue_final_ack_frame:
  assumes "enqueue_final_ack isn c = Some c'"
  shows "sender_view c' = sender_view c" "c_config c' = c_config c" "c_params c' = c_params c"
    "c_send_window c' = c_send_window c" "c_state c' = c_state c"
  using assms by (auto simp: enqueue_final_ack_def enqueue_handshake_valid [OF final_ack_valid])

text \<open>The parameters are settled once, when a client's handshake completes.\<close>

definition settled :: "connection \<Rightarrow> connection \<Rightarrow> bool" where
  "settled c c' \<longleftrightarrow> c_config c' = c_config c \<and>
     (c_params c' = c_params c \<or> c_state c = SynSent \<and> sender_view c' = sender_view c \<and> params_match c')"

lemma handle_syn_ack_view:
  assumes "handle_syn_ack wire now c = Some (r, c')" "c_send_window c = None" "c_state c = SynSent"
  shows "sender_view c' = sender_view c \<and> settled c c'"
proof -
  have "sender_view c' = sender_view c \<and> settled c c'"
    if "sample_handshake_rtt now (negotiate peer c) = Some x" "enqueue_final_ack isn x = Some y"
      "transition_to_established now y = Some c'" for peer isn x y
  proof -
    note x = sample_handshake_rtt_frame [OF that(1)] and y = enqueue_final_ack_frame [OF that(2)]
    have n: "sender_view (negotiate peer c) = sender_view c" "c_send_window (negotiate peer c) = None"
      "c_config (negotiate peer c) = c_config c" "params_match (negotiate peer c)"
      using assms(2) by (simp_all add: negotiate_def params_match_def)
    have "c_send_window y = None" "params_match y" using x y n by (simp_all add: params_match_def)
    note z = transition_view [OF that(3) this]
    have "params_match c'" using z x y n by (simp add: params_match_def)
    with x y z n assms(3) show ?thesis by (simp add: settled_def)
  qed
  with assms(1) show ?thesis
    by (auto simp: handle_syn_ack_def unwind_decode decode_v1_datagram_safe bind_eq_Some_conv settled_def
        split: sum.splits option.splits if_splits)
qed

lemma handle_final_ack_view:
  assumes "handle_final_ack wire now c = Some (h, c')" "c_send_window c = None" "params_match c"
  shows "sender_view c' = sender_view c \<and> c_config c' = c_config c \<and> c_params c' = c_params c \<and>
    (c_state c' \<noteq> Established \<longrightarrow> c_send_window c' = None)"
proof -
  have "sender_view c' = sender_view c \<and> c_config c' = c_config c \<and> c_params c' = c_params c \<and> c_state c' = Established"
    if "sample_handshake_rtt now c = Some x" "transition_to_established now x = Some c'" for x
  proof -
    note x = sample_handshake_rtt_frame [OF that(1)]
    have "c_send_window x = None" "params_match x" using x assms(2,3) by (simp_all add: params_match_def)
    from transition_view [OF that(2) this] x show ?thesis by simp
  qed
  moreover have "c_config (resend_handshake_datagram c) = c_config c" "c_params (resend_handshake_datagram c) = c_params c"
    "c_send_window (resend_handshake_datagram c) = c_send_window c"
    by (simp_all add: resend_handshake_datagram_def split: option.splits)
  ultimately show ?thesis
    using assms
    by (auto simp: handle_final_ack_def unwind_decode decode_v1_datagram_safe bind_eq_Some_conv
        split: sum.splits if_splits)
qed

section \<open>Every call is a run of the sender\<close>

lemma keeps_settled: "keeps c c' \<Longrightarrow> settled c c'"
  by (simp add: keeps_def settled_def)

lemma handle_v2_packet_settled:
  assumes "conn_ok c" "now < 2 ^ 64" "handle_v2_packet wire now c = Some (r, c')"
  shows "does resolving c c' \<and> c_config c' = c_config c \<and> c_params c' = c_params c"
  using handle_v2_packet_keeps [of c now wire] handle_v2_packet_does [of c wire now] assms
  by (simp add: conn_ok_def base_ok_def keeps_def)

lemma handle_datagram_does:
  assumes ok: "conn_ok c" "params_match c" "now < 2 ^ 64" and call: "handle_datagram wire now c = Some (r, c')"
  shows "does resolving c c' \<and> settled c c'"
proof -
  define c1 where "c1 = c\<lparr>c_stats := (c_stats c)\<lparr>st_datagrams_in := u64_add (st_datagrams_in (c_stats c)) 1\<rparr>\<rparr>"
  define c2 where "c2 = arm TimerIdle (instant_add now (cf_idle_timeout (c_config c1))) c1"
  have c2: "sender_view c2 = sender_view c" "c_send_window c2 = c_send_window c" "params_match c2 = params_match c"
    "c_config c2 = c_config c" "c_params c2 = c_params c" "c_state c2 = c_state c"
    by (simp_all add: c2_def c1_def params_match_def)
  have ok2: "conn_ok c2" if "c_state c \<noteq> Closed"
  proof -
    have "keeps c c2" using ok(1) by (simp add: c2_def c1_def keeps_def conn_ok_def base_ok_def parts_ok_def timer_laws)
    from keeps_next [OF ok(1) that this] show ?thesis by simp
  qed
  show ?thesis
  proof (cases "c_state c")
    case SynSent
    then have syn: "handle_syn_ack wire now c2 = Some (r, c')"
      using call by (simp add: handle_datagram_def c2_def c1_def Let_def)
    have "c_send_window c2 = None" using ok(1) SynSent c2 by (simp add: conn_ok_def)
    from handle_syn_ack_view [OF syn this] c2 SynSent show ?thesis by (auto simp: settled_def intro: does_same)
  next
    case SynReceived
    then obtain h x where h: "handle_final_ack wire now c2 = Some (h, x)"
      "if h then c' = x else \<exists>y. transition_to_established now x = Some y \<and> handle_v2_packet wire now y = Some (r, c')"
      using call by (auto simp: handle_datagram_def c2_def c1_def Let_def bind_eq_Some_conv split: if_splits)
    have none: "c_send_window c2 = None" "c_params c2 \<noteq> None" using ok(1) SynReceived c2 by (simp_all add: conn_ok_def)
    have x: "sender_view x = sender_view c" "c_config x = c_config c" "c_params x = c_params c"
      using handle_final_ack_view [OF h(1) none(1)] ok(2) c2 by simp_all
    show ?thesis
    proof (cases h)
      case True
      with h(2) x show ?thesis by (simp add: does_same settled_def)
    next
      case False
      then obtain y where y: "transition_to_established now x = Some y" "handle_v2_packet wire now y = Some (r, c')"
        using h(2) by auto
      have "x = c2"
        using handle_final_ack_ok [OF ok2 _ ok(3), of wire] SynReceived c2 h(1) False by simp
      then have t: "sender_view y = sender_view c" "c_config y = c_config c" "c_params y = c_params c"
        using transition_view [OF y(1)] none ok(2) c2 by simp_all
      have "conn_ok y"
        using transition_ok [OF _ none(2), of now] ok2 SynReceived y(1) \<open>x = c2\<close> by (simp add: conn_ok_def [of c2])
      from handle_v2_packet_settled [OF this ok(3) y(2)] t show ?thesis
        by (simp add: settled_def does_def)
    qed
  next
    case Established
    then have "c' = resend_handshake_datagram c2 \<or> handle_v2_packet wire now c2 = Some (r, c')"
      using call by (auto simp: handle_datagram_def c2_def c1_def Let_def bind_eq_Some_conv split: if_splits)
    moreover have "settled c (resend_handshake_datagram c2)"
      using c2 by (simp add: settled_def resend_handshake_datagram_def split: option.splits)
    ultimately show ?thesis
      using handle_v2_packet_settled [OF ok2 ok(3), of wire r c'] Established c2
      by (auto simp: settled_def intro: does_same) (auto simp: does_def)
  next
    case Closed
    with call have "c' = c1" by (simp add: handle_datagram_def c1_def Let_def)
    then show ?thesis by (simp add: c1_def does_same settled_def)
  qed
qed


lemma handle_timer_does:
  assumes "conn_ok c" "handle_timer now t c = Some c'"
  shows "does recovering c c' \<and> c_config c' = c_config c \<and> c_params c' = c_params c"
proof (cases "t = TimerRetransmit \<and> c_state c = Established")
  case True
  define c1 where "c1 = (disarm TimerRetransmit c)\<lparr>c_stats := (c_stats c)\<lparr>st_retransmit_timeouts :=
    u64_add (st_retransmit_timeouts (c_stats c)) 1\<rparr>\<rparr>"
  have "parts_ok c1" using assms(1) by (simp add: c1_def conn_ok_def base_ok_def parts_ok_def timer_laws)
  then have "keeps c1 (declare_overdue_lost now c1)" by (rule declare_overdue_lost_keeps)
  moreover have "does recovering c (declare_overdue_lost now c1)"
    using recovery_does(2) [where c = c1 and now = now] by (simp add: c1_def does_def)
  moreover obtain rtt where "c' = update_retransmit_timer now ((declare_overdue_lost now c1)\<lparr>c_rtt := rtt\<rparr>)"
    using assms(2) True by (auto simp: handle_retransmit_timeout_def Let_def bind_eq_Some_conv c1_def)
  moreover have "c_config (update_retransmit_timer now x) = c_config x" "c_params (update_retransmit_timer now x) = c_params x" for x
    by (auto simp: update_retransmit_timer_def Let_def split: option.splits)
  ultimately show ?thesis by (auto simp: does_def c1_def keeps_def)
next
  case False
  have close: "c_config (close x) = c_config x" "c_params (close x) = c_params x" for x by (simp_all add: close_def)
  have resend: "c_config (resend_handshake_datagram x) = c_config x" "c_params (resend_handshake_datagram x) = c_params x" for x
    by (simp_all add: resend_handshake_datagram_def split: option.splits)
  have "sender_view (retransmit_handshake now x) = sender_view x \<and> c_config (retransmit_handshake now x) = c_config x \<and>
    c_params (retransmit_handshake now x) = c_params x" for x
    by (simp add: retransmit_handshake_def Let_def close resend)
  with assms False have "sender_view c' = sender_view c \<and> c_config c' = c_config c \<and> c_params c' = c_params c"
    by (cases t) (auto simp: handle_retransmit_timeout_def Let_def bind_eq_Some_conv handle_ack_delay_timeout_def
      handle_keep_alive_timeout_def handle_idle_timeout_def close)
  then show ?thesis by (simp add: does_same)
qed

lemma handle_timers_does:
  assumes "conn_ok c" "handle_timers now ts c = Some c'"
  shows "does recovering c c' \<and> c_config c' = c_config c \<and> c_params c' = c_params c"
  using assms
proof (induction ts arbitrary: c)
  case (Cons t ts)
  show ?case
  proof (cases "c_state c = Closed")
    case False
    then obtain x where x: "handle_timer now t c = Some x" "handle_timers now ts x = Some c'"
      using Cons.prems(2) by (auto simp: bind_eq_Some_conv)
    have "conn_ok x" using handle_timer_next [OF Cons.prems(1) False, of now t] x(1) by simp
    from handle_timer_does [OF Cons.prems(1) x(1)] Cons.IH [OF this x(2)] show ?thesis by (auto intro: does_trans)
  qed (use Cons.prems in \<open>simp add: does_refl\<close>)
qed (simp add: does_refl)

section \<open>Packets on the wire\<close>

text \<open>What a version 2 datagram carries: its packet, as the peer will decode it.\<close>

definition packet_on :: "bytes \<Rightarrow> v2_packet \<Rightarrow> bool" where
  "packet_on wire p \<longleftrightarrow> (\<exists>prefix packet_bytes. decode_with_prefix wire = Inr (prefix, packet_bytes) \<and>
     \<not> is_dummy prefix \<and> decode decode_v2_packet packet_bytes = Inr p)"

definition carries :: "bytes \<Rightarrow> u64 \<Rightarrow> u64 \<Rightarrow> bytes \<Rightarrow> bool" where
  "carries wire d ch data \<longleftrightarrow> (\<exists>p. packet_on wire p \<and>
     v2_data_header p = Some \<lparr>data_seq_num = truncate_seq d\<rparr> \<and>
     v2_data_body p = Some \<lparr>channel_seq_num = truncate_seq ch, body_data = data\<rparr>)"

lemma packet_on_layout:
  assumes "v2_packet_valid p" "encode_with_prefix (v2_packet_layout p) False = Inr wire"
  shows "packet_on wire (v2_normal p)"
proof -
  have "v2_packet_layout p \<noteq> []"
    using v2_packet_size_layout [OF assms(1)] by (auto simp: v2_packet_size_def v2_header_size_def)
  from decode_with_prefix_frame [OF this refl, of False] assms show ?thesis
    by (auto simp: packet_on_def encode_with_prefix_eq is_dummy_def prefix_normal_def decode_def decode_v2_packet_layout)
qed

lemma data_packet_carries:
  assumes "v2_packet_valid (data_packet l d ch data now c)"
    "encode_with_prefix (v2_packet_layout (data_packet l d ch data now c)) False = Inr wire"
  shows "carries wire d ch data"
  using packet_on_layout [OF assms]
  by (auto simp: carries_def data_packet_def assemble_packet_def v2_normal_def Let_def)

text \<open>\<open>poll_transmit\<close> either moves no data or puts exactly one chunk on the wire.\<close>

lemma try_retransmit_does:
  assumes "conn_ok c" "c_state c = Established" "try_retransmit now c = Some (t, c')"
  shows "t = None \<and> c' = c \<or> (\<exists>d ch data wire. t = Some wire \<and> carries wire d ch data \<and>
    sender_step (Transmitted d ch data) (sender_view c) (sender_view c'))"
proof -
  obtain params where params: "parts_ok c" "c_params c = Some params"
    using assms by (auto simp: conn_ok_def base_ok_def)
  then show ?thesis
  proof (cases rule: try_retransmit_cases [where now = now])
    case blocked
    with assms(3) show ?thesis by simp
  next
    case (resent w e es d w' wire s)
    have "sender_step (Transmitted d (rt_channel_seq e) (rt_data e)) (sender_view c)
      (sender_view (c\<lparr>c_reliability := (c_reliability c)\<lparr>rc_queue := es\<rparr>, c_send_window := Some w'\<rparr>))"
      using sender_step.retransmit [of "sender_view c" e es now d w'] resent(1-3)
      by (simp add: sender_view_def can_send_def)
    with assms(3) resent(4) data_packet_carries [OF resent(7,6)] show ?thesis by auto
  qed
qed

lemma try_send_new_data_does:
  assumes "conn_ok c" "c_state c = Established" "try_send_new_data now c = Some (t, c')"
  shows "t = None \<and> c' = c \<or> (\<exists>d ch data wire. t = Some wire \<and> carries wire d ch data \<and>
    sender_step (Transmitted d ch data) (sender_view c) (sender_view c'))"
proof -
  obtain params where params: "parts_ok c" "c_params c = Some params"
    using assms by (auto simp: conn_ok_def base_ok_def)
  then show ?thesis
  proof (cases rule: try_send_new_data_cases [where now = now])
    case blocked
    with assms(3) show ?thesis by simp
  next
    case (sent_new w data rest d ch w' wire s)
    have "sender_step (Transmitted d ch data) (sender_view c)
      (sender_view (c\<lparr>c_send_buffer := rest, c_send_window := Some w'\<rparr>))"
      using sender_step.transmit [of "sender_view c" data rest now d ch w'] sent_new(1-3)
      by (simp add: sender_view_def can_send_def)
    with assms(3) sent_new(4) data_packet_carries [OF sent_new(7,6)] show ?thesis
      by (auto simp: Let_def split: if_splits)
  qed
qed


lemma frame_v2_packet_view:
  assumes "frame_v2_packet p c = Some (t, c')"
  shows "sender_view c' = sender_view c"
proof (cases "unwind (encode_vec v2_packet_size encode_v2_packet p)")
  case (Some r)
  with assms show ?thesis by (auto simp: frame_v2_packet_def split: sum.splits)
qed (use assms in \<open>simp add: frame_v2_packet_def\<close>)

lemma standalone_ack_view:
  assumes "build_standalone_ack now c = Some (t, c')"
  shows "sender_view c' = sender_view c"
proof (cases "c_params c = None \<or> build_acknowledgement now c = None")
  case True
  with assms show ?thesis by (auto simp: build_standalone_ack_def split: option.splits)
next
  case False
  then obtain params an where pa: "c_params c = Some params" "build_acknowledgement now c = Some an" by auto
  let ?p = "assemble_packet (np_log_window_size params) 0 (Some an) (c_pending_ack_of_acks c) None"
  obtain u x where x: "frame_v2_packet ?p c = Some (u, x)"
    using assms pa by (cases "frame_v2_packet ?p c") (auto simp: build_standalone_ack_def Let_def)
  have "sender_view (commit_acknowledgement x) = sender_view x" by (simp add: commit_acknowledgement_def)
  with assms pa x frame_v2_packet_view [OF x] show ?thesis
    by (auto simp: build_standalone_ack_def Let_def split: option.splits)
qed

text \<open>Where a packet comes from, in the order \<open>poll_transmit\<close> asks.\<close>

lemma poll_transmit_sources:
  assumes "conn_ok c" "c_state c = Established" "c_pending_transmits c = []" "poll_transmit now c = Some (t, c')"
  obtains (resent) wire x s where "t = Some wire" "try_retransmit now c = Some (Some wire, x)"
      "c' = (rearm_keep_alive now x)\<lparr>c_stats := s\<rparr>"
  | (sent_new) wire x s where "t = Some wire" "try_send_new_data now c = Some (Some wire, x)"
      "c' = (rearm_keep_alive now x)\<lparr>c_stats := s\<rparr>"
  | (acked) wire x s where "t = Some wire" "build_standalone_ack now c = Some (Some wire, x)"
      "c' = (rearm_keep_alive now (disarm TimerAckDelay (x\<lparr>c_ack_pending := False\<rparr>)))\<lparr>c_stats := s\<rparr>"
      "try_retransmit now c = Some (None, c)" "try_send_new_data now c = Some (None, c)"
  | (quiet) "t = None" "c' = c \<or> build_standalone_ack now c = Some (None, c')"
      "try_retransmit now c = Some (None, c)" "try_send_new_data now c = Some (None, c)"
proof -
  obtain x where x: "poll_transmit_inner now c = Some (t, x)"
    "c' = (if t = None then x else x\<lparr>c_stats := (c_stats x)\<lparr>st_datagrams_out := u64_add (st_datagrams_out (c_stats x)) 1\<rparr>\<rparr>)"
    using assms(4) by (cases "poll_transmit_inner now c") (auto simp: poll_transmit_def)
  obtain t1 c1 where one: "try_retransmit now c = Some (t1, c1)"
    using x(1) assms(2,3) by (cases "try_retransmit now c") (auto simp: poll_transmit_inner_def)
  show ?thesis
  proof (cases t1)
    case (Some wire)
    with one x(1) assms(2,3) have "t = Some wire" "x = rearm_keep_alive now c1" by (auto simp: poll_transmit_inner_def)
    with one Some x(2) show ?thesis by (auto intro: resent)
  next
    case None
    then have "c1 = c" using try_retransmit_does [OF assms(1,2) one] by auto
    with one None x(1) assms(2,3) obtain t2 c2 where two: "try_send_new_data now c = Some (t2, c2)"
      by (cases "try_send_new_data now c") (auto simp: poll_transmit_inner_def)
    show ?thesis
    proof (cases t2)
      case (Some wire)
      with one two \<open>t1 = None\<close> \<open>c1 = c\<close> x(1) assms(2,3) have "t = Some wire" "x = rearm_keep_alive now c2"
        by (auto simp: poll_transmit_inner_def)
      with two Some x(2) show ?thesis by (auto intro: sent_new)
    next
      case none: None
      then have "c2 = c" using try_send_new_data_does [OF assms(1,2) two] by auto
      with one two \<open>t1 = None\<close> none \<open>c1 = c\<close>
      have stuck: "try_retransmit now c = Some (None, c)" "try_send_new_data now c = Some (None, c)" by simp_all
      with x(1) assms(2,3)
      have rest: "(if c_ack_pending c then Option.bind (build_standalone_ack now c) (\<lambda>(transmit, c). if transmit \<noteq> None
          then Some (transmit, rearm_keep_alive now (disarm TimerAckDelay (c\<lparr>c_ack_pending := False\<rparr>))) else Some (None, c))
        else Some (None, c)) = Some (t, x)"
        by (simp add: poll_transmit_inner_def)
      show ?thesis
      proof (cases "c_ack_pending c")
        case True
        with rest obtain t3 c3 where three: "build_standalone_ack now c = Some (t3, c3)"
          by (cases "build_standalone_ack now c") auto
        show ?thesis
        proof (cases t3)
          case (Some wire)
          with True rest three x(2) stuck show ?thesis by (auto intro: acked)
        next
          case None
          with True rest three x(2) have "t = None" "c' = c3" by auto
          with three None stuck show ?thesis by (intro quiet) simp_all
        qed
      next
        case False
        with rest x(2) have "t = None" "c' = c" by auto
        with stuck show ?thesis by (intro quiet) simp_all
      qed
    qed
  qed
qed

lemma poll_transmit_does:
  assumes "conn_ok c" "poll_transmit now c = Some (t, c')"
  shows "sender_view c' = sender_view c \<or> (\<exists>d ch data wire. t = Some wire \<and> carries wire d ch data \<and>
    sender_step (Transmitted d ch data) (sender_view c) (sender_view c'))"
proof (cases "c_state c = Established \<and> c_pending_transmits c = []")
  case False
  obtain u x where inner: "poll_transmit_inner now c = Some (u, x)"
    using assms(2) by (cases "poll_transmit_inner now c") (auto simp: poll_transmit_def)
  with assms(2) have "sender_view c' = sender_view x" by (auto simp: poll_transmit_def)
  moreover have "sender_view x = sender_view c"
    using inner False by (auto simp: poll_transmit_inner_def split: list.splits if_splits)
  ultimately show ?thesis by simp
next
  case True
  then have est: "c_state c = Established" "c_pending_transmits c = []" by simp_all
  from assms(1) est assms(2) show ?thesis
  proof (cases rule: poll_transmit_sources)
    case (resent wire x s)
    with try_retransmit_does [OF assms(1) est(1) resent(2)] show ?thesis by auto
  next
    case (sent_new wire x s)
    with try_send_new_data_does [OF assms(1) est(1) sent_new(2)] show ?thesis by auto
  next
    case (acked wire x s)
    with standalone_ack_view [OF acked(2)] show ?thesis by simp
  next
    case quiet
    with standalone_ack_view [of now c None c'] show ?thesis by auto
  qed
qed

section \<open>Accepting data\<close>

lemma max_payload_pos: "0 < max_payload c"
  by (simp add: max_payload_def Let_def)

lemma div_ceil_short: "0 < a \<Longrightarrow> a \<le> n \<Longrightarrow> div_ceil a n = 1"
  unfolding div_ceil_def by (rule div_nat_eqI) (linarith, simp)

lemma div_ceil_step: "0 < n \<Longrightarrow> n < a \<Longrightarrow> div_ceil a n = Suc (div_ceil (a - n) n)"
proof -
  assume n: "0 < n" "n < a"
  then have "a + n - 1 = (a - n + n - 1) + n" by linarith
  with n(1) show ?thesis unfolding div_ceil_def by (metis Suc_eq_plus1 div_add_self2 less_numeral_extra(3))
qed

lemma chunks_laws:
  assumes "0 < n"
  shows "concat (chunks n data) = data \<and> list_all (\<lambda>chunk. chunk \<noteq> [] \<and> length chunk \<le> n) (chunks n data) \<and>
    length (chunks n data) = div_ceil (length data) n"
  using assms
proof (induction n data rule: chunks.induct)
  case (1 n data)
  show ?case
  proof (cases "data = []")
    case True
    with 1 show ?thesis by (simp add: chunks.simps [of n] div_ceil_def)
  next
    case False
    have "div_ceil (length data) n = Suc (div_ceil (length (drop n data)) n)"
    proof (cases "length data \<le> n")
      case True
      have "0 < length data" using False by simp
      then have "div_ceil (length data) n = 1" using True by (rule div_ceil_short)
      with True "1.prems" show ?thesis by (simp add: div_ceil_def)
    next
      case False
      with "1.prems" show ?thesis by (simp add: div_ceil_step)
    qed
    moreover have "chunks n data = take n data # chunks n (drop n data)"
      using False "1.prems" by (simp add: chunks.simps [of n data])
    ultimately show ?thesis using "1.IH" "1.prems" False by simp
  qed
qed

definition accepted_by :: "bytes \<Rightarrow> connection \<Rightarrow> bytes list" where
  "accepted_by data c =
     (case fst (send data c) of Inl _ \<Rightarrow> [] | Inr _ \<Rightarrow> if length data \<le> max_payload c then [data] else chunks (max_payload c) data)"

lemma send_appends:
  "snd (send data c) = c\<lparr>c_send_buffer := c_send_buffer c @ accepted_by data c\<rparr>"
  by (cases "c_state c") (simp_all add: send_def accepted_by_def Let_def)

text \<open>
  C9. \<open>send\<close> is all or nothing and keeps the byte stream: an accepted buffer is appended
  to the send buffer as chunks whose concatenation is the data, none longer than one
  packet's payload, and the send buffer stays within its limit; a refused one comes back to
  the caller whole and leaves the connection as it was.
\<close>

theorem send_all_or_nothing:
  "case send data c of
     (Inr _, c') \<Rightarrow> c_state c = Established \<and>
       (\<exists>new. c' = c\<lparr>c_send_buffer := c_send_buffer c @ new\<rparr> \<and> concat new = data \<and>
          list_all (\<lambda>chunk. length chunk \<le> max_payload c) new) \<and>
       length (c_send_buffer c') \<le> send_buffer_limit c
   | (Inl (e, returned), c') \<Rightarrow> returned = data \<and> c' = c"
proof (cases "c_state c = Established \<and>
    length (c_send_buffer c) + max (div_ceil (length data) (max_payload c)) 1 \<le> send_buffer_limit c")
  case True
  note laws = chunks_laws [OF max_payload_pos [of c], of data]
  show ?thesis
  proof (cases "length data \<le> max_payload c")
    case short: True
    with True have "send data c = (Inr (), c\<lparr>c_send_buffer := c_send_buffer c @ [data]\<rparr>)"
      by (simp add: send_def Let_def)
    with True short show ?thesis by (auto intro!: exI [of _ "[data]"])
  next
    case False
    have "list_all (\<lambda>chunk. length chunk \<le> max_payload c) (chunks (max_payload c) data)"
      using laws by (auto simp: list_all_iff)
    moreover have "send data c = (Inr (), c\<lparr>c_send_buffer := c_send_buffer c @ chunks (max_payload c) data\<rparr>)"
      using True False by (simp add: send_def Let_def)
    ultimately show ?thesis using laws True by (auto intro!: exI [of _ "chunks (max_payload c) data"])
  qed
next
  case False
  then show ?thesis by (auto simp: send_def Let_def split: conn_state.splits)
qed


section \<open>Runs\<close>

fun accepted_of :: "conn_call \<Rightarrow> connection \<Rightarrow> bytes list" where
  "accepted_of (CallSend data) c = accepted_by data c"
| "accepted_of _ c = []"

fun permitted :: "conn_call \<Rightarrow> sender_action list \<Rightarrow> bool" where
  "permitted (CallSend data) acts \<longleftrightarrow> (\<exists>cs. acts = [Buffered cs])"
| "permitted (CallDatagram wire now) acts \<longleftrightarrow> set acts \<subseteq> resolving"
| "permitted (CallTransmit now) acts \<longleftrightarrow> acts = [] \<or> (\<exists>d ch data. acts = [Transmitted d ch data])"
| "permitted (CallTimeout now) acts \<longleftrightarrow> set acts \<subseteq> recovering"
| "permitted CallEvent acts \<longleftrightarrow> acts = []"
| "permitted CallClose acts \<longleftrightarrow> acts = []"

lemma no_history:
  assumes "set acts \<subseteq> resolving"
  shows "stream_of acts = []" "transmissions acts = []"
  using assms by (induction acts) (auto simp: stream_of_def transmissions_def)

lemma conn_step_runs:
  assumes "conn_ok c" "params_match c" "call_ok call" "conn_step call c = Some c'"
  shows "(\<exists>acts. sender_run acts (sender_view c) (sender_view c') \<and> permitted call acts \<and>
      stream_of acts = accepted_of call c \<and> length (transmissions acts) \<le> 1) \<and> settled c c'"
proof (cases call)
  case (CallSend data)
  then have c': "c' = c\<lparr>c_send_buffer := c_send_buffer c @ accepted_by data c\<rparr>"
    using assms(4) by (simp add: send_appends)
  have "sender_step (Buffered (accepted_by data c)) (sender_view c) (sender_view c')"
    using sender_step.buffer [of "accepted_by data c" "sender_view c"]
    by (simp add: c' sender_view_def cong: option.case_cong)
  from sender_run_one [OF this] CallSend show ?thesis
    by (intro conjI exI [of _ "[Buffered (accepted_by data c)]"]) (simp_all add: c' settled_def)
next
  case (CallDatagram wire now)
  with assms obtain r where "handle_datagram wire now c = Some (r, c')" by auto
  from handle_datagram_does [OF assms(1,2) _ this] assms(3) CallDatagram have d: "does resolving c c'" "settled c c'"
    by simp_all
  then obtain acts where acts: "set acts \<subseteq> resolving" "sender_run acts (sender_view c) (sender_view c')"
    unfolding does_def by blast
  with no_history [OF acts(1)] d(2) CallDatagram show ?thesis by (intro conjI exI [of _ acts]) simp_all
next
  case (CallTransmit now)
  with assms obtain t where t: "poll_transmit now c = Some (t, c')" by auto
  have "safely (\<lambda>(_, c'). keeps c c') (poll_transmit now c)"
    using assms(1) by (intro poll_transmit_keeps) (auto simp: conn_ok_def base_ok_def)
  with t have "keeps c c'" by simp
  then have "settled c c'" by (rule keeps_settled)
  moreover from poll_transmit_does [OF assms(1) t]
  have "\<exists>acts. sender_run acts (sender_view c) (sender_view c') \<and> permitted call acts \<and> stream_of acts = [] \<and>
    length (transmissions acts) \<le> 1"
  proof
    assume "sender_view c' = sender_view c"
    with CallTransmit show ?thesis by (intro exI [of _ "[]"]) (simp add: sender_run.nothing)
  next
    assume "\<exists>d ch data wire. t = Some wire \<and> carries wire d ch data \<and>
      sender_step (Transmitted d ch data) (sender_view c) (sender_view c')"
    then obtain d ch data where "sender_step (Transmitted d ch data) (sender_view c) (sender_view c')" by blast
    from sender_run_one [OF this] CallTransmit show ?thesis by (intro exI [of _ "[Transmitted d ch data]"]) simp
  qed
  ultimately show ?thesis using CallTransmit by simp
next
  case (CallTimeout now)
  have step: "handle_timeout now c = Some c'" using assms(4) by (simp add: CallTimeout)
  show ?thesis
  proof (cases "c_state c = Closed")
    case True
    with step have "c' = c" by (simp add: handle_timeout_def)
    with CallTimeout show ?thesis by (intro conjI exI [of _ "[]"]) (simp_all add: settled_def sender_run.nothing)
  next
    case False
    with step have "handle_timers now (expired now (c_timers c)) c = Some c'" by (simp add: handle_timeout_def)
    from handle_timers_does [OF assms(1) this] have d: "does recovering c c'" "settled c c'"
      by (simp_all add: settled_def)
    then obtain acts where acts: "set acts \<subseteq> recovering" "sender_run acts (sender_view c) (sender_view c')"
      unfolding does_def by blast
    then have "set acts \<subseteq> resolving" by blast
    from no_history [OF this] acts d(2) CallTimeout show ?thesis by (intro conjI exI [of _ acts]) simp_all
  qed
next
  case CallEvent
  then have "sender_view c' = sender_view c" "settled c c'"
    using assms(4) by (auto simp: poll_event_def settled_def split: list.splits)
  with CallEvent show ?thesis by (intro conjI exI [of _ "[]"]) (simp_all add: sender_run.nothing)
next
  case CallClose
  have c': "c' = close c" using assms(4) by (simp add: CallClose)
  have "c_config (close c) = c_config c" "c_params (close c) = c_params c" by (simp_all add: close_def)
  with CallClose show ?thesis unfolding c'
    by (intro conjI exI [of _ "[]"]) (simp_all add: sender_run.nothing settled_def)
qed

lemma settled_params_match: "settled c c' \<Longrightarrow> params_match c \<Longrightarrow> params_match c'"
  by (auto simp: settled_def params_match_def)


definition opened :: "connection \<Rightarrow> bool" where
  "opened c \<longleftrightarrow> (\<exists>config now. config_ok config \<and> now < 2 ^ 64 \<and>
     (connect config now = Some (Inr c) \<or> (\<exists>syn. accept config syn now = Some (Inr c))))"

fun accepted :: "conn_call list \<Rightarrow> connection \<Rightarrow> bytes list" where
  "accepted [] c = []"
| "accepted (call # calls) c =
     accepted_of call c @ (case conn_step call c of None \<Rightarrow> [] | Some c' \<Rightarrow> accepted calls c')"

abbreviation initial_view :: "u8 \<Rightarrow> sender" where
  "initial_view lws \<equiv> \<lparr>sd_window = sw_new INITIAL_DATA_SEQ 1 lws, sd_queue = rel_new, sd_buffer = []\<rparr>"

definition fresh :: "connection \<Rightarrow> bool" where
  "fresh c \<longleftrightarrow> conn_ok c \<and> params_match c \<and> sender_view c = initial_view (cf_log_window_size (c_config c)) \<and>
     (c_state c = Established \<longrightarrow> False)"

lemma enqueue_handshake_frame:
  assumes "enqueue_handshake d c = Some (q, c')"
  shows "sender_view c' = sender_view c" "c_params c' = c_params c" "c_config c' = c_config c"
    "c_state c' \<in> {c_state c, Closed}"
proof -
  obtain y where "unwind (encode_vec v1_datagram_size encode_v1_datagram d) = Some y"
    using assms by (cases "unwind (encode_vec v1_datagram_size encode_v1_datagram d)") (simp_all add: enqueue_handshake_def)
  moreover have "c_params (close c) = c_params c" "c_config (close c) = c_config c" "c_state (close c) = Closed"
    by (simp_all add: close_def)
  ultimately show "sender_view c' = sender_view c" "c_params c' = c_params c" "c_config c' = c_config c"
    "c_state c' \<in> {c_state c, Closed}"
    using assms by (cases y; auto simp: enqueue_handshake_def)+
qed

lemma conn_new_fresh:
  "sender_view (conn_new side config) = initial_view (cf_log_window_size config)" "c_params (conn_new side config) = None"
  "c_config (conn_new side config) = config" "c_state (conn_new side config) = SynSent"
  by (simp_all add: conn_new_def sender_view_def)

lemma connect_fresh:
  assumes "config_ok config" "connect config now = Some (Inr c)"
  shows "fresh c"
proof -
  obtain q x where x: "enqueue_handshake (syn_datagram (conn_new Client config)) (conn_new Client config) = Some (q, x)"
    "sender_view c = sender_view x" "c_params c = c_params x" "c_config c = c_config x" "c_state c = c_state x"
    using assms(2) by (auto simp: connect_def enqueue_syn_def bind_eq_Some_conv Let_def split: if_splits option.splits)
  note f = enqueue_handshake_frame [OF x(1), unfolded conn_new_fresh]
  have "conn_ok c" using connect_safely [OF assms(1), of now] assms(2) by simp
  with x f show ?thesis by (auto simp: fresh_def params_match_def)
qed

lemma accept_fresh:
  assumes "config_ok config" "accept config syn now = Some (Inr c)"
  shows "fresh c"
proof -
  have "conn_ok c" using accept_safely [OF assms(1), of syn now] assms(2) by simp
  with assms(2) show ?thesis
    by (auto simp: accept_def enqueue_syn_ack_ok Let_def negotiate_def fresh_def params_match_def conn_new_fresh
        split: if_splits option.splits)
qed

lemma opened_fresh: "opened c \<Longrightarrow> fresh c"
  by (auto simp: opened_def intro: connect_fresh accept_fresh)

text \<open>Every run of the API is a run of the sender on the accepted stream.\<close>

lemma conn_run_runs:
  assumes "conn_ok c" "params_match c" "list_all call_ok calls" "conn_run calls c = Some c'"
  shows "\<exists>acts. sender_run acts (sender_view c) (sender_view c') \<and> stream_of acts = accepted calls c \<and>
    length (transmissions acts) \<le> length calls \<and> conn_ok c' \<and> params_match c'"
  using assms
proof (induction calls arbitrary: c)
  case Nil
  then show ?case by (auto intro!: exI [of _ "[]"] sender_run.nothing)
next
  case (Cons call calls)
  then obtain x where x: "conn_step call c = Some x" "conn_run calls x = Some c'"
    by (auto simp: bind_eq_Some_conv)
  obtain acts where a: "sender_run acts (sender_view c) (sender_view x)" "stream_of acts = accepted_of call c"
    "length (transmissions acts) \<le> 1" "settled c x"
    using conn_step_runs [OF Cons.prems(1,2) _ x(1)] Cons.prems(3) by auto
  have "conn_ok x" using conn_step_next [OF Cons.prems(1), of call] Cons.prems(3) x(1) by simp
  moreover have "params_match x" by (rule settled_params_match [OF a(4) Cons.prems(2)])
  ultimately obtain bcts where "sender_run bcts (sender_view x) (sender_view c')" "stream_of bcts = accepted calls x"
    "length (transmissions bcts) \<le> length calls" "conn_ok c' \<and> params_match c'"
    using Cons.IH [OF _ _ _ x(2)] Cons.prems(3) by auto
  with a x(1) show ?case
    by (intro exI [of _ "acts @ bcts"]) (auto intro: sender_run_append)
qed


section \<open>Nothing is lost\<close>

definition outstanding :: "connection \<Rightarrow> (u64 \<times> u64 \<times> bytes) list" where
  "outstanding c = (case c_send_window c of None \<Rightarrow> [] | Some w \<Rightarrow> in_flight w)"

lemma held_view: "held (sender_view c) = mset (map snd (outstanding c)) + mset (rel_items (c_reliability c))"
proof -
  have "in_flight (sw_new d0 ch lws) = []" for d0 ch lws by (simp add: in_flight_def sw_new_def)
  then show ?thesis by (simp add: held_def outstanding_def sender_view_def split: option.splits)
qed

lemma accepted_snoc:
  assumes "conn_run calls c0 = Some c" "conn_step call c = Some c'"
  shows "accepted (calls @ [call]) c0 = accepted calls c0 @ accepted_of call c"
  using assms by (induction calls arbitrary: c0) (auto simp: bind_eq_Some_conv)

text \<open>The counters a run of this length and this volume cannot exhaust.\<close>

definition within_counters :: "conn_call list \<Rightarrow> connection \<Rightarrow> bool" where
  "within_counters calls c \<longleftrightarrow> length calls < 2 ^ 62 \<and> length (accepted calls c) < 2 ^ 62 \<and>
     sum_list (map length (accepted calls c)) < 2 ^ 64"

lemma opened_accounts:
  assumes "opened c0" "list_all call_ok calls" "conn_run calls c0 = Some c" "within_counters calls c0"
  obtains acts k acked where "accounts INITIAL_DATA_SEQ acts k acked (sender_view c)" "stream_of acts = accepted calls c0"
    "length (transmissions acts) \<le> length calls" "conn_ok c" "params_match c"
proof -
  have fresh: "fresh c0" by (rule opened_fresh [OF assms(1)])
  then obtain acts where acts: "sender_run acts (sender_view c0) (sender_view c)" "stream_of acts = accepted calls c0"
    "length (transmissions acts) \<le> length calls" "conn_ok c" "params_match c"
    using conn_run_runs [OF _ _ assms(2,3)] by (auto simp: fresh_def)
  have "accounts INITIAL_DATA_SEQ [] 0 {} (sender_view c0)"
    using fresh accounts_initially [of INITIAL_DATA_SEQ] by (simp add: fresh_def)
  moreover have "within_range INITIAL_DATA_SEQ ([] @ acts)"
    using acts(2,3) assms(4) by (simp add: within_range_def within_counters_def INITIAL_DATA_SEQ_def)
  ultimately show ?thesis
    using accounts_run [OF acts(1)] acts by (metis append_Nil that)
qed


text \<open>A small run: a server hands out its SYN+ACK and is established by a datagram that is no
  version 1 datagram, and the application sends one byte.\<close>

abbreviation sample_calls :: "conn_call list" where
  "sample_calls \<equiv> [CallTransmit 0, CallDatagram [] 0, CallSend [7]]"

lemma sample_run:
  obtains c0 c where "opened c0" "conn_run sample_calls c0 = Some c" "accepted sample_calls c0 = [[7]]"
    "c_state c = Established" "c_pending_transmits c = []" "conn_mtu c = Some 1232" "c_send_buffer c = [[7]]"
    "c_send_window c = Some (sw_new INITIAL_DATA_SEQ 1 10)" "c_congestion c = cc_new"
    "c_reliability c = rel_new"
proof -
  let ?peer = "conn_new Client sample_config"
  have cfg: "config_ok sample_config" "c_config ?peer = sample_config" "cf_log_window_size sample_config = 10"
    "cf_cookie_hash sample_config = Some (replicate 32 7)" "cf_upstream_mtu sample_config = 1232" "cf_downstream_mtu sample_config = 1232"
    by (simp_all add: config_ok_def sample_config_def default_config_def conn_new_def)
  obtain c0 c1 wire where c1: "accept sample_config (v1_normal (syn_datagram ?peer)) 0 = Some (Inr c0)"
    "poll_transmit 0 c0 = Some (Some wire, c1)" "conn_ok c1" "c_state c1 = SynReceived" "c_config c1 = sample_config"
    "conn_mtu c1 = Some 1232" "c_pending_transmits c1 = []" "c_congestion c1 = cc_new" "c_send_buffer c1 = []" "c_reliability c1 = rel_new"
    by (rule accept_syn_ack_sent [of sample_config "replicate 32 7" 0 ?peer]) (use cfg in auto)
  have op: "opened c0" using cfg(1) c1(1) by (auto simp: opened_def intro!: exI [of _ sample_config] exI [of _ 0])
  have match: "params_match c1"
    using conn_step_runs [of c0 "CallTransmit 0" c1] opened_fresh [OF op] c1(2) settled_params_match [of c0 c1]
    by (simp add: fresh_def)
  define c1' where "c1' = arm TimerIdle (instant_add 0 (cf_idle_timeout (c_config c1)))
    (c1\<lparr>c_stats := (c_stats c1)\<lparr>st_datagrams_in := u64_add (st_datagrams_in (c_stats c1)) 1\<rparr>\<rparr>)"
  obtain p where p: "c_params c1 = Some p" "np_mtu p = 1232" "np_log_window_size p = 10"
    using c1(5,6) cfg(3) match by (auto simp: conn_mtu_def params_match_def)
  obtain c2 where c2: "transition_to_established 0 c1' = Some c2" "c_state c2 = Established" "c_pending_transmits c2 = []"
    "c_send_buffer c2 = []" "c_params c2 = Some p" "c_congestion c2 = cc_new" "c_reliability c2 = rel_new"
    "c_send_window c2 = Some (sw_new INITIAL_DATA_SEQ 1 10)"
    using p c1(7-10) by (cases "c_side c1 = Server") (simp_all add: transition_to_established_def c1'_def Let_def)
  obtain e where dec: "decode decode_v1_datagram [] = Inl e" "e \<noteq> Panic"
    using dec_safe_decode [OF decode_v1_datagram_safe, of "[]"]
    by (cases "decode decode_v1_datagram []") (auto simp: decode_def decode_v1_datagram_def decode_fec_header_def codec_simps)
  have dg: "handle_datagram [] 0 c1 = Some (Inl (ErrPrefix (PayloadTooShort 0)), c2)"
    using c1(4) dec c2(1) [unfolded c1'_def]
    by (simp add: handle_datagram_def handle_final_ack_def unwind_safely Let_def handle_v2_packet_def
        decode_with_prefix_def MIN_WIRE_SIZE_def)
  have one: "div_ceil (length [7 :: u8]) (max_payload c2) = 1" "length [7 :: u8] \<le> max_payload c2"
    using max_payload_pos [of c2] div_ceil_short [of 1 "max_payload c2"] by simp_all
  have "send [7] c2 = (Inr (), c2\<lparr>c_send_buffer := [[7]]\<rparr>)"
    using c2(2,4) one by (simp add: send_def Let_def send_buffer_limit_def SEND_BUFFER_WINDOW_MULTIPLE_def)
  then show ?thesis
    using c1(2) dg c2 one p
    by (intro that [OF op, of "c2\<lparr>c_send_buffer := [[7]]\<rparr>"]) (simp_all add: accepted_by_def conn_mtu_def)
qed


text \<open>
  C6. Only a datagram of the peer makes the sender let go of data: any other call, a
  retransmission timeout included, leaves every chunk that was held or waiting held or
  waiting, and a datagram never adds any; so a chunk can only leave the sender by being
  acknowledged.
\<close>

theorem only_datagrams_release_data:
  assumes "opened c0" "list_all call_ok (calls @ [call])" "conn_run calls c0 = Some c" "conn_step call c = Some c'"
    "within_counters (calls @ [call]) c0"
  shows "(if \<exists>wire now. call = CallDatagram wire now then payloads (sender_view c') \<subseteq># payloads (sender_view c)
    else payloads (sender_view c') = payloads (sender_view c) + mset (accepted_of call c))"
proof -
  note app = accepted_snoc [OF assms(3,4)]
  have "list_all call_ok calls" "within_counters calls c0"
    using assms(2,5) app by (simp_all add: within_counters_def)
  from opened_accounts [OF assms(1) this(1) assms(3) this(2)] obtain acts k acked where
    acc: "accounts INITIAL_DATA_SEQ acts k acked (sender_view c)"
    "stream_of acts = accepted calls c0" "length (transmissions acts) \<le> length calls" "conn_ok c" "params_match c" .
  obtain bcts where b: "sender_run bcts (sender_view c) (sender_view c')" "permitted call bcts"
    "stream_of bcts = accepted_of call c" "length (transmissions bcts) \<le> 1"
    using conn_step_runs [OF acc(4,5) _ assms(4)] assms(2) by auto
  have "within_range INITIAL_DATA_SEQ (acts @ bcts)"
    using acc b assms(5) app by (simp add: within_range_def within_counters_def INITIAL_DATA_SEQ_def)
  from accounts_run [OF b(1) acc(1) this] obtain k' acked' where acc':
    "accounts INITIAL_DATA_SEQ (acts @ bcts) k' acked' (sender_view c')" "acked \<subseteq> acked'"
    "set bcts \<inter> range Acknowledged = {} \<longrightarrow> acked' = acked" by blast
  have sub: "acked \<subseteq> {..<length (stream_of acts)}" "acked' \<subseteq> {..<length (stream_of acts) + length (stream_of bcts)}"
    using acc(1) acc'(1) by (auto simp: accounts_def)
  show ?thesis
  proof (cases "\<exists>wire now. call = CallDatagram wire now")
    case True
    then have "stream_of bcts = []" using b(3) by auto
    then have "payloads (sender_view c') \<subseteq># payloads (sender_view c)"
      using accounts_payloads [OF acc(1)] accounts_payloads [OF acc'(1)] acc'(2)
      by (auto intro!: image_mset_subseteq_mono subset_imp_msubset_mset_set)
    with True show ?thesis by simp
  next
    case False
    then have "set bcts \<inter> range Acknowledged = {}" using b(2) by (cases call) auto
    then have "acked' = acked" using acc'(3) by simp
    then have "payloads (sender_view c') = payloads (sender_view c) + mset (accepted_of call c)"
      using accounts_payloads [OF acc(1)] accounts_payloads [OF acc'(1)] stream_payloads_append [OF sub(1)] b(3) by simp
    with False show ?thesis by simp
  qed
qed


theorem only_datagrams_release_data_witness:
  "\<exists>c0 c c'. opened c0 \<and> conn_run sample_calls c0 = Some c \<and> conn_step (CallTransmit 1) c = Some c' \<and>
     payloads (sender_view c') = payloads (sender_view c)"
proof -
  obtain c0 c where run: "opened c0" "conn_run sample_calls c0 = Some c" "accepted sample_calls c0 = [[7]]"
    by (rule sample_run)
  have "conn_ok c" using conn_run_runs [OF _ _ _ run(2)] opened_fresh [OF run(1)] by (auto simp: fresh_def)
  then obtain c' where c': "conn_step (CallTransmit 1) c = Some c'"
    using conn_step_next [of c "CallTransmit 1"] by (auto elim!: safelyE)
  have "within_counters (sample_calls @ [CallTransmit 1]) c0"
    unfolding within_counters_def accepted_snoc [OF run(2) c'] run(3) by simp
  with only_datagrams_release_data [OF run(1) _ run(2) c']
  have "payloads (sender_view c') = payloads (sender_view c)" by simp
  with run(1,2) c' show ?thesis by blast
qed

end
