(* ===== verification/Progress.thy ===== *)
theory Progress
  imports Data_Path
begin

text \<open>
  Two promises of an established connection: no packet it puts on the wire exceeds the
  negotiated MTU, whatever acknowledgement rides along, and data that has been sent and not
  acknowledged always has a retransmission timer running, whose expiry queues it again.
\<close>

section \<open>Sizes\<close>

text \<open>All payloads held are at most \<open>m\<close> bytes long; an idle sender holds none.\<close>

definition small :: "nat \<Rightarrow> sender \<Rightarrow> bool" where
  "small m s \<longleftrightarrow> list_all (\<lambda>data. length data \<le> m) (sd_buffer s) \<and>
     list_all (\<lambda>e. length (rt_data e) \<le> m) (rc_queue (sd_queue s)) \<and>
     list_all (\<lambda>(_, data). length data \<le> m) (sw_data_store (sd_window s))"

definition idle :: "sender \<Rightarrow> bool" where
  "idle s \<longleftrightarrow> sd_buffer s = [] \<and> rc_queue (sd_queue s) = [] \<and> sw_entries (sd_window s) = [] \<and>
     sw_data_store (sd_window s) = []"

lemma idle_small: "idle s \<Longrightarrow> small m s"
  by (simp add: idle_def small_def)

lemma advance_loop_store: "set (snd (advance_loop es store)) \<subseteq> set store"
  by (induction es store rule: advance_loop.induct) auto

lemma advance_window_store: "set (sw_data_store (advance_window w)) \<subseteq> set (sw_data_store w)"
  using advance_loop_store [of "sw_entries w" "sw_data_store w"]
  by (simp add: advance_window_def case_prod_beta Let_def)

lemma remove_first_data_subset: "set (remove_first_data d store) \<subseteq> set store"
  by (induction store) auto

lemma mark_received_store: "set (sw_data_store (snd (mark_received d w))) \<subseteq> set (sw_data_store w)"
proof (cases "\<exists>entry. find (\<lambda>e. se_data_seq e = d) (sw_entries w) = Some entry \<and> se_state entry = SendPending")
  case True
  then obtain v where "snd (mark_received d w) = advance_window v"
    "sw_data_store v = filter (\<lambda>(sq, _). sq \<noteq> d) (sw_data_store w)" by (auto simp: mark_received_def)
  with advance_window_store [of v] show ?thesis by auto
next
  case False
  then show ?thesis by (auto simp: mark_received_def split: option.splits)
qed

lemma mark_lost_store:
  assumes "mark_lost d w = (Some info, w')"
  shows "set (sw_data_store w') \<subseteq> set (sw_data_store w)" "lp_data info = [] \<or> (d, lp_data info) \<in> set (sw_data_store w)"
proof -
  have "\<exists>v. w' = advance_window v \<and> sw_data_store v = remove_first_data d (sw_data_store w)"
    "lp_data info = (case map_of (sw_data_store w) d of None \<Rightarrow> [] | Some bs \<Rightarrow> bs)"
    using assms by (auto simp: mark_lost_def Let_def split: option.splits if_splits)
  then show "set (sw_data_store w') \<subseteq> set (sw_data_store w)" "lp_data info = [] \<or> (d, lp_data info) \<in> set (sw_data_store w)"
    using advance_window_store remove_first_data_subset by (fastforce split: option.splits dest: map_of_SomeD)+
qed

lemma small_step:
  assumes "sender_step a s s'" "small m s" "list_all (\<lambda>data. length data \<le> m) (buffered_by a)"
  shows "small m s'"
  using assms
proof cases
  case (acknowledge d)
  with assms(2) mark_received_store [of d "sd_window s"] show ?thesis
    by (auto simp: small_def list_all_iff)
next
  case (give_up d info w)
  with assms(2) mark_lost_store [OF give_up(3)] show ?thesis
    by (auto simp: small_def list_all_iff rel_enqueue_def)
qed (auto simp: small_def sw_push_def push_retransmit_def set_peer_window_def Let_def split: if_splits)

lemma small_run:
  assumes "sender_run acts s s'" "small m s" "list_all (\<lambda>data. length data \<le> m) (stream_of acts)"
  shows "small m s'"
  using assms
proof (induction rule: sender_run.induct)
  case (one_more acts s s' a s'')
  then show ?case using small_step by simp
qed simp

lemma idle_step:
  assumes "sender_step a s s'" "idle s" "buffered_by a = []"
  shows "idle s'"
  using assms
proof cases
  case (give_up d info w)
  with assms(2) show ?thesis by (simp add: idle_def mark_lost_def)
qed (auto simp: idle_def mark_received_def set_peer_window_def)

lemma idle_run:
  assumes "sender_run acts s s'" "idle s" "stream_of acts = []"
  shows "idle s'"
  using assms
proof (induction rule: sender_run.induct)
  case (one_more acts s s' a s'')
  then show ?case using idle_step by simp
qed simp

section \<open>Every packet fits the MTU\<close>

lemma accepted_of_small: "list_all (\<lambda>data. length data \<le> max_payload c) (accepted_of call c)"
proof (cases call)
  case (CallSend data)
  have "list_all (\<lambda>chunk. length chunk \<le> max_payload c) (chunks (max_payload c) data)"
    using chunks_laws [OF max_payload_pos [of c], of data] by (auto simp: list_all_iff)
  with CallSend show ?thesis by (simp add: accepted_by_def split: sum.splits)
qed simp_all

lemma accepted_only_established: "c_state c \<noteq> Established \<Longrightarrow> accepted_of call c = []"
  by (cases call; cases "c_state c") (simp_all add: accepted_by_def send_def)

definition sizes_ok :: "connection \<Rightarrow> bool" where
  "sizes_ok c \<longleftrightarrow> conn_ok c \<and> params_match c \<and> small (max_payload c) (sender_view c) \<and>
     (c_state c = SynSent \<or> c_state c = SynReceived \<longrightarrow> idle (sender_view c))"

lemma initial_idle: "idle (initial_view lws)"
  by (simp add: idle_def sw_new_def rel_new_def)

lemma fresh_sizes:
  assumes "fresh c"
  shows "sizes_ok c"
proof -
  have "idle (sender_view c)" using assms initial_idle unfolding fresh_def by simp
  with idle_small [OF this] assms show ?thesis unfolding sizes_ok_def fresh_def by simp
qed

lemma conn_step_sizes:
  assumes "sizes_ok c" "call_ok call" "conn_step call c = Some c'"
  shows "sizes_ok c'"
proof -
  have c: "conn_ok c" "params_match c" "small (max_payload c) (sender_view c)" using assms(1) by (simp_all add: sizes_ok_def)
  obtain acts where acts: "sender_run acts (sender_view c) (sender_view c')" "stream_of acts = accepted_of call c"
    and set: "settled c c'" using conn_step_runs [OF c(1,2) assms(2,3)] by blast
  have ok: "conn_ok c'" "lifecycle (c_state c) (c_state c')"
    using conn_step_next [OF c(1) assms(2)] assms(3) by simp_all
  have small: "small (max_payload c) (sender_view c')"
    using small_run [OF acts(1) c(3)] accepted_of_small [of c call] acts(2) by simp
  have idle: "idle (sender_view c')" if "c_state c = SynSent \<or> c_state c = SynReceived"
  proof -
    have "idle (sender_view c)" using assms(1) that by (simp add: sizes_ok_def)
    moreover have "stream_of acts = []" using accepted_only_established [of c call] acts(2) that by auto
    ultimately show ?thesis by (rule idle_run [OF acts(1)])
  qed
  have "c_state c = SynSent \<or> c_state c = SynReceived" if "c_state c' = SynSent \<or> c_state c' = SynReceived"
    using ok(2) that by (auto elim: lifecycle.cases)
  moreover have "small (max_payload c') (sender_view c')"
  proof (cases "c_params c' = c_params c")
    case True
    then have "max_payload c' = max_payload c" by (simp add: max_payload_def)
    with small show ?thesis by simp
  next
    case False
    with set have "c_state c = SynSent" by (simp add: settled_def)
    with idle show ?thesis by (simp add: idle_small)
  qed
  ultimately show ?thesis
    using ok(1) idle settled_params_match [OF set c(2)] by (simp add: sizes_ok_def)
qed

lemma reachable_sizes: "reachable c \<Longrightarrow> sizes_ok c"
proof (induction rule: reachable.induct)
  case (client config now c)
  then show ?case by (blast intro: fresh_sizes connect_fresh)
next
  case (server config now syn c)
  then show ?case by (blast intro: fresh_sizes accept_fresh)
next
  case (call c call c')
  then show ?case using conn_step_sizes by simp
qed

lemma acknowledgement_size:
  assumes "build_acknowledgement now c = Some an"
  shows "size_opt ack_payload_size (an_ack an) + size_opt ack_vector_size (an_ack_vector an) \<le> 134"
  using assms split_runs_ok [of "[]"]
  by (auto simp: build_acknowledgement_def build_ack_payload_def build_ack_vector_payload_def size_opt_def
      ack_payload_size_def ack_vector_size_def split: option.splits if_splits)

lemma assembled_size:
  assumes "\<And>a. an = Some a \<Longrightarrow> build_acknowledgement now c = Some a"
  shows "v2_packet_size (assemble_packet lws flags an aoa payload) \<le>
    138 + (case payload of None \<Rightarrow> 0 | Some (_, _, data) \<Rightarrow> 4 + length data)"
proof -
  have "size_opt ack_payload_size (Option.bind an an_ack) + size_opt ack_vector_size (Option.bind an an_ack_vector) \<le> 134"
    using assms acknowledgement_size by (cases an) (auto simp: size_opt_def)
  then show ?thesis
    by (simp add: v2_packet_size_def assemble_packet_def Let_def v2_header_size_def size_opt_def ack_of_acks_size_def
        data_header_size_def data_body_size_def split: option.splits prod.splits)
qed

lemma data_packet_size: "v2_packet_size (data_packet lws d ch data now c) \<le> 142 + length data"
  using assembled_size [of "if c_ack_pending c then build_acknowledgement now c else None" now c lws V2_DATA
      "c_pending_ack_of_acks c" "Some (d, ch, data)"]
  by (cases "c_ack_pending c") (simp_all add: data_packet_def)

lemma max_payload_fits:
  assumes "conn_mtu c = Some m" "144 \<le> unat m"
  shows "max_payload c + 143 = min (unat m) 1232"
proof -
  have "max_payload c = max (min (unat m) 1232 - 143) 1"
    using assms(1)
    by (auto simp: max_payload_def conn_mtu_def RDPEUDP2_MTU_def DATA_PACKET_OVERHEAD_def PIGGYBACK_RESERVE_def
        saturating_sub_def)
  with assms(2) show ?thesis by linarith
qed



lemma run_reachable:
  assumes "reachable c0" "list_all call_ok calls" "conn_run calls c0 = Some c"
  shows "reachable c"
  using assms
proof (induction calls arbitrary: c0)
  case (Cons call calls)
  then obtain x where "conn_step call c0 = Some x" "conn_run calls x = Some c" by (auto simp: bind_eq_Some_conv)
  with Cons.IH [of x] Cons.prems reachable.call [of c0 call x] show ?case by simp
qed simp

lemma opened_reachable: "opened c0 \<Longrightarrow> reachable c0"
  by (auto simp: opened_def intro: reachable.client reachable.server)



section \<open>Unacknowledged data has a timer\<close>

definition unresolved :: "connection \<Rightarrow> bool" where
  "unresolved c \<longleftrightarrow> (case c_send_window c of None \<Rightarrow> False
     | Some w \<Rightarrow> pending_entries w \<noteq> [] \<or> rel_has_pending (c_reliability c))"

definition armed :: "connection \<Rightarrow> bool" where
  "armed c \<longleftrightarrow> (c_state c = Established \<and> unresolved c \<longrightarrow> tt_get TimerRetransmit (c_timers c) \<noteq> None)"

text \<open>\<open>armed\<close> looks at nothing but the state, the window, the queue and one timer.\<close>

lemma armed_cong:
  assumes "c_state c' = c_state c" "c_send_window c' = c_send_window c" "c_reliability c' = c_reliability c"
    "tt_get TimerRetransmit (c_timers c') = tt_get TimerRetransmit (c_timers c)"
  shows "armed c' = armed c"
  unfolding armed_def unresolved_def assms ..

lemma not_established_armed: "c_state c \<noteq> Established \<Longrightarrow> armed c"
  by (simp add: armed_def)

lemma update_armed:
  assumes "tt_ok (c_timers c)"
  shows "armed (update_retransmit_timer now c)"
  using assms
  by (auto simp: armed_def unresolved_def update_retransmit_timer_def Let_def timer_laws tt_is_set_get split: option.splits)

lemma retire_armed: "armed (retire_ack_of_acks d c) = armed c"
  by (rule armed_cong) (simp_all add: retire_ack_of_acks_def)

lemma after_ack_armed:
  assumes "parts_ok c" "after_ack n now c = Some c'"
  shows "armed c'"
proof -
  define grown where "grown = (if n > 0 then c\<lparr>c_congestion := on_ack n (c_congestion c)\<rparr> else c)"
  define found where "found = run_loss_detection now grown"
  have "parts_ok grown" using assms(1) by (simp add: grown_def parts_ok_def)
  then have ok: "tt_ok (c_timers found)"
    using keeps_parts [OF run_loss_detection_keeps] by (simp add: found_def parts_ok_def)
  have eq: "Option.bind (if n > 0 then Option.bind (reset_backoff (c_rtt (disarm TimerRetransmit found)))
      (\<lambda>rtt. Some ((disarm TimerRetransmit found)\<lparr>c_rtt := rtt\<rparr>)) else Some found)
      (\<lambda>c. Some (update_retransmit_timer now c)) = Some c'"
    using assms(2) unfolding after_ack_def Let_def found_def grown_def .
  show ?thesis
  proof (cases "n > 0")
    case True
    with eq obtain rtt where c': "c' = update_retransmit_timer now ((disarm TimerRetransmit found)\<lparr>c_rtt := rtt\<rparr>)"
      by (cases "reset_backoff (c_rtt (disarm TimerRetransmit found))") auto
    show ?thesis unfolding c' by (rule update_armed) (simp add: ok timer_laws)
  next
    case False
    with eq ok show ?thesis by (auto intro: update_armed)
  qed
qed

lemma ack_chain_armed:
  assumes "parts_ok c" "\<And>e. elapsed = Some e \<Longrightarrow> e < SAMPLE_LIMIT"
    "Option.bind (sample_rtt elapsed gap c) (\<lambda>c. Option.bind (after_ack n now c) (\<lambda>c. Some (retire_ack_of_acks s c))) = Some c'"
  shows "armed c'"
proof -
  obtain x y where "sample_rtt elapsed gap c = Some x" "after_ack n now x = Some y" "c' = retire_ack_of_acks s y"
    using assms(3) by (auto simp: bind_eq_Some_conv)
  moreover have "safely (keeps c) (sample_rtt elapsed gap c)" by (rule sample_rtt_keeps [OF assms(1,2)])
  ultimately show ?thesis
    using after_ack_armed [of x n now y] by (simp add: retire_armed keeps_parts)
qed

lemma process_ack_armed:
  assumes "parts_ok c" "now < 2 ^ 64" "armed c" "process_ack ack now c = Some c'"
  shows "armed c'"
proof (cases "c_send_window c")
  case None
  with assms show ?thesis by (simp add: process_ack_def)
next
  case (Some w)
  define d where "d = c\<lparr>c_remote_timestamp_ref := reconstruct_timestamp (received_ts ack) (c_remote_timestamp_ref c)\<rparr>"
  define a where "a = reconstruct_seq (seq_num ack) (saturating_sub (sw_next_data_seq w) 1)"
  have d: "armed d" "parts_ok (d\<lparr>c_send_window := Some v\<rparr>)" for v
    using assms(1,3) armed_cong [of d c] by (simp_all add: d_def parts_ok_def)
  show ?thesis
  proof (cases "a \<ge> sw_next_data_seq w")
    case True
    with assms(4) Some d show ?thesis by (simp add: process_ack_def Let_def d_def a_def)
  next
    case False
    obtain n v where nv: "mark_received_through a w = (n, v)" by fastforce
    have chain: "Option.bind (sample_rtt (timing_of a now w) (Some (send_ack_time_gap ack)) (d\<lparr>c_send_window := Some v\<rparr>))
      (\<lambda>c. Option.bind (after_ack n now c) (\<lambda>c. Some (retire_ack_of_acks a c))) = Some c'"
      using assms(4) Some False nv unfolding process_ack_def Let_def d_def a_def by simp
    show ?thesis by (rule ack_chain_armed [OF d(2) _ chain]) (rule timing_of_limit [OF _ assms(2)])
  qed
qed

lemma process_ack_vector_armed:
  assumes "parts_ok c" "now < 2 ^ 64" "armed c" "process_ack_vector vec now c = Some c'"
  shows "armed c'"
proof (cases "c_send_window c")
  case None
  with assms show ?thesis by (simp add: process_ack_vector_def)
next
  case (Some w)
  let ?base = "reconstruct_seq (base_seq_num vec) (saturating_sub (sw_next_data_seq w) 1)"
  let ?t = "fold (ack_position now) (concat (map entry_positions (entries vec))) (?base, 0, None, w)"
  obtain cur n elapsed v where walk: "?t = (cur, n, elapsed, v)" by (metis prod_cases4)
  have "pred_option (\<lambda>e. e < SAMPLE_LIMIT) (fst (snd (snd ?t)))"
    by (rule ack_positions_limit [OF assms(2)]) simp
  then have limit: "e < SAMPLE_LIMIT" if "elapsed = Some e" for e
    using that unfolding walk by simp
  have ok: "parts_ok (c\<lparr>c_send_window := Some v\<rparr>)" using assms(1) by (simp add: parts_ok_def)
  have chain: "Option.bind (sample_rtt elapsed (send_ack_time_gap_ms vec) (c\<lparr>c_send_window := Some v\<rparr>))
    (\<lambda>c. Option.bind (after_ack n now c) (\<lambda>c. Some (retire_ack_of_acks ?base c))) = Some c'"
    using assms(4) Some walk by (simp add: process_ack_vector_def Let_def)
  show ?thesis by (rule ack_chain_armed [OF ok _ chain]) (rule limit)
qed

lemma schedule_ack_armed: "parts_ok c \<Longrightarrow> armed (schedule_ack now c) = armed c"
  by (rule armed_cong) (simp_all add: schedule_ack_def Let_def parts_ok_def timer_laws)

lemma receive_armed:
  assumes "parts_ok c"
  shows "armed (process_ack_of_acks aoa c) = armed c" "armed (process_dummy_data dh now c) = armed c"
    "armed (process_data dh db now c) = armed c"
proof -
  have same: "armed (c\<lparr>c_recv_window := rw\<rparr>) = armed c" "armed (c\<lparr>c_recv_window := rw, c_pending_events := es\<rparr>) = armed c" for rw es
    by (rule armed_cong; simp)+
  have sched: "armed (schedule_ack now (c\<lparr>c_recv_window := rw\<rparr>)) = armed c"
    "armed (schedule_ack now (c\<lparr>c_recv_window := rw, c_pending_events := es\<rparr>)) = armed c" for rw es
    using schedule_ack_armed [of "c\<lparr>c_recv_window := rw\<rparr>" now]
      schedule_ack_armed [of "c\<lparr>c_recv_window := rw, c_pending_events := es\<rparr>" now] assms
    by (simp_all add: same parts_ok_def)
  show "armed (process_ack_of_acks aoa c) = armed c"
    by (cases "c_recv_window c") (simp_all add: process_ack_of_acks_def Let_def same)
  show "armed (process_dummy_data dh now c) = armed c"
    by (cases "c_recv_window c") (simp_all add: process_dummy_data_def Let_def same sched split: prod.splits)
  show "armed (process_data dh db now c) = armed c"
    by (cases "c_recv_window c") (simp_all add: process_data_def Let_def same sched split: prod.splits)
qed


lemma handle_v2_packet_armed:
  assumes "parts_ok c" "now < 2 ^ 64" "armed c" "handle_v2_packet wire now c = Some (r, c')"
  shows "armed c'"
proof (cases "decode_with_prefix wire")
  case (Inl e)
  with assms show ?thesis by (simp add: handle_v2_packet_def)
next
  case (Inr frame)
  obtain prefix body where frame: "frame = (prefix, body)" by fastforce
  show ?thesis
  proof (cases "decode decode_v2_packet body")
    case (Inl e)
    with assms Inr frame have "c' = c" by (auto simp: handle_v2_packet_def unwind_def split: codec_error.splits if_splits)
    with assms show ?thesis by simp
  next
    case p: (Inr p)
    define d where "d = c\<lparr>c_send_window := map_option (set_peer_window (log_window_size (v2_hdr p))) (c_send_window c)\<rparr>"
    have "pending_entries (set_peer_window l w) = pending_entries w" for l w
      by (simp add: pending_entries_def set_peer_window_def)
    then have d: "armed d" "parts_ok d"
      using assms(1,3) by (auto simp: d_def armed_def unresolved_def parts_ok_def split: option.splits)
    obtain x y where xy: "(case v2_ack p of None \<Rightarrow> Some d | Some ack \<Rightarrow> process_ack ack now d) = Some x"
      "(case v2_ack_vector p of None \<Rightarrow> Some x | Some vec \<Rightarrow> process_ack_vector vec now x) = Some y"
      "c' = (let c = (case v2_ack_of_acks p of None \<Rightarrow> y | Some aoa \<Rightarrow> process_ack_of_acks aoa y)
        in case (v2_data_header p, v2_data_body p) of
             (Some dh, Some db) \<Rightarrow> if is_dummy prefix then process_dummy_data dh now c else process_data dh db now c
           | _ \<Rightarrow> c)"
      using assms(4) Inr p unfolding handle_v2_packet_def d_def
      by (auto simp: frame unwind_decode decode_v2_packet_safe Let_def bind_eq_Some_conv)
    have x: "armed x" "parts_ok x"
      using xy(1) d process_ack_armed [OF d(2) assms(2) d(1)] process_ack_keeps [OF d(2) assms(2)]
      by (auto simp: keeps_parts split: option.splits) (metis keeps_parts safely_Some)
    have y: "armed y" "parts_ok y"
      using xy(2) x process_ack_vector_armed [OF x(2) assms(2) x(1)] process_ack_vector_keeps [OF x(2) assms(2)]
      by (auto simp: keeps_parts split: option.splits) (metis keeps_parts safely_Some)
    have z: "armed (case v2_ack_of_acks p of None \<Rightarrow> y | Some aoa \<Rightarrow> process_ack_of_acks aoa y)"
      "parts_ok (case v2_ack_of_acks p of None \<Rightarrow> y | Some aoa \<Rightarrow> process_ack_of_acks aoa y)"
      using y receive_armed(1) [OF y(2)] keeps_parts [OF process_ack_of_acks_keeps [OF y(2)]] by (auto split: option.splits)
    show ?thesis
      unfolding xy(3) Let_def using z receive_armed(2,3) [OF z(2)] by (auto split: option.splits)
  qed
qed


lemma transition_armed:
  assumes "transition_to_established now c = Some c'" "rc_queue (c_reliability c) = []"
  shows "armed c'"
proof -
  obtain w where "c_send_window c' = Some w" "sw_entries w = []" "c_reliability c' = c_reliability c"
    using assms(1) by (auto simp: transition_to_established_def Let_def bind_eq_Some_conv sw_new_def split: if_splits)
  with assms(2) show ?thesis
    by (simp add: armed_def unresolved_def pending_entries_def rel_has_pending_def)
qed

lemma handle_datagram_armed:
  assumes ok: "conn_ok c" "now < 2 ^ 64" "armed c"
    and idle: "c_state c = SynSent \<or> c_state c = SynReceived \<Longrightarrow> rc_queue (c_reliability c) = []"
    and call: "handle_datagram wire now c = Some (r, c')"
  shows "armed c'"
proof -
  define c1 where "c1 = c\<lparr>c_stats := (c_stats c)\<lparr>st_datagrams_in := u64_add (st_datagrams_in (c_stats c)) 1\<rparr>\<rparr>"
  define c2 where "c2 = arm TimerIdle (instant_add now (cf_idle_timeout (c_config c1))) c1"
  have parts: "parts_ok c" "parts_ok c2" using ok(1) by (simp_all add: conn_ok_def base_ok_def c2_def c1_def parts_ok_def timer_laws)
  have c2: "armed c2" "c_reliability c2 = c_reliability c" "c_state c2 = c_state c"
    using ok(3) parts(1) armed_cong [of c2 c] by (simp_all add: c2_def c1_def parts_ok_def timer_laws)
  have resend: "armed (resend_handshake_datagram c2)"
    using c2(1) armed_cong [of "resend_handshake_datagram c2" c2]
    by (simp add: resend_handshake_datagram_def split: option.splits)
  have rtt: "c_reliability y = c_reliability x" if "sample_handshake_rtt now x = Some y" for x y
    using that by (auto simp: sample_handshake_rtt_def bind_eq_Some_conv split: if_splits option.splits)
  have fin: "c_reliability y = c_reliability x" if "enqueue_final_ack isn x = Some y" for x y isn
    using that by (auto simp: enqueue_final_ack_def enqueue_handshake_valid [OF final_ack_valid])
  show ?thesis
  proof (cases "c_state c")
    case SynSent
    then have "handle_syn_ack wire now c2 = Some (r, c')"
      using call by (simp add: handle_datagram_def c2_def c1_def Let_def)
    moreover have "armed c'" if "sample_handshake_rtt now (negotiate peer c2) = Some x" "enqueue_final_ack isn x = Some y"
      "transition_to_established now y = Some c'" for peer isn x y
      using transition_armed [OF that(3)] rtt [OF that(1)] fin [OF that(2)] c2(2) idle SynSent by (simp add: negotiate_def)
    ultimately show ?thesis
      using c2(1) by (auto simp: handle_syn_ack_def unwind_decode decode_v1_datagram_safe bind_eq_Some_conv
        split: sum.splits option.splits if_splits)
  next
    case SynReceived
    then obtain h x where h: "handle_final_ack wire now c2 = Some (h, x)"
      "if h then c' = x else \<exists>y. transition_to_established now x = Some y \<and> handle_v2_packet wire now y = Some (r, c')"
      using call by (auto simp: handle_datagram_def c2_def c1_def Let_def bind_eq_Some_conv split: if_splits)
    have final: "armed x" "\<not> h \<Longrightarrow> x = c2"
    proof -
      have "armed x" if "sample_handshake_rtt now c2 = Some y" "transition_to_established now y = Some x" for y
        using transition_armed [OF that(2)] rtt [OF that(1)] c2(2) idle SynReceived by simp
      with h(1) c2(1) resend show "armed x" "\<not> h \<Longrightarrow> x = c2"
        by (auto simp: handle_final_ack_def unwind_decode decode_v1_datagram_safe bind_eq_Some_conv
            split: sum.splits if_splits)
    qed
    show ?thesis
    proof (cases h)
      case True
      with h(2) final show ?thesis by simp
    next
      case False
      then obtain y where y: "transition_to_established now c2 = Some y" "handle_v2_packet wire now y = Some (r, c')"
        using h(2) final(2) by auto
      have "armed y" using transition_armed [OF y(1)] c2(2) idle SynReceived by simp
      moreover have "parts_ok y"
        using y(1) parts(2) by (auto simp: transition_to_established_def Let_def bind_eq_Some_conv parts_ok_def timer_laws split: if_splits)
      ultimately show ?thesis using handle_v2_packet_armed [OF _ ok(2) _ y(2)] by simp
    qed
  next
    case Established
    then have "c' = resend_handshake_datagram c2 \<or> handle_v2_packet wire now c2 = Some (r, c')"
      using call by (auto simp: handle_datagram_def c2_def c1_def Let_def bind_eq_Some_conv split: if_splits)
    with resend handle_v2_packet_armed [OF parts(2) ok(2) c2(1)] show ?thesis by auto
  next
    case Closed
    with call have "c' = c1" by (simp add: handle_datagram_def c1_def Let_def)
    with Closed show ?thesis by (simp add: armed_def c1_def)
  qed
qed


lemma handle_timer_armed:
  assumes "conn_ok c" "c_state c \<noteq> Closed" "armed c" "handle_timer now t c = Some c'"
  shows "armed c'"
proof -
  have ok: "parts_ok c" using assms(1) by (simp add: conn_ok_def base_ok_def)
  show ?thesis
  proof (cases t)
    case TimerRetransmit
    define c1 where "c1 = (disarm TimerRetransmit c)\<lparr>c_stats := (c_stats c)\<lparr>st_retransmit_timeouts :=
      u64_add (st_retransmit_timeouts (c_stats c)) 1\<rparr>\<rparr>"
    have c1: "parts_ok c1" "c_state c1 = c_state c" using ok by (simp_all add: c1_def parts_ok_def timer_laws)
    have call: "handle_retransmit_timeout now c = Some c'" using assms(4) by (simp add: TimerRetransmit)
    show ?thesis
    proof (cases "c_state c = Established")
      case True
      with call obtain rtt where c': "c' = update_retransmit_timer now ((declare_overdue_lost now c1)\<lparr>c_rtt := rtt\<rparr>)"
        by (auto simp: handle_retransmit_timeout_def Let_def c1_def bind_eq_Some_conv)
      have "tt_ok (c_timers (declare_overdue_lost now c1))"
        using keeps_parts [OF declare_overdue_lost_keeps [OF c1(1)]] by (simp add: parts_ok_def)
      then show ?thesis unfolding c' by (intro update_armed) simp
    next
      case False
      with call obtain rtt where c': "c' = retransmit_handshake now (c1\<lparr>c_rtt := rtt\<rparr>)"
        by (auto simp: handle_retransmit_timeout_def Let_def c1_def bind_eq_Some_conv)
      have "c_state c' \<noteq> Established"
        using c1(2) False by (simp add: c' retransmit_handshake_def close_def resend_handshake_datagram_def Let_def split: option.splits)
      then show ?thesis by (rule not_established_armed)
    qed
  next
    case TimerAckDelay
    with assms(3,4) ok show ?thesis
      by (auto simp: handle_ack_delay_timeout_def parts_ok_def timer_laws armed_def unresolved_def split: option.splits)
  next
    case TimerIdle
    with assms(2,4) have "c_state c' = Closed" by (auto simp: handle_idle_timeout_def close_def)
    then show ?thesis by (simp add: armed_def)
  next
    case TimerKeepAlive
    with assms(3,4) ok show ?thesis
      by (auto simp: handle_keep_alive_timeout_def Let_def parts_ok_def timer_laws armed_def unresolved_def split: option.splits)
  qed
qed

lemma handle_timers_armed:
  assumes "conn_ok c" "armed c" "handle_timers now ts c = Some c'"
  shows "armed c'"
  using assms
proof (induction ts arbitrary: c)
  case (Cons t ts)
  show ?case
  proof (cases "c_state c = Closed")
    case False
    then obtain x where x: "handle_timer now t c = Some x" "handle_timers now ts x = Some c'"
      using Cons.prems(3) by (auto simp: bind_eq_Some_conv)
    have "conn_ok x" using handle_timer_next [OF Cons.prems(1) False, of now t] x(1) by simp
    from Cons.IH [OF this handle_timer_armed [OF Cons.prems(1) False Cons.prems(2) x(1)] x(2)] show ?thesis .
  qed (use Cons.prems in simp)
qed simp

lemma standalone_ack_frame:
  assumes "conn_ok c" "c_state c = Established" "build_standalone_ack now c = Some (t, x)"
  shows "c_state x = c_state c \<and> c_send_window x = c_send_window c \<and> c_reliability x = c_reliability c \<and> c_timers x = c_timers c"
proof -
  obtain params an where pa: "c_params c = Some params" "build_acknowledgement now c = Some an"
    "np_log_window_size params \<le> LOG_WINDOW_SIZE_MAX"
    using assms(1,2) by (auto simp: conn_ok_def base_ok_def parts_ok_def build_acknowledgement_def)
  let ?p = "assemble_packet (np_log_window_size params) 0 (Some an) (c_pending_ack_of_acks c) None"
  have "v2_packet_valid ?p" by (rule assemble_packet_valid) (use pa in auto)
  then obtain w where "frame_v2_packet ?p c = Some (Some w, c\<lparr>c_wire_buf := w\<rparr>)" by (rule frame_v2_packet_ok)
  with assms(3) pa show ?thesis by (auto simp: build_standalone_ack_def Let_def commit_acknowledgement_def)
qed

lemma armed_stats: "armed (c\<lparr>c_stats := s\<rparr>) = armed c"
  by (rule armed_cong) simp_all

lemma rearm_armed: "tt_ok (c_timers c) \<Longrightarrow> armed (rearm_keep_alive now c) = armed c"
  by (rule armed_cong) (simp_all add: rearm_keep_alive_def timer_laws)

lemma poll_transmit_armed:
  assumes ok: "conn_ok c" "armed c" and call: "poll_transmit now c = Some (t, c')"
  shows "armed c'"
proof -
  have parts: "parts_ok c" "tt_ok (c_timers c)" using ok(1) by (simp_all add: conn_ok_def base_ok_def parts_ok_def)
  show ?thesis
  proof (cases "c_state c = Established \<and> c_pending_transmits c = []")
    case False
    obtain u x where inner: "poll_transmit_inner now c = Some (u, x)"
      using call by (cases "poll_transmit_inner now c") (auto simp: poll_transmit_def)
    have "armed x"
      using inner False ok(2) parts(2) armed_cong [of "rearm_keep_alive now (c\<lparr>c_pending_transmits := ts\<rparr>)" c for ts]
      by (auto simp: poll_transmit_inner_def rearm_keep_alive_def timer_laws split: list.splits if_splits)
    with inner call show ?thesis by (auto simp: poll_transmit_def armed_stats)
  next
    case True
    then have est: "c_state c = Established" "c_pending_transmits c = []" by simp_all
    then obtain params where params: "c_params c = Some params" using ok(1) by (auto simp: conn_ok_def)
    have tt: "tt_ok (c_timers (sent d b wire))" if "tt_ok (c_timers d)" for d b wire
      using that by (simp add: sent_def commit_acknowledgement_def timer_laws)
    have set: "armed (arm TimerRetransmit i d)" if "tt_ok (c_timers d)" for d i
      using that by (simp add: armed_def timer_laws)
    from ok(1) est call show ?thesis
    proof (cases rule: poll_transmit_sources)
      case (resent wire x s)
      from parts(1) params have "armed x \<and> tt_ok (c_timers x)"
      proof (cases rule: try_retransmit_cases [where now = now])
        case blocked
        with resent show ?thesis by simp
      next
        case found: (resent v e es d v' w' s')
        define y where "y = (sent (c\<lparr>c_reliability := (c_reliability c)\<lparr>rc_queue := es\<rparr>, c_send_window := Some v'\<rparr>)
          (c_ack_pending c \<and> c_recv_window c \<noteq> None) w')\<lparr>c_stats := s'\<rparr>"
        have y: "tt_ok (c_timers y)" using parts(2) tt by (simp add: y_def)
        have "x = arm TimerRetransmit (instant_add now (re_rto (c_rtt c))) y"
          using trans [OF resent(2) [symmetric] found(4)] unfolding y_def by auto
        with y set [OF y] show ?thesis by (simp add: timer_laws)
      qed
      with resent show ?thesis by (simp add: armed_stats rearm_armed)
    next
      case (sent_new wire x s)
      from parts(1) params have "armed x \<and> tt_ok (c_timers x)"
      proof (cases rule: try_send_new_data_cases [where now = now])
        case blocked
        with sent_new show ?thesis by simp
      next
        case found: (sent_new v data rest d ch v' w' s')
        define y where "y = (sent (c\<lparr>c_send_buffer := rest, c_send_window := Some v'\<rparr>)
          (c_ack_pending c \<and> c_recv_window c \<noteq> None) w')\<lparr>c_stats := s'\<rparr>"
        have y: "tt_ok (c_timers y)" using parts(2) tt by (simp add: y_def)
        have "x = (if tt_is_set TimerRetransmit (c_timers y) then y
            else arm TimerRetransmit (instant_add now (re_rto (c_rtt c))) y)"
          using trans [OF sent_new(2) [symmetric] found(4)] unfolding y_def Let_def by auto
        with y set [OF y] show ?thesis by (auto simp: timer_laws armed_def tt_is_set_get)
      qed
      with sent_new show ?thesis by (simp add: armed_stats rearm_armed)
    next
      case (acked wire x s)
      note f = standalone_ack_frame [OF ok(1) est(1) acked(2)]
      have "armed (disarm TimerAckDelay (x\<lparr>c_ack_pending := False\<rparr>)) = armed c"
        by (rule armed_cong) (use f parts(2) in \<open>simp_all add: timer_laws\<close>)
      moreover have "tt_ok (c_timers (disarm TimerAckDelay (x\<lparr>c_ack_pending := False\<rparr>)))"
        using f parts(2) by (simp add: timer_laws)
      ultimately show ?thesis using acked ok(2) by (simp add: armed_stats rearm_armed)
    next
      case quiet
      have "armed c' = armed c" if "build_standalone_ack now c = Some (None, c')"
        using standalone_ack_frame [OF ok(1) est(1) that] by (intro armed_cong) simp_all
      with quiet ok(2) show ?thesis by auto
    qed
  qed
qed

lemma reachable_armed: "reachable c \<Longrightarrow> armed c"
proof (induction rule: reachable.induct)
  case (client config now c)
  then have "fresh c" by (blast intro: connect_fresh)
  then show ?case by (simp add: fresh_def armed_def)
next
  case (server config now syn c)
  then have "fresh c" by (blast intro: accept_fresh)
  then show ?case by (simp add: fresh_def armed_def)
next
  case (call c call c')
  have ok: "conn_ok c" "sizes_ok c" using call.hyps(1) reachable_ok reachable_sizes by blast+
  have idle: "rc_queue (c_reliability c) = []" if "c_state c = SynSent \<or> c_state c = SynReceived"
    using ok(2) that by (simp add: sizes_ok_def idle_def sender_view_def)
  show ?case
  proof (cases call)
    case (CallSend data)
    then have "c' = c\<lparr>c_send_buffer := c_send_buffer c @ accepted_by data c\<rparr>" using call.hyps(3) by (simp add: send_appends)
    with call.IH show ?thesis using armed_cong [of c' c] by simp
  next
    case (CallDatagram wire now)
    with call.hyps obtain r where "handle_datagram wire now c = Some (r, c')" by auto
    with handle_datagram_armed [OF ok(1) _ call.IH idle] call.hyps(2) CallDatagram show ?thesis by simp
  next
    case (CallTransmit now)
    with call.hyps obtain t where "poll_transmit now c = Some (t, c')" by auto
    with poll_transmit_armed [OF ok(1) call.IH] show ?thesis by simp
  next
    case (CallTimeout now)
    have step: "handle_timeout now c = Some c'" using call.hyps(3) by (simp add: CallTimeout)
    show ?thesis
    proof (cases "c_state c = Closed")
      case True
      with step call.IH show ?thesis by (simp add: handle_timeout_def)
    next
      case False
      with step have "handle_timers now (expired now (c_timers c)) c = Some c'" by (simp add: handle_timeout_def)
      with handle_timers_armed [OF ok(1) call.IH] show ?thesis by simp
    qed
  next
    case CallEvent
    with call.hyps(3) call.IH show ?thesis
      using armed_cong [of c' c] by (auto simp: poll_event_def split: list.splits)
  next
    case CallClose
    with call.hyps(3) have "c_state c' = Closed" by (auto simp: close_def)
    then show ?thesis by (simp add: armed_def)
  qed
qed


text \<open>
  C7. Nothing that was sent is forgotten: whenever an established connection has a packet
  in flight or queued for retransmission, its retransmission timer is running, and the
  driver is asked to wake the connection no later than that timer.
\<close>

theorem unresolved_data_has_timer:
  assumes "reachable c" "c_state c = Established" "unresolved c"
  shows "\<exists>t d. tt_get TimerRetransmit (c_timers c) = Some t \<and> poll_timeout c = Some d \<and> d \<le> t"
proof -
  obtain t where t: "tt_get TimerRetransmit (c_timers c) = Some t"
    using reachable_armed [OF assms(1)] assms(2,3) by (auto simp: armed_def)
  have ok: "tt_ok (c_timers c)"
    using reachable_ok [OF assms(1)] by (simp add: conn_ok_def base_ok_def parts_ok_def)
  obtain d where d: "next_deadline (c_timers c) = Some d"
    using t next_deadline_None_iff [OF ok] by (cases "next_deadline (c_timers c)") auto
  with t next_deadline_Some_iff [OF ok, of d] show ?thesis by (auto simp: poll_timeout_def)
qed

text \<open>The sample connection with its byte in flight.\<close>

lemma sample_in_flight:
  obtains c0 c where "opened c0" "conn_run (sample_calls @ [CallTransmit 1]) c0 = Some c"
    "accepted (sample_calls @ [CallTransmit 1]) c0 = [[7]]" "c_state c = Established" "unresolved c"
proof -
  obtain c0 x where x: "opened c0" "conn_run sample_calls c0 = Some x" "accepted sample_calls c0 = [[7]]"
    "c_state x = Established" "c_pending_transmits x = []" "c_send_buffer x = [[7]]"
    "c_send_window x = Some (sw_new INITIAL_DATA_SEQ 1 10)" "c_congestion x = cc_new" "c_reliability x = rel_new"
    by (rule sample_run)
  have ok: "conn_ok x" by (rule reachable_ok [OF run_reachable [OF opened_reachable [OF x(1)] _ x(2)]]) simp
  then obtain params where params: "parts_ok x" "c_params x = Some params"
    using x(4) by (auto simp: conn_ok_def base_ok_def)
  have can: "can_send (sw_new INITIAL_DATA_SEQ 1 10) x"
    using x(7,8) by (simp add: can_send_def cc_new_def with_initial_window_def INITIAL_WINDOW_def sw_new_def has_capacity_def)
  have idle: "try_retransmit 1 x = Some (None, x)"
    unfolding try_retransmit_def x(9) by (simp add: rel_new_def rel_has_pending_def)
  from params obtain wire y w' where y: "try_send_new_data 1 x = Some (Some wire, y)"
    "c_send_window y = Some w'" "c_state y = Established" "pending_entries w' \<noteq> []"
  proof (cases rule: try_send_new_data_cases [where now = 1])
    case blocked
    with can x(6) show thesis by auto
  next
    case (sent_new w data rest d ch w' wire s)
    have w: "w = sw_new INITIAL_DATA_SEQ 1 10" using sent_new(1) x(7) by (simp add: can_send_def)
    define y where "y = (sent (x\<lparr>c_send_buffer := rest, c_send_window := Some w'\<rparr>)
      (c_ack_pending x \<and> c_recv_window x \<noteq> None) wire)\<lparr>c_stats := s\<rparr>"
    have "pending_entries w' \<noteq> []"
      using sent_new(3) by (auto simp: w sw_push_def sw_new_def pending_entries_def Let_def split: if_splits)
    then show thesis
      by (rule that [OF sent_new(4) [unfolded Let_def, folded y_def], rotated 2])
        (use x(4) in \<open>simp_all add: y_def sent_def commit_acknowledgement_def\<close>)
  qed
  have "poll_transmit 1 x = Some (Some wire, (rearm_keep_alive 1 y)
      \<lparr>c_stats := (c_stats y)\<lparr>st_datagrams_out := u64_add (st_datagrams_out (c_stats y)) 1\<rparr>\<rparr>)"
    unfolding poll_transmit_def poll_transmit_inner_def using x(4,5) idle y(1) by (simp add: rearm_keep_alive_def)
  then obtain c where c: "conn_step (CallTransmit 1) x = Some c" "c_state c = Established" "unresolved c"
    using y by (auto simp: unresolved_def rearm_keep_alive_def)
  show ?thesis
  proof (rule that [OF x(1) _ _ c(2,3)])
    show "conn_run (sample_calls @ [CallTransmit 1]) c0 = Some c"
      using x(2) c(1) by (auto simp: bind_eq_Some_conv)
    show "accepted (sample_calls @ [CallTransmit 1]) c0 = [[7]]"
      using accepted_snoc [OF x(2) c(1)] x(3) by simp
  qed
qed

theorem unresolved_data_has_timer_witness:
  "\<exists>c. reachable c \<and> c_state c = Established \<and> unresolved c \<and>
     (\<exists>t d. tt_get TimerRetransmit (c_timers c) = Some t \<and> poll_timeout c = Some d \<and> d \<le> t)"
proof -
  obtain c0 c where c: "opened c0" "conn_run (sample_calls @ [CallTransmit 1]) c0 = Some c"
    "c_state c = Established" "unresolved c"
    by (rule sample_in_flight)
  have "reachable c" by (rule run_reachable [OF opened_reachable [OF c(1)] _ c(2)]) simp
  with unresolved_data_has_timer [of c] c(3,4) show ?thesis by blast
qed

end
