(* ===== verification/Rust_Text.thy ===== *)
theory Rust_Text
  imports Prelude "HOL-Library.Sublist"
begin

text \<open>
  What the programs of the \<open>linrdp\<close> crate use of Rust's strings and paths: \<open>str::lines\<close>,
  \<open>strip_prefix\<close>, \<open>strip_suffix\<close>, \<open>split_once\<close>, \<open>trim\<close>, the decimal \<open>Display\<close> and
  \<open>FromStr\<close> of \<open>u16\<close>, \<open>Display\<close> of \<open>bool\<close> and \<open>Path::join\<close>. A \<open>String\<close> is the list of its
  UTF-8 bytes, which is what these functions compare: every separator and prefix the code
  uses is ASCII, and no byte of a longer UTF-8 sequence is.
\<close>

section \<open>Lines\<close>

abbreviation newline :: char where "newline \<equiv> CHR 0x0A"
abbreviation carriage_return :: char where "carriage_return \<equiv> CHR 0x0D"

fun split_inclusive :: "char \<Rightarrow> string \<Rightarrow> string list" where
  "split_inclusive c [] = []"
| "split_inclusive c (x # xs) =
     (if x = c then [x] # split_inclusive c xs
      else case split_inclusive c xs of [] \<Rightarrow> [[x]] | l # ls \<Rightarrow> (x # l) # ls)"

definition strip_suffix_char :: "char \<Rightarrow> string \<Rightarrow> string option" where
  "strip_suffix_char c s = (if s \<noteq> [] \<and> last s = c then Some (butlast s) else None)"

definition strip_line_end :: "string \<Rightarrow> string" where
  "strip_line_end line =
     (case strip_suffix_char newline line of
        None \<Rightarrow> line
      | Some line' \<Rightarrow> (case strip_suffix_char carriage_return line' of None \<Rightarrow> line' | Some line'' \<Rightarrow> line''))"

definition str_lines :: "string \<Rightarrow> string list" where
  "str_lines s = map strip_line_end (split_inclusive newline s)"

text \<open>A line that reads back as it was written.\<close>

definition one_line :: "string \<Rightarrow> bool" where
  "one_line l \<longleftrightarrow> newline \<notin> set l \<and> (l \<noteq> [] \<longrightarrow> last l \<noteq> carriage_return)"

lemma split_inclusive_line:
  "c \<notin> set l \<Longrightarrow> split_inclusive c (l @ c # rest) = (l @ [c]) # split_inclusive c rest"
  by (induction l) auto

lemma strip_line_end_line: "one_line l \<Longrightarrow> strip_line_end (l @ [newline]) = l"
  by (auto simp: strip_line_end_def strip_suffix_char_def one_line_def)

lemma str_lines_Nil [simp]: "str_lines [] = []"
  by (simp add: str_lines_def)

lemma str_lines_Cons [simp]: "one_line l \<Longrightarrow> str_lines (l @ newline # rest) = l # str_lines rest"
  by (simp add: str_lines_def split_inclusive_line strip_line_end_line one_line_def)

lemma one_line_append:
  "one_line (p @ l) \<longleftrightarrow> newline \<notin> set p \<and> newline \<notin> set l \<and>
     (if l = [] then p = [] \<or> last p \<noteq> carriage_return else last l \<noteq> carriage_return)"
  by (auto simp: one_line_def)

section \<open>Prefixes, separators and white space\<close>

definition strip_prefix :: "string \<Rightarrow> string \<Rightarrow> string option" where
  "strip_prefix p s = (if take (length p) s = p then Some (drop (length p) s) else None)"

lemma strip_prefix_append [simp]: "strip_prefix p (p @ s) = Some s"
  by (simp add: strip_prefix_def)

lemma strip_prefix_Some_iff: "strip_prefix p s = Some r \<longleftrightarrow> s = p @ r"
  by (auto simp: strip_prefix_def) (metis append_take_drop_id)

lemma strip_prefix_differ:
  "i < length p \<Longrightarrow> i < length s \<Longrightarrow> p ! i \<noteq> s ! i \<Longrightarrow> strip_prefix p s = None"
  by (auto simp: strip_prefix_def) (metis nth_take)

definition strip_suffix :: "string \<Rightarrow> string \<Rightarrow> string option" where
  "strip_suffix p s = map_option rev (strip_prefix (rev p) (rev s))"

lemma strip_suffix_Some_iff: "strip_suffix p s = Some r \<longleftrightarrow> s = r @ p"
  by (auto simp: strip_suffix_def strip_prefix_Some_iff rev_swap)

fun split_once :: "char \<Rightarrow> string \<Rightarrow> (string \<times> string) option" where
  "split_once c [] = None"
| "split_once c (x # xs) = (if x = c then Some ([], xs) else map_option (\<lambda>(a, b). (x # a, b)) (split_once c xs))"

lemma split_once_found: "c \<notin> set a \<Longrightarrow> split_once c (a @ c # b) = Some (a, b)"
  by (induction a) auto

lemma split_once_SomeD: "split_once c s = Some (a, b) \<Longrightarrow> c \<notin> set a \<and> s = a @ c # b"
  by (induction s arbitrary: a) (auto split: if_splits)

lemma split_once_None_iff: "split_once c s = None \<longleftrightarrow> c \<notin> set s"
  by (induction s) auto

text \<open>The ASCII white space \<open>str::trim\<close> drops at both ends.\<close>

definition is_space :: "char \<Rightarrow> bool" where
  "is_space c \<longleftrightarrow> c \<in> {CHR 0x20, CHR 0x09, CHR 0x0A, CHR 0x0B, CHR 0x0C, CHR 0x0D}"

definition str_trim :: "string \<Rightarrow> string" where
  "str_trim s = rev (dropWhile is_space (rev (dropWhile is_space s)))"

definition path_join :: "string \<Rightarrow> string \<Rightarrow> string" where
  "path_join base name = (if base = [] \<or> last base = CHR ''/'' then base @ name else base @ CHR ''/'' # name)"

lemma path_join_inj [simp]: "path_join base a = path_join base b \<longleftrightarrow> a = b"
  by (auto simp: path_join_def)

section \<open>Decimal numbers\<close>

definition digit_char :: "nat \<Rightarrow> char" where
  "digit_char n = char_of (48 + n)"

definition digit_value :: "char \<Rightarrow> nat option" where
  "digit_value c = (let n = of_char c :: nat in if 48 \<le> n \<and> n \<le> 57 then Some (n - 48) else None)"

lemma digit_value_char [simp]: "n < 10 \<Longrightarrow> digit_value (digit_char n) = Some n"
  by (simp add: digit_value_def digit_char_def Let_def)

fun show_nat :: "nat \<Rightarrow> string" where
  "show_nat n = (if n < 10 then [digit_char n] else show_nat (n div 10) @ [digit_char (n mod 10)])"

declare show_nat.simps [simp del]

text \<open>The value of a string of digits, most significant first; \<open>None\<close> when a character is
  not one.\<close>

fun digits_value :: "nat \<Rightarrow> string \<Rightarrow> nat option" where
  "digits_value acc [] = Some acc"
| "digits_value acc (c # cs) =
     (case digit_value c of None \<Rightarrow> None | Some d \<Rightarrow> digits_value (acc * 10 + d) cs)"

text \<open>\<open><u16 as FromStr>::from_str\<close>: one optional plus sign, then at least one digit, in
  range.\<close>

definition parse_u16 :: "string \<Rightarrow> u16 option" where
  "parse_u16 s =
     (let digits = (if s \<noteq> [] \<and> hd s = CHR ''+'' then tl s else s)
      in if digits = [] then None
         else case digits_value 0 digits of
           None \<Rightarrow> None
         | Some n \<Rightarrow> if n < 2 ^ 16 then Some (of_nat n) else None)"

definition show_u16 :: "u16 \<Rightarrow> string" where
  "show_u16 w = show_nat (unat w)"

definition show_bool :: "bool \<Rightarrow> string" where
  "show_bool b = (if b then ''true'' else ''false'')"

lemma digits_value_append:
  "digits_value acc (xs @ ys) = Option.bind (digits_value acc xs) (\<lambda>n. digits_value n ys)"
  by (induction xs arbitrary: acc) (auto split: option.splits)

lemma digits_value_show: "digits_value 0 (show_nat n) = Some n"
proof (induction n rule: show_nat.induct)
  case (1 n)
  then show ?case
    by (subst show_nat.simps) (auto simp: digits_value_append)
qed

definition is_digit :: "char \<Rightarrow> bool" where
  "is_digit c \<longleftrightarrow> (48 :: nat) \<le> of_char c \<and> of_char c \<le> (57 :: nat)"

lemma is_digit_char: "n < 10 \<Longrightarrow> is_digit (digit_char n)"
  by (simp add: is_digit_def digit_char_def)

lemma show_nat_digits: "list_all is_digit (show_nat n)"
proof (induction n rule: show_nat.induct)
  case (1 n)
  then show ?case by (subst show_nat.simps) (simp add: is_digit_char)
qed

lemma show_nat_nonempty [simp]: "show_nat n \<noteq> []"
  by (subst show_nat.simps) simp

lemma show_nat_plain: "c \<in> set (show_nat n) \<Longrightarrow> is_digit c"
  using show_nat_digits [of n] by (simp add: list_all_iff)

lemma not_digits [simp]: "\<not> is_digit newline" "\<not> is_digit carriage_return" "\<not> is_digit (CHR ''+'')"
  by (simp_all add: is_digit_def)

lemma show_nat_inj: "show_nat m = show_nat n \<Longrightarrow> m = n"
  by (metis digits_value_show option.inject)

lemma show_u16_inj [simp]: "show_u16 a = show_u16 b \<longleftrightarrow> a = b"
  by (auto simp: show_u16_def word_unat_eq_iff dest: show_nat_inj)

lemma parse_show_u16 [simp]: "parse_u16 (show_u16 w) = Some w"
proof -
  have "hd (show_nat (unat w)) \<noteq> CHR ''+''"
    using show_nat_plain [OF list.set_sel(1) [OF show_nat_nonempty], of "unat w"] not_digits(3) by metis
  then show ?thesis
    using unat_u16_bound [of w] by (simp add: parse_u16_def show_u16_def digits_value_show)
qed

lemma show_u16_one_line: "one_line (show_u16 w)"
proof -
  have "newline \<notin> set (show_nat (unat w))" using show_nat_plain [of newline "unat w"] by auto
  moreover have "last (show_nat (unat w)) \<noteq> carriage_return"
    using show_nat_plain [OF last_in_set [OF show_nat_nonempty], of "unat w"] not_digits(2) by metis
  ultimately show ?thesis by (simp add: one_line_def show_u16_def)
qed

lemma show_bool_one_line: "one_line (show_bool b)"
  by (simp add: one_line_def show_bool_def)

end
