(* ===== verification/Registry.thy ===== *)
theory Registry
  imports Rust_Text
begin

text \<open>
  The session registry (\<open>session/registry.rs\<close>): one text file of \<open>key=value\<close> lines per
  display in the state directory, saying whose session it is and whether it is locked.
  The file system is a map from paths to contents and modes, with the paths on which the
  kernel refuses a change; an operation returns its result and the file system after it.
  The files hold what linrdp wrote, so \<open>read_to_string\<close> does not meet invalid UTF-8, and a
  write either happens or is refused.
\<close>

section \<open>Files\<close>

datatype io_error = NotFound | PermissionDenied | OtherIo

record stored_file =
  f_content :: string
  f_mode :: nat

record fs =
  fs_files :: "string \<Rightarrow> stored_file option"
  fs_refused :: "string \<Rightarrow> io_error option"
  fs_new_mode :: nat

definition fs_write :: "string \<Rightarrow> string \<Rightarrow> fs \<Rightarrow> (io_error + unit) \<times> fs" where
  "fs_write path content fs =
     (case fs_refused fs path of
        Some e \<Rightarrow> (Inl e, fs)
      | None \<Rightarrow>
          let mode = (case fs_files fs path of None \<Rightarrow> fs_new_mode fs | Some f \<Rightarrow> f_mode f)
          in (Inr (), fs\<lparr>fs_files := (fs_files fs)(path \<mapsto> \<lparr>f_content = content, f_mode = mode\<rparr>)\<rparr>))"

definition fs_set_permissions :: "string \<Rightarrow> nat \<Rightarrow> fs \<Rightarrow> (io_error + unit) \<times> fs" where
  "fs_set_permissions path mode fs =
     (case (fs_refused fs path, fs_files fs path) of
        (Some e, _) \<Rightarrow> (Inl e, fs)
      | (None, None) \<Rightarrow> (Inl NotFound, fs)
      | (None, Some f) \<Rightarrow> (Inr (), fs\<lparr>fs_files := (fs_files fs)(path \<mapsto> f\<lparr>f_mode := mode\<rparr>)\<rparr>))"

definition fs_read_to_string :: "string \<Rightarrow> fs \<Rightarrow> string option" where
  "fs_read_to_string path fs = map_option f_content (fs_files fs path)"

definition fs_remove_file :: "string \<Rightarrow> fs \<Rightarrow> (io_error + unit) \<times> fs" where
  "fs_remove_file path fs =
     (case (fs_files fs path, fs_refused fs path) of
        (None, _) \<Rightarrow> (Inl NotFound, fs)
      | (Some _, Some e) \<Rightarrow> (Inl e, fs)
      | (Some _, None) \<Rightarrow> (Inr (), fs\<lparr>fs_files := (fs_files fs)(path := None)\<rparr>))"

section \<open>Session records\<close>

record session_record =
  sr_user :: string
  sr_display :: u16
  sr_runtime_dir :: string
  sr_xauthority :: string
  sr_locked :: bool
  sr_logind_id :: "string option"
  sr_bus :: "string option"
  sr_backend :: string

definition X11_ID :: string where "X11_ID = ''x11''"
definition GNOME_HEADLESS_ID :: string where "GNOME_HEADLESS_ID = ''gnome-headless''"

datatype registry_error =
    WriteFailed string io_error
  | ChmodFailed string io_error
  | RemoveFailed string io_error
  | NoSessionRecorded u16

text \<open>Mode \<open>0o600\<close>.\<close>

definition MODE_PRIVATE :: nat where "MODE_PRIVATE = 6 * 8 ^ 2"

definition record_path :: "string \<Rightarrow> u16 \<Rightarrow> string" where
  "record_path base display = path_join base (''display-'' @ show_u16 display @ ''.session'')"

definition record_line :: "string \<Rightarrow> string \<Rightarrow> string" where
  "record_line key v = key @ CHR ''='' # v @ [newline]"

definition record_body :: "session_record \<Rightarrow> string" where
  "record_body rec =
     record_line ''user'' (sr_user rec) @
     record_line ''display'' (show_u16 (sr_display rec)) @
     record_line ''runtime_dir'' (sr_runtime_dir rec) @
     record_line ''xauthority'' (sr_xauthority rec) @
     record_line ''locked'' (show_bool (sr_locked rec)) @
     (case sr_logind_id rec of None \<Rightarrow> [] | Some ident \<Rightarrow> record_line ''logind_id'' ident) @
     (case sr_bus rec of None \<Rightarrow> [] | Some bus \<Rightarrow> record_line ''bus'' bus) @
     record_line ''backend'' (sr_backend rec)"

definition write_record :: "string \<Rightarrow> session_record \<Rightarrow> fs \<Rightarrow> (registry_error + unit) \<times> fs" where
  "write_record base rec fs =
     (let path = record_path base (sr_display rec)
      in case fs_write path (record_body rec) fs of
        (Inl e, fs) \<Rightarrow> (Inl (WriteFailed path e), fs)
      | (Inr _, fs) \<Rightarrow> (case fs_set_permissions path MODE_PRIVATE fs of
            (Inl e, fs) \<Rightarrow> (Inl (ChmodFailed path e), fs)
          | (Inr _, fs) \<Rightarrow> (Inr (), fs)))"

fun find_map :: "('a \<Rightarrow> 'b option) \<Rightarrow> 'a list \<Rightarrow> 'b option" where
  "find_map f [] = None"
| "find_map f (x # xs) = (case f x of None \<Rightarrow> find_map f xs | Some y \<Rightarrow> Some y)"

definition record_field :: "string \<Rightarrow> string \<Rightarrow> string option" where
  "record_field body key = find_map (strip_prefix (key @ ''='')) (str_lines body)"

definition non_empty :: "string option \<Rightarrow> string option" where
  "non_empty v = (case v of None \<Rightarrow> None | Some s \<Rightarrow> if s = [] then None else Some s)"

definition parse_record :: "string \<Rightarrow> session_record option" where
  "parse_record body =
     (let field = record_field body;
          bus = non_empty (field ''bus'');
          backend = (case non_empty (field ''backend'') of
             Some b \<Rightarrow> b
           | None \<Rightarrow> if bus \<noteq> None then GNOME_HEADLESS_ID else X11_ID)
      in Option.bind (field ''user'') (\<lambda>user.
         Option.bind (Option.bind (field ''display'') parse_u16) (\<lambda>display.
         Option.bind (field ''runtime_dir'') (\<lambda>runtime_dir.
         Option.bind (field ''xauthority'') (\<lambda>xauthority.
           Some \<lparr>sr_user = user, sr_display = display, sr_runtime_dir = runtime_dir,
             sr_xauthority = xauthority,
             sr_locked = (case field ''locked'' of None \<Rightarrow> True | Some v \<Rightarrow> v = ''true''),
             sr_logind_id = non_empty (field ''logind_id''), sr_bus = bus, sr_backend = backend\<rparr>)))))"

definition read_record :: "string \<Rightarrow> u16 \<Rightarrow> fs \<Rightarrow> session_record option" where
  "read_record base display fs = Option.bind (fs_read_to_string (record_path base display) fs) parse_record"

definition forget_record :: "string \<Rightarrow> u16 \<Rightarrow> fs \<Rightarrow> (registry_error + unit) \<times> fs" where
  "forget_record base display fs =
     (let path = record_path base display
      in case fs_remove_file path fs of
        (Inr _, fs) \<Rightarrow> (Inr (), fs)
      | (Inl NotFound, fs) \<Rightarrow> (Inr (), fs)
      | (Inl e, fs) \<Rightarrow> (Inl (RemoveFailed path e), fs))"

definition set_locked :: "string \<Rightarrow> u16 \<Rightarrow> bool \<Rightarrow> fs \<Rightarrow> (registry_error + unit) \<times> fs" where
  "set_locked base display locked fs =
     (case read_record base display fs of
        None \<Rightarrow> (Inl (NoSessionRecorded display), fs)
      | Some rec \<Rightarrow> write_record base (rec\<lparr>sr_locked := locked\<rparr>) fs)"

text \<open>The numbers of a \<open>RangeInclusive<u16>\<close>, in order.\<close>

type_synonym display_range = "u16 \<times> u16"

definition range_numbers :: "display_range \<Rightarrow> u16 list" where
  "range_numbers = (\<lambda>(lo, hi). map of_nat [unat lo ..< Suc (unat hi)])"

fun lock_each :: "string \<Rightarrow> u16 list \<Rightarrow> usize \<times> fs \<Rightarrow> usize \<times> fs" where
  "lock_each base [] s = s"
| "lock_each base (display # rest) (locked, fs) = lock_each base rest
     (case read_record base display fs of
        None \<Rightarrow> (locked, fs)
      | Some rec \<Rightarrow>
          if sr_locked rec then (locked, fs)
          else (case write_record base (rec\<lparr>sr_locked := True\<rparr>) fs of
            (Inr _, fs) \<Rightarrow> (locked + 1, fs)
          | (Inl _, fs) \<Rightarrow> (locked, fs)))"

definition lock_all :: "string \<Rightarrow> display_range \<Rightarrow> fs \<Rightarrow> usize \<times> fs" where
  "lock_all base slots fs = lock_each base (range_numbers slots) (0, fs)"

definition find_session :: "string \<Rightarrow> string \<Rightarrow> display_range \<Rightarrow> fs \<Rightarrow> session_record option" where
  "find_session base user slots fs =
     List.find (\<lambda>rec. sr_user rec = user)
       (List.map_filter (\<lambda>display. read_record base display fs) (range_numbers slots))"

section \<open>Writing and reading back\<close>

lemma record_path_inj [simp]: "record_path base a = record_path base b \<longleftrightarrow> a = b"
  by (simp add: record_path_def)

text \<open>A value as the next reader sees it: the line ending takes one carriage return with
  it.\<close>

definition strip_cr :: "string \<Rightarrow> string" where
  "strip_cr v = (if v \<noteq> [] \<and> last v = carriage_return then butlast v else v)"

lemma strip_cr_one_line: "one_line v \<Longrightarrow> strip_cr v = v"
  by (auto simp: strip_cr_def one_line_def)

lemma strip_line_end_value: "strip_line_end (l @ [newline]) = strip_cr l"
  by (auto simp: strip_line_end_def strip_suffix_char_def strip_cr_def)

lemma str_lines_value: "newline \<notin> set l \<Longrightarrow> str_lines (l @ newline # rest) = strip_cr l # str_lines rest"
  by (simp add: str_lines_def split_inclusive_line strip_line_end_value)

text \<open>A file of \<open>key=value\<close> lines as its list of pairs, and a field as a lookup in it.\<close>

definition keys_plain :: "(string \<times> string) list \<Rightarrow> bool" where
  "keys_plain kvs \<longleftrightarrow> list_all (\<lambda>(k, v). newline \<notin> set k \<and> CHR ''='' \<notin> set k \<and> newline \<notin> set v) kvs"

lemma str_lines_record_line:
  assumes "newline \<notin> set k" "newline \<notin> set v"
  shows "str_lines (record_line k v @ rest) = (k @ CHR ''='' # strip_cr v) # str_lines rest"
proof -
  have "strip_cr (k @ CHR ''='' # v) = k @ CHR ''='' # strip_cr v"
    by (auto simp: strip_cr_def butlast_append)
  with assms str_lines_value [of "k @ CHR ''='' # v" rest] show ?thesis by (simp add: record_line_def)
qed

lemma strip_prefix_key:
  assumes "CHR ''='' \<notin> set key" "CHR ''='' \<notin> set k"
  shows "strip_prefix (key @ ''='') (k @ CHR ''='' # v) = (if key = k then Some v else None)"
proof (cases "strip_prefix (key @ ''='') (k @ CHR ''='' # v)")
  case (Some r)
  then have "k @ CHR ''='' # v = key @ CHR ''='' # r" by (simp add: strip_prefix_Some_iff)
  with assms have "k = key \<and> v = r" using split_once_found [of "CHR ''=''"] by (metis option.inject prod.inject)
  with Some show ?thesis by simp
next
  case None
  then have "key \<noteq> k" by (auto simp: strip_prefix_def)
  with None show ?thesis by simp
qed

lemma record_field_lookup:
  assumes "keys_plain kvs" "CHR ''='' \<notin> set key"
  shows "record_field (concat (map (\<lambda>(k, v). record_line k v) kvs)) key = map_option strip_cr (map_of kvs key)"
  using assms
proof (induction kvs)
  case Nil
  then show ?case by (simp add: record_field_def)
next
  case (Cons kv kvs)
  obtain k v where kv: "kv = (k, v)" by (cases kv)
  from Cons kv have "str_lines (record_line k v @ concat (map (\<lambda>(k, v). record_line k v) kvs)) =
      (k @ CHR ''='' # strip_cr v) # str_lines (concat (map (\<lambda>(k, v). record_line k v) kvs))"
    by (intro str_lines_record_line) (simp_all add: keys_plain_def)
  with Cons kv show ?case
    by (auto simp: record_field_def keys_plain_def strip_prefix_key)
qed

definition record_pairs :: "session_record \<Rightarrow> (string \<times> string) list" where
  "record_pairs rec =
     [(''user'', sr_user rec), (''display'', show_u16 (sr_display rec)), (''runtime_dir'', sr_runtime_dir rec),
      (''xauthority'', sr_xauthority rec), (''locked'', show_bool (sr_locked rec))] @
     (case sr_logind_id rec of None \<Rightarrow> [] | Some ident \<Rightarrow> [(''logind_id'', ident)]) @
     (case sr_bus rec of None \<Rightarrow> [] | Some bus \<Rightarrow> [(''bus'', bus)]) @
     [(''backend'', sr_backend rec)]"

lemma record_body_pairs: "record_body rec = concat (map (\<lambda>(k, v). record_line k v) (record_pairs rec))"
  by (simp add: record_body_def record_pairs_def split: option.splits)

definition line_safe :: "session_record \<Rightarrow> bool" where
  "line_safe rec \<longleftrightarrow> list_all (\<lambda>v. newline \<notin> set v)
     [sr_user rec, sr_runtime_dir rec, sr_xauthority rec, sr_backend rec] \<and>
     pred_option (\<lambda>v. newline \<notin> set v) (sr_logind_id rec) \<and> pred_option (\<lambda>v. newline \<notin> set v) (sr_bus rec)"

lemma record_pairs_plain: "line_safe rec \<Longrightarrow> keys_plain (record_pairs rec)"
  using show_u16_one_line [of "sr_display rec"] show_bool_one_line [of "sr_locked rec"]
  by (cases "sr_logind_id rec"; cases "sr_bus rec") (simp_all add: line_safe_def record_pairs_def keys_plain_def one_line_def)

text \<open>What any record without line breaks reads back as.\<close>

definition reread :: "session_record \<Rightarrow> session_record" where
  "reread rec =
     (let bus = non_empty (map_option strip_cr (sr_bus rec))
      in rec\<lparr>sr_user := strip_cr (sr_user rec), sr_runtime_dir := strip_cr (sr_runtime_dir rec),
           sr_xauthority := strip_cr (sr_xauthority rec),
           sr_logind_id := non_empty (map_option strip_cr (sr_logind_id rec)), sr_bus := bus,
           sr_backend := (if strip_cr (sr_backend rec) \<noteq> [] then strip_cr (sr_backend rec)
             else if bus \<noteq> None then GNOME_HEADLESS_ID else X11_ID)\<rparr>)"

lemma parse_record_body:
  assumes "line_safe rec"
  shows "parse_record (record_body rec) = Some (reread rec)"
proof -
  have field: "record_field (record_body rec) key = map_option strip_cr (map_of (record_pairs rec) key)"
    if "CHR ''='' \<notin> set key" for key
    unfolding record_body_pairs by (rule record_field_lookup [OF record_pairs_plain [OF assms] that])
  have cr: "strip_cr (show_u16 w) = show_u16 w" "strip_cr (show_bool b) = show_bool b" for w b
    by (simp_all add: strip_cr_one_line show_u16_one_line show_bool_one_line)
  have pairs: "map_of (record_pairs rec) ''user'' = Some (sr_user rec)"
    "map_of (record_pairs rec) ''display'' = Some (show_u16 (sr_display rec))"
    "map_of (record_pairs rec) ''runtime_dir'' = Some (sr_runtime_dir rec)"
    "map_of (record_pairs rec) ''xauthority'' = Some (sr_xauthority rec)"
    "map_of (record_pairs rec) ''locked'' = Some (show_bool (sr_locked rec))"
    "map_of (record_pairs rec) ''logind_id'' = sr_logind_id rec"
    "map_of (record_pairs rec) ''bus'' = sr_bus rec"
    "map_of (record_pairs rec) ''backend'' = Some (sr_backend rec)"
    by (simp_all add: record_pairs_def split: option.splits)
  have b: "(show_bool b = ''true'') = b" for b by (simp add: show_bool_def)
  show ?thesis
    unfolding parse_record_def Let_def
    by (simp add: field pairs cr b reread_def Let_def non_empty_def)
qed

lemma reread_id:
  assumes "line_safe rec" "list_all one_line [sr_user rec, sr_runtime_dir rec, sr_xauthority rec, sr_backend rec]"
    "pred_option (\<lambda>v. one_line v \<and> v \<noteq> []) (sr_logind_id rec)" "pred_option (\<lambda>v. one_line v \<and> v \<noteq> []) (sr_bus rec)"
    "sr_backend rec \<noteq> []"
  shows "reread rec = rec"
proof -
  have "non_empty (map_option strip_cr (sr_logind_id rec)) = sr_logind_id rec"
    "non_empty (map_option strip_cr (sr_bus rec)) = sr_bus rec"
    using assms(3,4) by (simp_all add: non_empty_def strip_cr_one_line pred_option_def split: option.splits)
  with assms show ?thesis by (simp add: reread_def strip_cr_one_line)
qed

lemma write_record_ok:
  assumes "fs_refused fs (record_path base (sr_display rec)) = None"
  obtains fs' where "write_record base rec fs = (Inr (), fs')" "fs_refused fs' = fs_refused fs"
    "fs_files fs' = (fs_files fs)(record_path base (sr_display rec) \<mapsto> \<lparr>f_content = record_body rec, f_mode = MODE_PRIVATE\<rparr>)"
  using assms that by (simp add: write_record_def fs_write_def fs_set_permissions_def Let_def)

lemma read_after_write:
  assumes "line_safe rec" "fs_files fs' = (fs_files fs)(record_path base (sr_display rec) \<mapsto> \<lparr>f_content = record_body rec, f_mode = m\<rparr>)"
  shows "read_record base display fs' = (if display = sr_display rec then Some (reread rec) else read_record base display fs)"
  using assms by (simp add: read_record_def fs_read_to_string_def parse_record_body)

text \<open>
  C22. A session record survives the state directory: what \<open>write_record\<close> stored under a
  display is what \<open>read_record\<close> finds there, private to root, and no other display's
  record is touched, whenever the kernel lets the file be written, the text fields are
  single lines and the optional ones are not empty.
\<close>

theorem record_round_trip:
  assumes "fs_refused fs (record_path base (sr_display rec)) = None"
    and "list_all one_line [sr_user rec, sr_runtime_dir rec, sr_xauthority rec, sr_backend rec]"
    and "pred_option (\<lambda>v. one_line v \<and> v \<noteq> []) (sr_logind_id rec)" "pred_option (\<lambda>v. one_line v \<and> v \<noteq> []) (sr_bus rec)"
    and "sr_backend rec \<noteq> []"
  shows "\<exists>fs'. write_record base rec fs = (Inr (), fs') \<and>
    map_option f_mode (fs_files fs' (record_path base (sr_display rec))) = Some MODE_PRIVATE \<and>
    (\<forall>display. read_record base display fs' =
       (if display = sr_display rec then Some rec else read_record base display fs))"
proof -
  have safe: "line_safe rec"
    using assms(2-4) by (auto simp: line_safe_def one_line_def pred_option_def)
  obtain fs' where w: "write_record base rec fs = (Inr (), fs')"
    "fs_files fs' = (fs_files fs)(record_path base (sr_display rec) \<mapsto> \<lparr>f_content = record_body rec, f_mode = MODE_PRIVATE\<rparr>)"
    by (rule write_record_ok [OF assms(1)])
  with read_after_write [OF safe w(2)] reread_id [OF safe assms(2-5)] show ?thesis by simp
qed

definition sample_record :: session_record where
  "sample_record = \<lparr>sr_user = ''carol'', sr_display = 12, sr_runtime_dir = ''/run/user/1012'',
     sr_xauthority = ''/run/user/1012/linrdp/Xauthority'', sr_locked = False, sr_logind_id = Some ''12'',
     sr_bus = None, sr_backend = X11_ID\<rparr>"

definition empty_fs :: fs where
  "empty_fs = \<lparr>fs_files = (\<lambda>_. None), fs_refused = (\<lambda>_. None), fs_new_mode = 6 * 8 ^ 2 + 4 * 8 + 4\<rparr>"

theorem record_round_trip_witness:
  "\<exists>fs'. write_record ''/run/linrdp'' sample_record empty_fs = (Inr (), fs') \<and>
     map_option f_mode (fs_files fs' (record_path ''/run/linrdp'' 12)) = Some MODE_PRIVATE \<and>
     (\<forall>display. read_record ''/run/linrdp'' display fs' =
        (if display = 12 then Some sample_record else read_record ''/run/linrdp'' display empty_fs))"
  using record_round_trip [of empty_fs "''/run/linrdp''" sample_record]
  by (simp add: empty_fs_def sample_record_def one_line_def X11_ID_def)

section \<open>Locking\<close>

lemma split_inclusive_newline:
  "l \<in> set (split_inclusive c s) \<Longrightarrow> c \<notin> set (butlast l)"
proof (induction s arbitrary: l)
  case (Cons x s)
  show ?case
  proof (cases "x = c")
    case True
    with Cons show ?thesis by auto
  next
    case False
    with Cons show ?thesis by (cases "split_inclusive c s") (auto split: if_splits)
  qed
qed simp

lemma str_lines_newline: "l \<in> set (str_lines s) \<Longrightarrow> newline \<notin> set l"
proof -
  assume "l \<in> set (str_lines s)"
  then obtain k where k: "k \<in> set (split_inclusive newline s)" "l = strip_line_end k" by (auto simp: str_lines_def)
  have c: "newline \<notin> set (butlast k)" by (rule split_inclusive_newline [OF k(1)])
  show ?thesis
  proof (cases "k \<noteq> [] \<and> last k = newline")
    case True
    with c k(2) show ?thesis
      by (auto simp: strip_line_end_def strip_suffix_char_def dest: in_set_butlastD)
  next
    case False
    have "newline \<notin> set k"
    proof (cases k rule: rev_cases)
      case (snoc ys y)
      with False c show ?thesis by auto
    qed simp
    with False k(2) show ?thesis by (auto simp: strip_line_end_def strip_suffix_char_def)
  qed
qed

lemma record_field_newline:
  assumes "record_field body key = Some v" shows "newline \<notin> set v"
proof -
  have "find_map f xs = Some y \<Longrightarrow> \<exists>x\<in>set xs. f x = Some y" for f :: "string \<Rightarrow> string option" and xs y
    by (induction xs) (auto split: option.splits)
  with assms obtain l where "l \<in> set (str_lines body)" "strip_prefix (key @ ''='') l = Some v"
    unfolding record_field_def by blast
  with str_lines_newline show ?thesis by (force simp: strip_prefix_Some_iff)
qed

lemma parse_record_safe: "parse_record body = Some rec \<Longrightarrow> line_safe rec"
  by (auto simp: parse_record_def Let_def bind_eq_Some_conv line_safe_def non_empty_def pred_option_def
      X11_ID_def GNOME_HEADLESS_ID_def dest!: record_field_newline split: option.splits if_splits)

lemma read_record_safe: "read_record base display fs = Some rec \<Longrightarrow> line_safe rec"
  by (auto simp: read_record_def bind_eq_Some_conv dest: parse_record_safe)

text \<open>Every record is filed under the display it names.\<close>

definition filed :: "string \<Rightarrow> fs \<Rightarrow> bool" where
  "filed base fs \<longleftrightarrow> (\<forall>display rec. read_record base display fs = Some rec \<longrightarrow> sr_display rec = display)"

lemma reread_simps [simp]: "sr_locked (reread rec) = sr_locked rec" "sr_display (reread rec) = sr_display rec"
  by (simp_all add: reread_def Let_def)

text \<open>What one rewrite of the lock flag leaves behind.\<close>

lemma relock:
  assumes "filed base fs" "read_record base display fs = Some rec" "fs_refused fs (record_path base display) = None"
  obtains fs' where "write_record base (rec\<lparr>sr_locked := b\<rparr>) fs = (Inr (), fs')" "filed base fs'"
    "fs_refused fs' = fs_refused fs"
    "\<And>d. read_record base d fs' = (if d = display then Some (reread (rec\<lparr>sr_locked := b\<rparr>)) else read_record base d fs)"
proof -
  have d: "sr_display rec = display" using assms(1,2) by (simp add: filed_def)
  have safe: "line_safe (rec\<lparr>sr_locked := b\<rparr>)" using read_record_safe [OF assms(2)] by (simp add: line_safe_def)
  obtain fs' where w: "write_record base (rec\<lparr>sr_locked := b\<rparr>) fs = (Inr (), fs')" "fs_refused fs' = fs_refused fs"
    "fs_files fs' = (fs_files fs)(record_path base (sr_display (rec\<lparr>sr_locked := b\<rparr>)) \<mapsto>
       \<lparr>f_content = record_body (rec\<lparr>sr_locked := b\<rparr>), f_mode = MODE_PRIVATE\<rparr>)"
    by (rule write_record_ok [of fs base "rec\<lparr>sr_locked := b\<rparr>"]) (use assms(3) d in simp_all)
  note r = read_after_write [OF safe w(3)]
  have "filed base fs'" using assms(1) d by (auto simp: filed_def r)
  with that w r d show thesis by simp
qed

lemma lock_each_locks:
  assumes "filed base fs" "\<And>p. fs_refused fs p = None" "lock_each base ds (n, fs) = (m, fs')"
  shows "filed base fs' \<and> (\<forall>d. (read_record base d fs' = None) = (read_record base d fs = None)) \<and>
    (\<forall>d rec. read_record base d fs' = Some rec \<and> (d \<in> set ds \<or> (\<exists>r. read_record base d fs = Some r \<and> sr_locked r)) \<longrightarrow> sr_locked rec)"
  using assms
proof (induction ds arbitrary: n fs)
  case (Cons d ds)
  show ?case
  proof (cases "\<exists>rec. read_record base d fs = Some rec \<and> \<not> sr_locked rec")
    case True
    then obtain rec where rec: "read_record base d fs = Some rec" "\<not> sr_locked rec" by blast
    obtain fs1 where fs1: "write_record base (rec\<lparr>sr_locked := True\<rparr>) fs = (Inr (), fs1)" "filed base fs1"
      "fs_refused fs1 = fs_refused fs"
      "\<And>x. read_record base x fs1 = (if x = d then Some (reread (rec\<lparr>sr_locked := True\<rparr>)) else read_record base x fs)"
      using relock [OF Cons.prems(1) rec(1) Cons.prems(2), where b = True] by blast
    with Cons.prems(3) rec have "lock_each base ds (n + 1, fs1) = (m, fs')" by simp
    with Cons.IH [OF fs1(2)] Cons.prems(2) fs1(3) have ih: "filed base fs'"
      "\<And>x. (read_record base x fs' = None) = (read_record base x fs1 = None)"
      "\<And>x r. read_record base x fs' = Some r \<Longrightarrow> x \<in> set ds \<or> (\<exists>r. read_record base x fs1 = Some r \<and> sr_locked r) \<Longrightarrow> sr_locked r"
      by simp_all
    with fs1(4) rec show ?thesis by (auto split: if_splits)
  next
    case False
    with Cons.prems(3) have "lock_each base ds (n, fs) = (m, fs')" by (auto split: option.splits)
    from Cons.IH [OF Cons.prems(1,2) this] have ih: "filed base fs'"
      "\<And>x. (read_record base x fs' = None) = (read_record base x fs = None)"
      "\<And>x r. read_record base x fs' = Some r \<Longrightarrow> x \<in> set ds \<or> (\<exists>r. read_record base x fs = Some r \<and> sr_locked r) \<Longrightarrow> sr_locked r"
      by simp_all
    moreover have "sr_locked rec" if "read_record base d fs' = Some rec" for rec
      using that ih(2) [of d] ih(3) [of d rec] False by (cases "read_record base d fs") auto
    ultimately show ?thesis by auto
  qed
qed auto

text \<open>
  C21. A supervisor start leaves no recorded desktop unlocked: after \<open>lock_all\<close> every
  record in the range reads as locked, no record appeared or was lost, and the records are
  still filed under their own displays.
\<close>

theorem lock_all_locks:
  assumes "filed base fs" "fs_refused fs = (\<lambda>_. None)"
  shows "case lock_all base slots fs of (_, fs') \<Rightarrow> filed base fs' \<and>
    (\<forall>d. (read_record base d fs' = None) = (read_record base d fs = None)) \<and>
    list_all (\<lambda>d. pred_option sr_locked (read_record base d fs')) (range_numbers slots)"
proof -
  obtain m fs' where l: "lock_each base (range_numbers slots) (0, fs) = (m, fs')" by fastforce
  from lock_each_locks [OF assms(1) _ l] assms(2) show ?thesis
    by (auto simp: lock_all_def l list_all_iff pred_option_def)
qed

theorem lock_all_locks_witness:
  "\<exists>fs. write_record ''/run/linrdp'' sample_record empty_fs = (Inr (), fs) \<and> filed ''/run/linrdp'' fs \<and>
     (case lock_all ''/run/linrdp'' (10, 20) fs of (_, fs') \<Rightarrow> filed ''/run/linrdp'' fs' \<and>
        (\<forall>d. (read_record ''/run/linrdp'' d fs' = None) = (read_record ''/run/linrdp'' d fs = None)) \<and>
        list_all (\<lambda>d. pred_option sr_locked (read_record ''/run/linrdp'' d fs')) (range_numbers (10, 20)))"
proof -
  obtain fs' where w: "write_record ''/run/linrdp'' sample_record empty_fs = (Inr (), fs')"
    "fs_refused fs' = fs_refused empty_fs"
    "fs_files fs' = (fs_files empty_fs)(record_path ''/run/linrdp'' (sr_display sample_record) \<mapsto>
       \<lparr>f_content = record_body sample_record, f_mode = MODE_PRIVATE\<rparr>)"
    by (rule write_record_ok [of empty_fs "''/run/linrdp''" sample_record]) (simp add: empty_fs_def)
  have safe: "line_safe sample_record" by (simp add: line_safe_def sample_record_def X11_ID_def)
  have "filed ''/run/linrdp'' fs'"
    using read_after_write [OF safe w(3)]
    by (simp add: filed_def read_record_def fs_read_to_string_def empty_fs_def)
  with lock_all_locks [of "''/run/linrdp''" fs' "(10, 20)"] w(1,2) show ?thesis
    by (auto simp: empty_fs_def)
qed

section \<open>Finding a session\<close>

lemma find_session_user: "find_session base user slots fs = Some rec \<Longrightarrow> sr_user rec = user"
  by (auto simp: find_session_def find_Some_iff)

lemma find_session_read:
  "find_session base user slots fs = Some rec \<Longrightarrow> \<exists>d\<in>set (range_numbers slots). read_record base d fs = Some rec"
proof -
  assume "find_session base user slots fs = Some rec"
  then have "rec \<in> set (List.map_filter (\<lambda>d. read_record base d fs) (range_numbers slots))"
    by (auto simp: find_session_def find_Some_iff)
  then show ?thesis by (auto simp: map_filter_def)
qed

end
