(* ===== verification/Display_Alloc.thy ===== *)
theory Display_Alloc
  imports Registry
begin

text \<open>
  Display numbers and the locks that award them (\<open>session/display_alloc.rs\<close>, and the
  descriptor hand-over of \<open>session::create\<close> and \<open>spawn_keeper\<close> in \<open>session/mod.rs\<close>). A claim
  is an exclusive \<open>flock\<close> on a lock file; \<open>flock\<close> belongs to an open file description, which
  several descriptors of several processes can share, so the model has the part of the
  kernel that decides: descriptor tables with their close-on-exec flags, open file
  descriptions, inodes and the lock of each inode. The system is then the interleaving of
  the workers and keepers that allocate, hand over, adopt and drop claims, run foreign
  programs and die.
\<close>

section \<open>Descriptors and locks\<close>

type_synonym pid = nat
type_synonym fd = nat
type_synonym ofd = nat
type_synonym inode = nat

record os =
  os_inode :: "string \<Rightarrow> inode option"
  os_target :: "ofd \<Rightarrow> inode"
  os_lock :: "inode \<Rightarrow> ofd option"
  os_open :: "((pid \<times> fd) \<times> ofd \<times> bool) list"
  os_fresh :: nat
  os_refused :: "string \<Rightarrow> bool"

definition fd_entry :: "pid \<Rightarrow> fd \<Rightarrow> os \<Rightarrow> (ofd \<times> bool) option" where
  "fd_entry p f os = map_of (os_open os) (p, f)"

definition fds_of :: "pid \<Rightarrow> os \<Rightarrow> fd list" where
  "fds_of p os = map (snd \<circ> fst) (filter (\<lambda>e. fst (fst e) = p) (os_open os))"

definition lowest_fd :: "fd \<Rightarrow> pid \<Rightarrow> os \<Rightarrow> fd" where
  "lowest_fd from p os = hd (filter (\<lambda>n. n \<notin> set (fds_of p os)) [from ..< Suc (from + length (fds_of p os))])"

text \<open>\<open>open\<close>, with \<open>O_CREAT\<close> when \<open>create\<close>; the standard library always sets
  \<open>O_CLOEXEC\<close>.\<close>

definition open_file :: "bool \<Rightarrow> pid \<Rightarrow> string \<Rightarrow> os \<Rightarrow> (fd \<times> os) option" where
  "open_file create p path os =
     (if os_refused os path \<or> (os_inode os path = None \<and> \<not> create) then None
      else
       let i = (case os_inode os path of Some i \<Rightarrow> i | None \<Rightarrow> os_fresh os);
           d = Suc (os_fresh os);
           f = lowest_fd 0 p os
       in Some (f, os\<lparr>os_inode := (os_inode os)(path \<mapsto> i), os_target := (os_target os)(d := i),
            os_open := ((p, f), (d, True)) # os_open os, os_fresh := os_fresh os + 2\<rparr>))"

text \<open>\<open>flock(fd, LOCK_EX | LOCK_NB)\<close>: whether it was granted.\<close>

definition flock_nb :: "pid \<Rightarrow> fd \<Rightarrow> os \<Rightarrow> bool \<times> os" where
  "flock_nb p f os =
     (case fd_entry p f os of
        None \<Rightarrow> (False, os)
      | Some (d, _) \<Rightarrow>
          (case os_lock os (os_target os d) of
             None \<Rightarrow> (True, os\<lparr>os_lock := (os_lock os)(os_target os d \<mapsto> d)\<rparr>)
           | Some h \<Rightarrow> (h = d, os)))"

text \<open>The last descriptor of an open file description takes its lock with it.\<close>

definition release_lock :: "ofd \<Rightarrow> os \<Rightarrow> os" where
  "release_lock d os =
     (if d \<in> (fst \<circ> snd) ` set (os_open os) then os
      else os\<lparr>os_lock := (\<lambda>i. if os_lock os i = Some d then None else os_lock os i)\<rparr>)"

definition close_fd :: "pid \<Rightarrow> fd \<Rightarrow> os \<Rightarrow> os" where
  "close_fd p f os =
     (case fd_entry p f os of
        None \<Rightarrow> os
      | Some (d, _) \<Rightarrow> release_lock d (os\<lparr>os_open := filter (\<lambda>e. fst e \<noteq> (p, f)) (os_open os)\<rparr>))"

definition dup_fd :: "pid \<Rightarrow> fd \<Rightarrow> fd \<Rightarrow> bool \<Rightarrow> os \<Rightarrow> os" where
  "dup_fd p from to cloexec os =
     (case fd_entry p from os of
        None \<Rightarrow> os
      | Some (d, _) \<Rightarrow> os\<lparr>os_open := ((p, to), (d, cloexec)) # os_open os\<rparr>)"

text \<open>\<open>dup2\<close> closes the destination first and does nothing when the two are equal.\<close>

definition dup2 :: "pid \<Rightarrow> fd \<Rightarrow> fd \<Rightarrow> os \<Rightarrow> os" where
  "dup2 p from to os = (if from = to then os else dup_fd p from to False (close_fd p to os))"

definition set_cloexec :: "pid \<Rightarrow> fd \<Rightarrow> bool \<Rightarrow> os \<Rightarrow> os" where
  "set_cloexec p f b os =
     os\<lparr>os_open := map (\<lambda>e. if fst e = (p, f) then (fst e, (fst (snd e), b)) else e) (os_open os)\<rparr>"

definition fork_process :: "pid \<Rightarrow> pid \<Rightarrow> os \<Rightarrow> os" where
  "fork_process parent child os =
     os\<lparr>os_open := map (\<lambda>((p, f), x). ((child, f), x)) (filter (\<lambda>e. fst (fst e) = parent) (os_open os)) @ os_open os\<rparr>"

definition exec_process :: "pid \<Rightarrow> os \<Rightarrow> os" where
  "exec_process p os =
     fold (\<lambda>f. close_fd p f) (map (snd \<circ> fst) (filter (\<lambda>e. fst (fst e) = p \<and> snd (snd e)) (os_open os))) os"

definition exit_process :: "pid \<Rightarrow> os \<Rightarrow> os" where
  "exit_process p os = fold (\<lambda>f. close_fd p f) (fds_of p os) os"

section \<open>Leases\<close>

record display_lease =
  dl_number :: u16
  dl_base :: string
  dl_lock :: fd

datatype alloc_error =
    OpenFailed string
  | NoFreeDisplay u16 u16
  | NotADescriptor int
  | StatFailed string
  | BadDescriptor
  | WrongFile u16 string
  | NotClaimed u16

definition lease_display_name :: "display_lease \<Rightarrow> string" where
  "lease_display_name lease = CHR '':'' # show_u16 (dl_number lease)"

definition lock_path :: "string \<Rightarrow> u16 \<Rightarrow> string" where
  "lock_path base number = path_join base (''display-'' @ show_u16 number @ ''.lock'')"

definition owner_path :: "string \<Rightarrow> u16 \<Rightarrow> string" where
  "owner_path base number = path_join base (''display-'' @ show_u16 number @ ''.owner'')"

definition owner_of :: "string \<Rightarrow> u16 \<Rightarrow> fs \<Rightarrow> string option" where
  "owner_of base number fs =
     Option.bind (fs_read_to_string (owner_path base number) fs)
       (\<lambda>buf. let user = str_trim buf in if user = [] then None else Some user)"

definition record_owner :: "display_lease \<Rightarrow> string \<Rightarrow> fs \<Rightarrow> (registry_error + unit) \<times> fs" where
  "record_owner lease user fs =
     (let path = owner_path (dl_base lease) (dl_number lease)
      in case fs_write path user fs of
        (Inl e, fs) \<Rightarrow> (Inl (WriteFailed path e), fs)
      | (Inr _, fs) \<Rightarrow> (case fs_set_permissions path MODE_PRIVATE fs of
            (Inl e, fs) \<Rightarrow> (Inl (ChmodFailed path e), fs)
          | (Inr _, fs) \<Rightarrow> (Inr (), fs)))"

definition drop_lease :: "pid \<Rightarrow> display_lease \<Rightarrow> os \<times> fs \<Rightarrow> os \<times> fs" where
  "drop_lease p lease = (\<lambda>(os, fs).
     (close_fd p (dl_lock lease) os, snd (fs_remove_file (owner_path (dl_base lease) (dl_number lease)) fs)))"

definition lock_is_free :: "pid \<Rightarrow> string \<Rightarrow> u16 \<Rightarrow> os \<Rightarrow> bool \<times> os" where
  "lock_is_free p base number os =
     (case open_file True p (lock_path base number) os of
        None \<Rightarrow> (False, os)
      | Some (f, os) \<Rightarrow> (case flock_nb p f os of (locked, os) \<Rightarrow> (locked, close_fd p f os)))"

fun allocate_loop :: "pid \<Rightarrow> string \<Rightarrow> u16 list \<Rightarrow> (u16 \<Rightarrow> bool) \<Rightarrow> os \<Rightarrow> (alloc_error + display_lease option) \<times> os" where
  "allocate_loop p base [] served os = (Inr None, os)"
| "allocate_loop p base (number # rest) served os =
     (case open_file True p (lock_path base number) os of
        None \<Rightarrow> (Inl (OpenFailed (lock_path base number)), os)
      | Some (f, os) \<Rightarrow>
          (case flock_nb p f os of (locked, os) \<Rightarrow>
             if locked \<and> \<not> served number
             then (Inr (Some \<lparr>dl_number = number, dl_base = base, dl_lock = f\<rparr>), os)
             else allocate_loop p base rest served (close_fd p f os)))"

definition allocate_with :: "pid \<Rightarrow> string \<Rightarrow> display_range \<Rightarrow> (u16 \<Rightarrow> bool) \<Rightarrow> os \<Rightarrow> (alloc_error + display_lease) \<times> os" where
  "allocate_with p base slots served os =
     (case allocate_loop p base (range_numbers slots) served os of
        (Inl e, os) \<Rightarrow> (Inl e, os)
      | (Inr None, os) \<Rightarrow> (Inl (NoFreeDisplay (fst slots) (snd slots)), os)
      | (Inr (Some lease), os) \<Rightarrow> (Inr lease, os))"

definition into_handoff_fd :: "display_lease \<Rightarrow> fd" where
  "into_handoff_fd lease = dl_lock lease"

text \<open>A refused descriptor is closed: \<open>from_raw_fd\<close> has taken ownership of it.\<close>

definition adopt :: "pid \<Rightarrow> string \<Rightarrow> u16 \<Rightarrow> int \<Rightarrow> os \<Rightarrow> (alloc_error + display_lease) \<times> os" where
  "adopt p base number raw os =
     (if raw < 0 then (Inl (NotADescriptor raw), os)
      else
       let f = nat raw; path = lock_path base number
       in case os_inode os path of
            None \<Rightarrow> (Inl (StatFailed path), close_fd p f os)
          | Some expected \<Rightarrow>
              (case fd_entry p f os of
                 None \<Rightarrow> (Inl BadDescriptor, os)
               | Some (d, _) \<Rightarrow>
                   if os_target os d \<noteq> expected then (Inl (WrongFile number path), close_fd p f os)
                   else case open_file False p path os of
                     None \<Rightarrow> (Inl (OpenFailed path), close_fd p f os)
                   | Some (probe, os) \<Rightarrow>
                       (case flock_nb p probe os of (free, os) \<Rightarrow>
                          let os = close_fd p probe os
                          in if free then (Inl (NotClaimed number), close_fd p f os)
                             else (Inr \<lparr>dl_number = number, dl_base = base, dl_lock = f\<rparr>, set_cloexec p f True os))))"

section \<open>The hand-over\<close>

definition KEEPER_LOCK_FD :: fd where "KEEPER_LOCK_FD = 4"
definition KEEPER_ACCOUNT_FD :: fd where "KEEPER_ACCOUNT_FD = 5"

text \<open>\<open>spawn_keeper\<close>: the account claim is first copied out of the way, the child places
  both claims on their fixed descriptors and clears close-on-exec, then it execs the
  keeper; the worker drops its copy.\<close>

definition spawn_keeper :: "pid \<Rightarrow> pid \<Rightarrow> fd \<Rightarrow> fd \<Rightarrow> os \<Rightarrow> os" where
  "spawn_keeper worker keeper lock_fd account_fd os =
     (let copy = lowest_fd 10 worker os;
          os = dup_fd worker account_fd copy True os;
          os = fork_process worker keeper os;
          os = dup2 keeper lock_fd KEEPER_LOCK_FD os;
          os = set_cloexec keeper KEEPER_ACCOUNT_FD False (dup2 keeper copy KEEPER_ACCOUNT_FD os);
          os = set_cloexec keeper KEEPER_LOCK_FD False os;
          os = exec_process keeper os
      in close_fd worker copy os)"

text \<open>\<open>keeper_main\<close> forks before it does anything else: the process the worker waits for
  exits at once and the session belongs to the one forked, which inherits every descriptor.
  The worker's copy is closed when \<open>spawn_keeper\<close> has returned.\<close>

definition detach_keeper :: "pid \<Rightarrow> pid \<Rightarrow> os \<Rightarrow> os" where
  "detach_keeper started keeper os = exit_process started (fork_process started keeper os)"

definition hand_over :: "pid \<Rightarrow> pid \<Rightarrow> pid \<Rightarrow> display_lease \<Rightarrow> fd \<Rightarrow> os \<Rightarrow> os" where
  "hand_over worker started keeper lease account_fd os =
     (let lock_fd = into_handoff_fd lease
      in close_fd worker lock_fd (detach_keeper started keeper (spawn_keeper worker started lock_fd account_fd os)))"

text \<open>A helper forked and waited for, such as the writer of the X cookie.\<close>

definition run_helper :: "pid \<Rightarrow> pid \<Rightarrow> os \<Rightarrow> os" where
  "run_helper parent child os = exit_process child (fork_process parent child os)"

text \<open>A foreign program started by \<open>spawn_child\<close> or by the supervisor.\<close>

definition spawn_program :: "pid \<Rightarrow> pid \<Rightarrow> os \<Rightarrow> os" where
  "spawn_program parent child os = exec_process child (fork_process parent child os)"

section \<open>Descriptor tables, key by key\<close>

definition keys_ok :: "os \<Rightarrow> bool" where
  "keys_ok os \<longleftrightarrow> distinct (map fst (os_open os))"

definition referenced :: "ofd \<Rightarrow> os \<Rightarrow> bool" where
  "referenced d os \<longleftrightarrow> (\<exists>p f c. fd_entry p f os = Some (d, c))"

lemma referenced_image: "keys_ok os \<Longrightarrow> d \<in> (fst \<circ> snd) ` set (os_open os) \<longleftrightarrow> referenced d os"
  by (auto simp: referenced_def fd_entry_def keys_ok_def image_iff intro: map_of_is_SomeI dest!: map_of_SomeD) force+

lemma fds_of_entry: "f \<in> set (fds_of p os) \<longleftrightarrow> fd_entry p f os \<noteq> None"
  by (force simp: fds_of_def fd_entry_def map_of_eq_None_iff image_iff)

lemma lowest_fd_laws: "fd_entry p (lowest_fd from p os) os = None" "from \<le> lowest_fd from p os"
proof -
  let ?used = "fds_of p os" and ?xs = "[from ..< Suc (from + length (fds_of p os))]"
  have "card (set ?used) < card (set ?xs)" using card_length [of ?used] by (simp add: le_imp_less_Suc)
  then have "\<not> set ?xs \<subseteq> set ?used" using card_mono [of "set ?used" "set ?xs"] by (meson List.finite_set leD)
  then obtain n where "n \<in> set ?xs" "n \<notin> set ?used" by blast
  then have "n \<in> set (filter (\<lambda>n. n \<notin> set ?used) ?xs)" by (simp only: set_filter mem_Collect_eq simp_thms)
  then have "filter (\<lambda>n. n \<notin> set ?used) ?xs \<noteq> []" by (metis empty_iff list.set(1))
  from hd_in_set [OF this] have l: "lowest_fd from p os \<in> set (filter (\<lambda>n. n \<notin> set ?used) ?xs)" by (simp add: lowest_fd_def)
  then have "lowest_fd from p os \<notin> set ?used" "lowest_fd from p os \<in> set ?xs" 
    unfolding set_filter by blast+
  then show "fd_entry p (lowest_fd from p os) os = None" "from \<le> lowest_fd from p os"
    using fds_of_entry [of "lowest_fd from p os" p os] by (blast, simp only: set_upt atLeastLessThan_iff)
qed

text \<open>What each system call does to every descriptor of every process.\<close>

lemma keys_fresh: "fd_entry p f os = None \<longleftrightarrow> (p, f) \<notin> fst ` set (os_open os)"
  by (simp add: fd_entry_def map_of_eq_None_iff)

lemma close_fd_entry:
  "fd_entry p' f' (close_fd p f os) = (if (p', f') = (p, f) then None else fd_entry p' f' os)"
proof (cases "fd_entry p f os")
  case None
  then show ?thesis by (auto simp: close_fd_def)
next
  case (Some x)
  then obtain d c where x: "fd_entry p f os = Some (d, c)" by (cases x) auto
  have "map_of (filter (\<lambda>e. fst e \<noteq> k) l) k' = (if k' = k then None else map_of l k')" for k k' and l :: "((pid \<times> fd) \<times> ofd \<times> bool) list"
    by (induction l) auto
  with x show ?thesis by (simp add: close_fd_def release_lock_def fd_entry_def)
qed

lemma close_fd_keys: "keys_ok os \<Longrightarrow> keys_ok (close_fd p f os)"
  by (auto simp: keys_ok_def close_fd_def release_lock_def distinct_map_filter split: option.splits)

lemma close_fd_frame [simp]:
  "os_inode (close_fd p f os) = os_inode os" "os_target (close_fd p f os) = os_target os"
  "os_fresh (close_fd p f os) = os_fresh os" "os_refused (close_fd p f os) = os_refused os"
  by (auto simp: close_fd_def release_lock_def split: option.splits)

lemma close_fd_lock:
  assumes "keys_ok os"
  shows "os_lock (close_fd p f os) i =
    (case os_lock os i of None \<Rightarrow> None
     | Some d \<Rightarrow> if (\<exists>c. fd_entry p f os = Some (d, c)) \<and> \<not> referenced d (close_fd p f os) then None else Some d)"
proof (cases "fd_entry p f os")
  case None
  then show ?thesis by (simp add: close_fd_def split: option.splits)
next
  case (Some x)
  then obtain d c where x: "fd_entry p f os = Some (d, c)" by (cases x) auto
  define os' where "os' = os\<lparr>os_open := filter (\<lambda>e. fst e \<noteq> (p, f)) (os_open os)\<rparr>"
  have close: "close_fd p f os = release_lock d os'" using x by (simp add: close_fd_def os'_def)
  have ok: "keys_ok os'" using assms by (simp add: os'_def keys_ok_def distinct_map_filter)
  have "referenced e (release_lock d os') = referenced e os'" for e
    by (simp add: referenced_def fd_entry_def release_lock_def)
  with close referenced_image [OF ok, of d] x show ?thesis
    by (auto simp: release_lock_def os'_def split: option.splits)
qed

lemma open_fileE:
  assumes "open_file create p path os = Some (f, os')"
  obtains i d where "fd_entry p f os = None" "d = Suc (os_fresh os)" "os_inode os' = (os_inode os)(path \<mapsto> i)"
    "os_target os' = (os_target os)(d := i)" "os_lock os' = os_lock os" "os_fresh os' = os_fresh os + 2"
    "os_refused os' = os_refused os" "\<And>p' f'. fd_entry p' f' os' = (if (p', f') = (p, f) then Some (d, True) else fd_entry p' f' os)"
    "keys_ok os \<Longrightarrow> keys_ok os'" "os_inode os path = Some i \<or> (os_inode os path = None \<and> i = os_fresh os)"
proof -
  from assms have f: "f = lowest_fd 0 p os" by (auto simp: open_file_def Let_def split: if_splits)
  with lowest_fd_laws have free: "fd_entry p f os = None" by simp
  define i where "i = (case os_inode os path of Some i \<Rightarrow> i | None \<Rightarrow> os_fresh os)"
  from assms have os': "os' = os\<lparr>os_inode := (os_inode os)(path \<mapsto> i), os_target := (os_target os)(Suc (os_fresh os) := i),
      os_open := ((p, f), (Suc (os_fresh os), True)) # os_open os, os_fresh := os_fresh os + 2\<rparr>"
    by (auto simp: open_file_def Let_def i_def split: if_splits)
  show thesis
  proof (rule that [OF free refl, of i])
    show "keys_ok os \<Longrightarrow> keys_ok os'" using free by (auto simp: os' keys_ok_def keys_fresh)
    show "os_inode os path = Some i \<or> (os_inode os path = None \<and> i = os_fresh os)" by (auto simp: i_def split: option.splits)
  qed (simp_all add: os' fd_entry_def)
qed

lemma flock_nb_frame [simp]:
  "flock_nb p f os = (b, os') \<Longrightarrow> fd_entry p' f' os' = fd_entry p' f' os"
  "flock_nb p f os = (b, os') \<Longrightarrow> os_inode os' = os_inode os"
  "flock_nb p f os = (b, os') \<Longrightarrow> os_target os' = os_target os"
  "flock_nb p f os = (b, os') \<Longrightarrow> os_fresh os' = os_fresh os"
  "flock_nb p f os = (b, os') \<Longrightarrow> keys_ok os' = keys_ok os"
  by (auto simp: flock_nb_def fd_entry_def keys_ok_def split: option.splits)

lemma flock_nb_lock:
  assumes "flock_nb p f os = (b, os')" "fd_entry p f os = Some (d, c)"
  shows "b \<longleftrightarrow> os_lock os (os_target os d) \<in> {None, Some d}"
    "os_lock os' = (if b then (os_lock os)(os_target os d \<mapsto> d) else os_lock os)"
proof -
  consider "os_lock os (os_target os d) = None" "b" "os' = os\<lparr>os_lock := (os_lock os)(os_target os d \<mapsto> d)\<rparr>"
    | h where "os_lock os (os_target os d) = Some h" "b = (h = d)" "os' = os"
    using assms by (cases "os_lock os (os_target os d)") (simp_all add: flock_nb_def)
  then have "(b \<longleftrightarrow> os_lock os (os_target os d) \<in> {None, Some d}) \<and>
    os_lock os' = (if b then (os_lock os)(os_target os d \<mapsto> d) else os_lock os)"
  proof cases
    case 1
    then show ?thesis by simp
  next
    case (2 h)
    show ?thesis
    proof (cases "h = d")
      case True
      with 2(1) have "(os_lock os)(os_target os d \<mapsto> d) = os_lock os" by (simp add: fun_upd_idem)
      with 2 True show ?thesis by simp
    qed (simp add: 2)
  qed
  then show "b \<longleftrightarrow> os_lock os (os_target os d) \<in> {None, Some d}"
    "os_lock os' = (if b then (os_lock os)(os_target os d \<mapsto> d) else os_lock os)" by blast+
qed

section \<open>Well-formed kernel states and claims\<close>

definition os_ok :: "os \<Rightarrow> bool" where
  "os_ok os \<longleftrightarrow> keys_ok os \<and>
     (\<forall>p f d c. fd_entry p f os = Some (d, c) \<longrightarrow> d < os_fresh os) \<and>
     (\<forall>path i. os_inode os path = Some i \<longrightarrow> i < os_fresh os) \<and>
     (\<forall>path path' i. os_inode os path = Some i \<longrightarrow> os_inode os path' = Some i \<longrightarrow> path' = path) \<and>
     (\<forall>i d. os_lock os i = Some d \<longrightarrow> os_target os d = i) \<and>
     (\<forall>i d. os_lock os i = Some d \<longrightarrow> referenced d os)"

lemma os_okD:
  assumes "os_ok os"
  shows "keys_ok os" "\<And>p f d c. fd_entry p f os = Some (d, c) \<Longrightarrow> d < os_fresh os"
    "\<And>path i. os_inode os path = Some i \<Longrightarrow> i < os_fresh os"
    "\<And>path path' i. os_inode os path = Some i \<Longrightarrow> os_inode os path' = Some i \<Longrightarrow> path' = path"
    "\<And>i d. os_lock os i = Some d \<Longrightarrow> os_target os d = i" "\<And>i d. os_lock os i = Some d \<Longrightarrow> referenced d os"
  using assms unfolding os_ok_def by blast+

lemma os_okI:
  assumes "keys_ok os" "\<And>p f d c. fd_entry p f os = Some (d, c) \<Longrightarrow> d < os_fresh os"
    "\<And>path i. os_inode os path = Some i \<Longrightarrow> i < os_fresh os"
    "\<And>path path' i. os_inode os path = Some i \<Longrightarrow> os_inode os path' = Some i \<Longrightarrow> path' = path"
    "\<And>i d. os_lock os i = Some d \<Longrightarrow> os_target os d = i" "\<And>i d. os_lock os i = Some d \<Longrightarrow> referenced d os"
  shows "os_ok os"
  using assms unfolding os_ok_def by blast

lemma referenced_low: "os_ok os \<Longrightarrow> referenced d os \<Longrightarrow> d < os_fresh os"
  unfolding referenced_def using os_okD(2) by blast

text \<open>Descriptor \<open>f\<close> of process \<open>p\<close> is the claim on \<open>path\<close>: its open file description holds
  the lock and no other descriptor anywhere refers to it.\<close>

definition sole :: "ofd \<Rightarrow> pid \<Rightarrow> fd \<Rightarrow> os \<Rightarrow> bool" where
  "sole d p f os \<longleftrightarrow> (\<forall>p' f' c'. fd_entry p' f' os = Some (d, c') \<longrightarrow> p' = p \<and> f' = f)"

definition holds :: "pid \<Rightarrow> fd \<Rightarrow> string \<Rightarrow> os \<Rightarrow> bool" where
  "holds p f path os \<longleftrightarrow> (\<exists>d c. fd_entry p f os = Some (d, c) \<and> os_inode os path = Some (os_target os d) \<and>
     os_lock os (os_target os d) = Some d \<and> sole d p f os)"

lemma holdsE:
  assumes "holds p f path os"
  obtains d c where "fd_entry p f os = Some (d, c)" "os_inode os path = Some (os_target os d)"
    "os_lock os (os_target os d) = Some d" "sole d p f os"
  using assms by (auto simp: holds_def)

lemma holdsI:
  assumes "fd_entry p f os = Some (d, c)" "os_inode os path = Some (os_target os d)"
    "os_lock os (os_target os d) = Some d" "sole d p f os"
  shows "holds p f path os"
  using assms by (auto simp: holds_def)

lemma soleD: "sole d p f os \<Longrightarrow> fd_entry p' f' os = Some (d, c) \<Longrightarrow> p' = p \<and> f' = f"
  by (auto simp: sole_def)

lemma holds_unique: "holds p f path os \<Longrightarrow> holds p' f' path os \<Longrightarrow> p' = p \<and> f' = f"
  by (elim holdsE) (auto dest: soleD)

text \<open>A change of the kernel state that keeps a claim.\<close>

lemma holds_kept:
  assumes "holds p f path os"
    and "\<And>d c. fd_entry p f os = Some (d, c) \<Longrightarrow> sole d p f os \<Longrightarrow> (\<exists>c'. fd_entry p f os' = Some (d, c')) \<and> sole d p f os' \<and>
      os_target os' d = os_target os d"
    and "\<And>path i. os_inode os path = Some i \<Longrightarrow> os_inode os' path = Some i"
    and "\<And>d c. fd_entry p f os = Some (d, c) \<Longrightarrow> os_lock os (os_target os d) = Some d \<Longrightarrow> os_lock os' (os_target os d) = Some d"
  shows "holds p f path os'"
  using assms(1)
proof (cases rule: holdsE)
  case (1 d c)
  with assms(2) obtain c' where "fd_entry p f os' = Some (d, c')" "sole d p f os'" "os_target os' d = os_target os d" by blast
  moreover have "os_inode os' path = Some (os_target os d)" using assms(3) 1(2) .
  moreover have "os_lock os' (os_target os d) = Some d" using assms(4) 1(1,3) .
  ultimately show ?thesis by (intro holdsI) simp_all
qed

text \<open>A step of one process that disturbs no descriptor and no claim that existed.\<close>

definition stable :: "os \<Rightarrow> os \<Rightarrow> bool" where
  "stable os os' \<longleftrightarrow> (\<forall>q g x. fd_entry q g os = Some x \<longrightarrow> fd_entry q g os' = Some x) \<and>
     (\<forall>q g path. holds q g path os \<longrightarrow> holds q g path os') \<and>
     (\<forall>path i. os_inode os path = Some i \<longrightarrow> os_inode os' path = Some i)"

lemma stable_refl: "stable os os"
  by (simp add: stable_def)

lemma stable_trans: "stable a b \<Longrightarrow> stable b c \<Longrightarrow> stable a c"
  by (simp add: stable_def)

lemma stable_entry: "stable os os' \<Longrightarrow> fd_entry q g os = Some x \<Longrightarrow> fd_entry q g os' = Some x"
  by (cases x) (simp add: stable_def)

lemma stable_None: "stable os os' \<Longrightarrow> fd_entry q g os' = None \<Longrightarrow> fd_entry q g os = None"
  by (cases "fd_entry q g os") (auto simp: stable_def)

lemma stable_holds: "stable os os' \<Longrightarrow> holds q g path os \<Longrightarrow> holds q g path os'"
  by (simp add: stable_def)

lemma open_file_ok:
  assumes "os_ok os" "open_file create p path os = Some (f, os')"
  obtains d where "os_ok os'" "stable os os'" "fd_entry p f os = None"
    "fd_entry p f os' = Some (d, True)" "os_inode os' path = Some (os_target os' d)" "sole d p f os'"
    "\<forall>i. os_lock os' i \<noteq> Some d" "os_lock os' = os_lock os"
  using assms(2)
proof (cases rule: open_fileE)
  case (1 i d)
  note ok = os_okD [OF assms(1)]
  have new: "e \<noteq> d" if "fd_entry q g os = Some (e, c)" for q g e c using ok(2) [OF that] 1(2) by simp
  have lk: "e \<noteq> d" if "os_lock os j = Some e" for e j
    using referenced_low [OF assms(1) ok(6) [OF that]] 1(2) by simp
  have inode: "os_inode os' path' = Some j" if "os_inode os path' = Some j" for path' j
    using that 1(10) by (auto simp: 1(3))
  have ref: "referenced e os'" if "referenced e os" for e
    using that 1(1) unfolding referenced_def 1(8) by (metis option.distinct(1) prod.inject)
  have i: "i \<le> os_fresh os" "\<And>path'. os_inode os path' = Some i \<Longrightarrow> path' = path"
    using 1(10) ok(3,4) by (auto simp: less_imp_le)
  have "os_ok os'"
  proof (rule os_okI)
    show "keys_ok os'" by (rule 1(9) [OF ok(1)])
    show "e < os_fresh os'" if "fd_entry q g os' = Some (e, c)" for q g e c
      using that ok(2) [of q g e c] 1(2) by (auto simp: 1(6,8) split: if_splits)
    show "j < os_fresh os'" if "os_inode os' path' = Some j" for path' j
      using that i(1) ok(3) [of path' j] by (auto simp: 1(3,6) split: if_splits)
    show "path2 = path1" if "os_inode os' path1 = Some j" "os_inode os' path2 = Some j" for path1 path2 j
      using that i ok(4) [of path1 j path2] 1(10) ok(3) by (auto simp: 1(3) split: if_splits)
    show "os_target os' e = j" if "os_lock os' j = Some e" for j e
      using that ok(5) lk by (simp add: 1(4,5))
    show "referenced e os'" if "os_lock os' j = Some e" for j e
      using that ok(6) ref by (simp add: 1(5))
  qed
  moreover have "holds q g path' os'" if "holds q g path' os" for q g path'
  proof (rule holds_kept [OF that])
    fix e c assume e: "fd_entry q g os = Some (e, c)" "sole e q g os"
    have "(q, g) \<noteq> (p, f)" using e(1) 1(1) by auto
    with e new [OF e(1)] show "(\<exists>c'. fd_entry q g os' = Some (e, c')) \<and> sole e q g os' \<and> os_target os' e = os_target os e"
      by (auto simp: 1(8,4) sole_def)
  qed (use inode in \<open>simp_all add: 1(5)\<close>)
  moreover have "sole d p f os'" unfolding sole_def 1(8) using new by (auto split: if_splits)
  moreover have "\<forall>i. os_lock os' i \<noteq> Some d" using lk by (auto simp: 1(5))
  moreover have "fd_entry q g os' = Some x" if "fd_entry q g os = Some x" for q g x
    using that 1(1) by (auto simp: 1(8))
  ultimately show thesis
    using inode by (intro that [of d]) (simp_all add: stable_def 1(1,3,4,5,8))
qed

lemma flock_ok:
  assumes "os_ok os" "flock_nb p f os = (b, os')" "fd_entry p f os = Some (d, c)"
  shows "os_ok os'" "holds q g path os \<Longrightarrow> holds q g path os'"
    "b \<Longrightarrow> sole d p f os \<Longrightarrow> os_inode os path = Some (os_target os d) \<Longrightarrow> holds p f path os'"
    "\<not> b \<Longrightarrow> os' = os"
proof -
  note ok = os_okD [OF assms(1)] and lock = flock_nb_lock [OF assms(2,3)] and fr = flock_nb_frame [OF assms(2)]
  have ref: "referenced e os' = referenced e os" for e by (simp add: referenced_def fr)
  have sole: "sole e q g os' = sole e q g os" for e q g by (simp add: sole_def fr)
  show "os_ok os'"
    by (rule os_okI) (use ok assms(3) in \<open>auto simp: fr ref lock(2) referenced_def split: if_splits\<close>)
  show "holds q g path os'" if "holds q g path os"
  proof (rule holds_kept [OF that])
    show "os_lock os' (os_target os e) = Some e" if "os_lock os (os_target os e) = Some e" for e
      using that lock by (cases "os_target os e = os_target os d") auto
  qed (simp_all add: fr sole)
  show "holds p f path os'" if "b" "sole d p f os" "os_inode os path = Some (os_target os d)"
    using that assms(3) lock(2) by (intro holdsI [of _ _ _ d c]) (simp_all add: fr sole)
  show "os' = os" if "\<not> b"
    using that assms(2,3) by (cases "os_lock os (os_target os d)") (simp_all add: flock_nb_def)
qed

lemma close_fd_ok:
  assumes "os_ok os"
  shows "os_ok (close_fd p f os)" "holds q g path os \<Longrightarrow> (q, g) \<noteq> (p, f) \<Longrightarrow> holds q g path (close_fd p f os)"
proof -
  note ok = os_okD [OF assms] and lock = close_fd_lock [OF ok(1), of p f] and entry = close_fd_entry [of _ _ p f os]
  have kept: "referenced e (close_fd p f os)" if "referenced e os" "\<nexists>c. fd_entry p f os = Some (e, c)" for e
    using that unfolding referenced_def entry by (metis prod.inject)
  show "os_ok (close_fd p f os)"
  proof (rule os_okI)
    show "keys_ok (close_fd p f os)" by (rule close_fd_keys [OF ok(1)])
    show "referenced e (close_fd p f os)" if "os_lock (close_fd p f os) j = Some e" for j e
    proof -
      from that have e: "os_lock os j = Some e" "(\<nexists>c. fd_entry p f os = Some (e, c)) \<or> referenced e (close_fd p f os)"
        by (auto simp: lock split: option.splits if_splits)
      with kept ok(6) show ?thesis by blast
    qed
  qed (use ok(2-5) in \<open>auto simp: entry lock split: if_splits option.splits\<close>)
  show "holds q g path (close_fd p f os)" if h: "holds q g path os" and ne: "(q, g) \<noteq> (p, f)"
  proof (rule holds_kept [OF h])
    fix d c assume d: "fd_entry q g os = Some (d, c)"
    show "(\<exists>c'. fd_entry q g (close_fd p f os) = Some (d, c')) \<and> sole d q g (close_fd p f os) \<and>
        os_target (close_fd p f os) d = os_target os d" if "sole d q g os"
      using d ne that by (auto simp: entry sole_def)
    have "referenced d (close_fd p f os)" unfolding referenced_def entry using d ne by (intro exI [of _ q] exI [of _ g] exI [of _ c]) simp
    then show "os_lock (close_fd p f os) (os_target os d) = Some d" if "os_lock os (os_target os d) = Some d"
      using that by (simp add: lock)
  qed simp_all
qed

section \<open>A freshly forked child\<close>

text \<open>Between \<open>fork\<close> and \<open>exec\<close> a child touches only its own table, and everything in it is
  still held open by its parent: no lock can be lost.\<close>

definition child_view :: "pid \<Rightarrow> pid \<Rightarrow> os \<Rightarrow> os \<Rightarrow> bool" where
  "child_view w k os os' \<longleftrightarrow> keys_ok os' \<and> os_lock os' = os_lock os \<and> os_inode os' = os_inode os \<and>
     os_target os' = os_target os \<and> os_fresh os' = os_fresh os \<and> os_refused os' = os_refused os \<and>
     (\<forall>p f. p \<noteq> k \<longrightarrow> fd_entry p f os' = fd_entry p f os) \<and>
     (\<forall>f d c. fd_entry k f os' = Some (d, c) \<longrightarrow> (\<exists>f' c'. fd_entry w f' os = Some (d, c')))"

lemma map_of_copies:
  "map_of (map (\<lambda>((p, f), x). ((k, f), x)) (filter (\<lambda>e. fst (fst e) = w) l)) (p', f') =
     (if p' = k then map_of l (w, f') else None)"
  by (induction l) auto

lemma fork_entry:
  assumes "\<And>f. fd_entry k f os = None"
  shows "fd_entry p f (fork_process w k os) = (if p = k then fd_entry w f os else fd_entry p f os)"
  using assms by (auto simp: fd_entry_def fork_process_def map_add_def map_of_copies split: option.splits)

lemma fork_child:
  assumes "keys_ok os" "w \<noteq> k" "\<And>f. fd_entry k f os = None"
  shows "child_view w k os (fork_process w k os)"
proof -
  have new: "(k, f) \<notin> fst ` set (os_open os)" for f using assms(3) [of f] by (simp add: keys_fresh)
  have map: "map fst (map (\<lambda>((p, f), x). ((k, f), x)) l) = map (\<lambda>e. (k, snd (fst e))) l" for l :: "((pid \<times> fd) \<times> ofd \<times> bool) list"
    by (induction l) auto
  have inj: "distinct (map (\<lambda>e. (k, snd (fst e))) (filter (\<lambda>e. fst (fst e) = w) l))"
    if "distinct (map fst l)" for l :: "((pid \<times> fd) \<times> ofd \<times> bool) list"
    using that by (induction l) (auto simp: image_iff)
  have "keys_ok (fork_process w k os)"
    using assms(1) new inj [of "os_open os"] by (auto simp: keys_ok_def fork_process_def map simp del: map_map)
  with assms(2,3) show ?thesis by (auto simp: child_view_def fork_entry) (simp_all add: fork_process_def)
qed

lemma child_close:
  assumes "child_view w k os os'" "w \<noteq> k"
  shows "child_view w k os (close_fd k f os')"
proof -
  note v = assms(1) [unfolded child_view_def]
  have "os_lock (close_fd k f os') i = os_lock os' i" for i
  proof (cases "\<exists>d c. os_lock os' i = Some d \<and> fd_entry k f os' = Some (d, c)")
    case True
    then obtain d c f' c' where d: "os_lock os' i = Some d" "fd_entry w f' os = Some (d, c')" using v by blast
    then have "fd_entry w f' (close_fd k f os') = Some (d, c')" using v assms(2) by (simp add: close_fd_entry)
    then have "referenced d (close_fd k f os')" unfolding referenced_def by blast
    with d(1) v show ?thesis by (simp add: close_fd_lock)
  next
    case False
    with v show ?thesis by (auto simp: close_fd_lock split: option.splits)
  qed
  then have "os_lock (close_fd k f os') = os_lock os" using v by auto
  with v close_fd_keys show ?thesis by (auto simp: child_view_def close_fd_entry split: if_splits)
qed

lemma dup_entry:
  assumes "fd_entry p from os = Some (d, c)"
  shows "fd_entry p' f' (dup_fd p from to b os) = (if (p', f') = (p, to) then Some (d, b) else fd_entry p' f' os)"
  using assms by (simp add: dup_fd_def fd_entry_def)

lemma dup_frame [simp]:
  "os_lock (dup_fd p from to b os) = os_lock os" "os_inode (dup_fd p from to b os) = os_inode os"
  "os_target (dup_fd p from to b os) = os_target os" "os_fresh (dup_fd p from to b os) = os_fresh os"
  "os_refused (dup_fd p from to b os) = os_refused os"
  by (simp_all add: dup_fd_def split: option.splits)

lemma dup_keys: "keys_ok os \<Longrightarrow> fd_entry p to os = None \<Longrightarrow> keys_ok (dup_fd p from to b os)"
  by (auto simp: dup_fd_def keys_ok_def keys_fresh split: option.splits)

lemma dup2_entry:
  assumes "fd_entry p from os = Some (d, c)"
  shows "fd_entry p' f' (dup2 p from to os) =
    (if (p', f') = (p, to) then Some (d, if from = to then c else False) else fd_entry p' f' os)"
proof (cases "from = to")
  case False
  then have "fd_entry p from (close_fd p to os) = Some (d, c)" using assms by (simp add: close_fd_entry)
  with False show ?thesis by (simp add: dup2_def dup_entry close_fd_entry)
qed (use assms in \<open>auto simp: dup2_def\<close>)

lemma child_dup2:
  assumes "child_view w k os os'" "w \<noteq> k" "fd_entry k from os' = Some (d, c)"
  shows "child_view w k os (dup2 k from to os')"
proof (cases "from = to")
  case False
  define x where "x = close_fd k to os'"
  have x: "child_view w k os x" "fd_entry k from x = Some (d, c)" "fd_entry k to x = None"
    using child_close [OF assms(1,2)] assms(3) False by (simp_all add: x_def close_fd_entry)
  then have "keys_ok (dup_fd k from to False x)" by (simp add: child_view_def dup_keys)
  moreover obtain f' c' where "fd_entry w f' os = Some (d, c')" using x(1,2) unfolding child_view_def by blast
  ultimately show ?thesis
    using x(1) False by (auto simp: dup2_def x_def [symmetric] child_view_def dup_entry [OF x(2)])
qed (use assms(1) in \<open>simp add: dup2_def\<close>)

lemma cloexec_entry:
  "fd_entry p' f' (set_cloexec p f b os) =
     (if (p', f') = (p, f) then map_option (\<lambda>(d, c). (d, b)) (fd_entry p f os) else fd_entry p' f' os)"
proof -
  have "map_of (map (\<lambda>e. if fst e = k then (fst e, (fst (snd e), b)) else e) l) k' =
      (if k' = k then map_option (\<lambda>(d, c). (d, b)) (map_of l k) else map_of l k')"
    for k k' and l :: "((pid \<times> fd) \<times> ofd \<times> bool) list"
    by (induction l) auto
  then show ?thesis by (simp add: fd_entry_def set_cloexec_def)
qed

lemma cloexec_frame [simp]:
  "os_lock (set_cloexec p f b os) = os_lock os" "os_inode (set_cloexec p f b os) = os_inode os"
  "os_target (set_cloexec p f b os) = os_target os" "os_fresh (set_cloexec p f b os) = os_fresh os"
  "os_refused (set_cloexec p f b os) = os_refused os" "keys_ok (set_cloexec p f b os) = keys_ok os"
proof -
  have "fst \<circ> (\<lambda>e. if fst e = (p, f) then (fst e, (fst (snd e), b)) else e) = (fst :: (pid \<times> fd) \<times> ofd \<times> bool \<Rightarrow> _)"
    by (rule ext) simp
  then show "keys_ok (set_cloexec p f b os) = keys_ok os" by (simp add: keys_ok_def set_cloexec_def)
qed (simp_all add: set_cloexec_def)

lemma child_cloexec: "child_view w k os os' \<Longrightarrow> child_view w k os (set_cloexec k f b os')"
  by (auto simp: child_view_def cloexec_entry split: if_splits)

lemma fold_close_entry:
  "fd_entry p' f' (fold (close_fd p) fs os) = (if p' = p \<and> f' \<in> set fs then None else fd_entry p' f' os)"
  by (induction fs arbitrary: os) (auto simp: close_fd_entry)

lemma exec_entry:
  assumes "keys_ok os"
  shows "fd_entry p' f' (exec_process p os) =
    (if p' = p \<and> (\<exists>d. fd_entry p f' os = Some (d, True)) then None else fd_entry p' f' os)"
proof -
  have "f' \<in> set (map (snd \<circ> fst) (filter (\<lambda>e. fst (fst e) = p \<and> snd (snd e)) (os_open os))) \<longleftrightarrow>
      (\<exists>d. fd_entry p f' os = Some (d, True))"
  proof -
    have "((p, f'), (d, True)) \<in> set (os_open os) \<longleftrightarrow> fd_entry p f' os = Some (d, True)" for d
      using assms by (simp add: fd_entry_def keys_ok_def)
    then show ?thesis by (force simp: image_iff)
  qed
  then show ?thesis unfolding exec_process_def fold_close_entry by simp
qed

lemma child_exec: "child_view w k os os' \<Longrightarrow> w \<noteq> k \<Longrightarrow> child_view w k os (exec_process k os')"
proof -
  have "child_view w k os os' \<Longrightarrow> w \<noteq> k \<Longrightarrow> child_view w k os (fold (close_fd k) fs os')" for fs
    by (induction fs arbitrary: os') (simp_all add: child_close)
  then show "child_view w k os os' \<Longrightarrow> w \<noteq> k \<Longrightarrow> child_view w k os (exec_process k os')" by (simp add: exec_process_def)
qed

text \<open>What \<open>spawn_keeper\<close> leaves: the two claims on their fixed descriptors in the keeper,
  whatever else the worker did not mark close-on-exec, and nothing changed for anybody
  else.\<close>

lemma spawn_keeper_entries:
  assumes "keys_ok os" "w \<noteq> k" "\<And>f. fd_entry k f os = None"
    "fd_entry w lf os = Some (dl, cl)" "fd_entry w af os = Some (da, ca)"
  shows "keys_ok (spawn_keeper w k lf af os)" "os_lock (spawn_keeper w k lf af os) = os_lock os"
    "os_inode (spawn_keeper w k lf af os) = os_inode os" "os_target (spawn_keeper w k lf af os) = os_target os"
    "os_fresh (spawn_keeper w k lf af os) = os_fresh os" "os_refused (spawn_keeper w k lf af os) = os_refused os"
    "\<And>p f. fd_entry p f (spawn_keeper w k lf af os) =
      (if p \<noteq> k then fd_entry p f os
       else if f = KEEPER_LOCK_FD then Some (dl, False)
       else if f = KEEPER_ACCOUNT_FD then Some (da, False)
       else case fd_entry w f os of Some (d, False) \<Rightarrow> Some (d, False) | _ \<Rightarrow> None)"
proof -
  define copy where "copy = lowest_fd 10 w os"
  have copy: "fd_entry w copy os = None" "10 \<le> copy" unfolding copy_def by (rule lowest_fd_laws)+
  then have ne: "copy \<noteq> lf" "copy \<noteq> af" "copy \<noteq> KEEPER_LOCK_FD" "copy \<noteq> KEEPER_ACCOUNT_FD" "KEEPER_ACCOUNT_FD \<noteq> KEEPER_LOCK_FD"
    using assms(4,5) by (auto simp: KEEPER_LOCK_FD_def KEEPER_ACCOUNT_FD_def)
  define o1 where "o1 = dup_fd w af copy True os"
  have e1: "fd_entry p f o1 = (if (p, f) = (w, copy) then Some (da, True) else fd_entry p f os)" for p f
    unfolding o1_def by (rule dup_entry [OF assms(5)])
  have k1: "keys_ok o1" unfolding o1_def by (rule dup_keys [OF assms(1) copy(1)])
  have none: "fd_entry k f o1 = None" for f using assms(2,3) by (simp add: e1)
  define o2 where "o2 = fork_process w k o1"
  have v2: "child_view w k o1 o2" unfolding o2_def by (rule fork_child [OF k1 assms(2) none])
  have e2: "fd_entry p f o2 = (if p = k then fd_entry w f o1 else fd_entry p f o1)" for p f
    unfolding o2_def by (rule fork_entry [OF none])
  have l2: "fd_entry k lf o2 = Some (dl, cl)" using assms(4) ne by (simp add: e2 e1)
  define o3 where "o3 = dup2 k lf KEEPER_LOCK_FD o2"
  have v3: "child_view w k o1 o3" unfolding o3_def by (rule child_dup2 [OF v2 assms(2) l2])
  note e3 = dup2_entry [OF l2, of _ _ KEEPER_LOCK_FD, folded o3_def]
  have l3: "fd_entry k copy o3 = Some (da, True)" using ne by (simp add: e3 e2 e1)
  define o4 where "o4 = set_cloexec k KEEPER_ACCOUNT_FD False (dup2 k copy KEEPER_ACCOUNT_FD o3)"
  have v4: "child_view w k o1 o4" unfolding o4_def by (rule child_cloexec [OF child_dup2 [OF v3 assms(2) l3]])
  have e4: "fd_entry p f o4 = (if (p, f) = (k, KEEPER_ACCOUNT_FD) then Some (da, False) else fd_entry p f o3)" for p f
    unfolding o4_def cloexec_entry dup2_entry [OF l3] by simp
  define o5 where "o5 = set_cloexec k KEEPER_LOCK_FD False o4"
  have v5: "child_view w k o1 o5" unfolding o5_def by (rule child_cloexec [OF v4])
  have e5: "fd_entry p f o5 = (if (p, f) = (k, KEEPER_LOCK_FD) then Some (dl, False) else fd_entry p f o4)" for p f
    unfolding o5_def cloexec_entry using ne by (simp add: e4 e3)
  define o6 where "o6 = exec_process k o5"
  have v6: "child_view w k o1 o6" unfolding o6_def by (rule child_exec [OF v5 assms(2)])
  note e6 = exec_entry [OF v5 [unfolded child_view_def, THEN conjunct1], of _ _ k, folded o6_def]
  have final: "spawn_keeper w k lf af os = close_fd w copy o6"
    by (simp add: spawn_keeper_def Let_def copy_def o6_def o5_def o4_def o3_def o2_def o1_def)
  note v = v6 [unfolded child_view_def]
  have a6: "fd_entry w af o6 = Some (da, ca)" using v assms(2,5) ne by (simp add: e1)
  have "os_lock (close_fd w copy o6) i = os_lock o6 i" for i
  proof -
    have "referenced da (close_fd w copy o6)"
      unfolding referenced_def close_fd_entry using a6 ne by (intro exI [of _ w] exI [of _ af] exI [of _ ca]) simp
    moreover have "fd_entry w copy o6 = Some (da, True)" using v assms(2) by (simp add: e1)
    ultimately show ?thesis using v by (auto simp: close_fd_lock split: option.splits)
  qed
  then have "os_lock (close_fd w copy o6) = os_lock os" using v by (auto simp: o1_def)
  then show "keys_ok (spawn_keeper w k lf af os)" "os_lock (spawn_keeper w k lf af os) = os_lock os"
    "os_inode (spawn_keeper w k lf af os) = os_inode os" "os_target (spawn_keeper w k lf af os) = os_target os"
    "os_fresh (spawn_keeper w k lf af os) = os_fresh os" "os_refused (spawn_keeper w k lf af os) = os_refused os"
    using v close_fd_keys by (simp_all add: final o1_def)
  show "fd_entry p f (spawn_keeper w k lf af os) =
      (if p \<noteq> k then fd_entry p f os
       else if f = KEEPER_LOCK_FD then Some (dl, False)
       else if f = KEEPER_ACCOUNT_FD then Some (da, False)
       else case fd_entry w f os of Some (d, False) \<Rightarrow> Some (d, False) | _ \<Rightarrow> None)" for p f
  proof (cases "p = k")
    case False
    with v copy(1) show ?thesis by (auto simp: final close_fd_entry e1)
  next
    case True
    show ?thesis
    proof (cases "f = KEEPER_LOCK_FD \<or> f = KEEPER_ACCOUNT_FD")
      case edge: True
      with True assms(2) ne show ?thesis by (auto simp: final close_fd_entry e6 e5 e4)
    next
      case plain: False
      then have "fd_entry k f o5 = (if f = copy then Some (da, True) else fd_entry w f os)"
        using True by (simp add: e5 e4 e3 e2 e1)
      with True plain assms(2) copy(1) show ?thesis
        by (auto simp: final close_fd_entry e6 split: option.splits bool.splits)
    qed
  qed
qed

section \<open>Probing and allocating\<close>

lemma try_lock:
  assumes "os_ok os" "open_file create p path os = Some (f, os1)" "flock_nb p f os1 = (b, os2)"
  shows "os_ok os2" "stable os os2" "fd_entry p f os = None" "b \<Longrightarrow> holds p f path os2"
    "\<exists>d. fd_entry p f os2 = Some (d, True)" "os_ok (close_fd p f os2)" "stable os (close_fd p f os2)"
    "holds q g path os \<Longrightarrow> \<not> b"
proof -
  obtain d where o: "os_ok os1" "stable os os1" "fd_entry p f os = None"
    "fd_entry p f os1 = Some (d, True)" "os_inode os1 path = Some (os_target os1 d)" "sole d p f os1"
    "\<forall>i. os_lock os1 i \<noteq> Some d" "os_lock os1 = os_lock os"
    by (rule open_file_ok [OF assms(1,2)])
  note l = flock_ok [OF o(1) assms(3) o(4)]
  show ok: "os_ok os2" by (rule l(1))
  have "stable os1 os2" unfolding stable_def using l(2) flock_nb_frame [OF assms(3)] by simp
  then show st: "stable os os2" using o(2) by (rule stable_trans [rotated])
  show "fd_entry p f os = None" by (rule o(3))
  show "b \<Longrightarrow> holds p f path os2" by (rule l(3) [OF _ o(6,5)])
  show "\<exists>d. fd_entry p f os2 = Some (d, True)" using o(4) flock_nb_frame(1) [OF assms(3)] by simp
  show "os_ok (close_fd p f os2)" by (rule close_fd_ok(1) [OF ok])
  show "stable os (close_fd p f os2)"
    unfolding stable_def
  proof (intro conjI allI impI)
    fix q g x assume x: "fd_entry q g os = Some x"
    from stable_entry [OF st this] have "fd_entry q g os2 = Some x" .
    with x o(3) show "fd_entry q g (close_fd p f os2) = Some x" by (auto simp: close_fd_entry)
  next
    fix q g path' assume h: "holds q g path' os"
    with o(3) have "(q, g) \<noteq> (p, f)" by (auto simp: holds_def)
    with close_fd_ok(2) [OF ok stable_holds [OF st h]] show "holds q g path' (close_fd p f os2)" by blast
  qed (use st in \<open>simp add: stable_def\<close>)
  show "\<not> b" if "holds q g path os"
  proof -
    from stable_holds [OF o(2) that] obtain e where "os_lock os1 (os_target os1 d) = Some e" using o(5) by (auto simp: holds_def)
    with flock_nb_lock(1) [OF assms(3) o(4)] o(7) show ?thesis by auto
  qed
qed

lemma allocate_loop_ok:
  assumes "os_ok os" "allocate_loop p base ns served os = (r, os')"
  shows "os_ok os' \<and> stable os os' \<and> (case r of Inr (Some lease) \<Rightarrow>
    holds p (dl_lock lease) (lock_path base (dl_number lease)) os' \<and> fd_entry p (dl_lock lease) os = None \<and>
    (\<exists>d. fd_entry p (dl_lock lease) os' = Some (d, True)) | _ \<Rightarrow> True)"
  using assms
proof (induction ns arbitrary: os)
  case Nil
  then show ?case by (auto simp: stable_refl)
next
  case (Cons n ns)
  show ?case
  proof (cases "open_file True p (lock_path base n) os")
    case None
    with Cons.prems show ?thesis by (auto simp: stable_refl)
  next
    case (Some x)
    obtain f os1 where x: "x = (f, os1)" by (cases x)
    obtain b os2 where l: "flock_nb p f os1 = (b, os2)" by (cases "flock_nb p f os1")
    note t = try_lock [OF Cons.prems(1) Some [unfolded x] l]
    show ?thesis
    proof (cases "b \<and> \<not> served n")
      case True
      with Cons.prems(2) Some x l have "r = Inr (Some \<lparr>dl_number = n, dl_base = base, dl_lock = f\<rparr>)" "os' = os2" by auto
      with t True show ?thesis by auto
    next
      case False
      with Cons.prems(2) Some x l have "allocate_loop p base ns served (close_fd p f os2) = (r, os')" by auto
      from Cons.IH [OF t(6) this] stable_trans [OF t(7)] stable_None [OF t(7)] show ?thesis
        by (auto split: sum.splits option.splits)
    qed
  qed
qed

lemma allocate_base:
  assumes "allocate_with p base slots served os = (Inr lease, os')"
  shows "dl_base lease = base"
proof -
  have "allocate_loop p base ns served os = (Inr (Some lease), os') \<Longrightarrow> dl_base lease = base" for ns
    by (induction ns arbitrary: os) (auto split: option.splits prod.splits if_splits)
  with assms show ?thesis by (auto simp: allocate_with_def split: prod.splits sum.splits option.splits)
qed

lemma allocate_ok:
  assumes "os_ok os" "allocate_with p base slots served os = (r, os')"
  shows "os_ok os'" "stable os os'"
    "r = Inr lease \<Longrightarrow> holds p (dl_lock lease) (lock_path base (dl_number lease)) os' \<and> fd_entry p (dl_lock lease) os = None \<and>
      (\<exists>d. fd_entry p (dl_lock lease) os' = Some (d, True))"
  using assms(2) allocate_loop_ok [OF assms(1), of p base "range_numbers slots" served]
  by (auto simp: allocate_with_def split: prod.splits sum.splits option.splits)

lemma lock_is_free_ok:
  assumes "os_ok os" "lock_is_free p base n os = (b, os')"
  shows "os_ok os' \<and> stable os os'"
proof (cases "open_file True p (lock_path base n) os")
  case (Some x)
  obtain f os1 b' os2 where "x = (f, os1)" "flock_nb p f os1 = (b', os2)" by (metis surj_pair)
  with assms try_lock [OF assms(1), of True p "lock_path base n" f os1 b' os2] Some show ?thesis
    by (auto simp: lock_is_free_def)
qed (use assms in \<open>auto simp: lock_is_free_def stable_refl\<close>)

text \<open>The close-on-exec flag plays no part in who refers to what.\<close>

lemma cloexec_refers: "(\<exists>c. fd_entry q g (set_cloexec p f b os) = Some (d, c)) = (\<exists>c. fd_entry q g os = Some (d, c))"
  by (cases "fd_entry p f os") (auto simp: cloexec_entry)

lemma sole_iff: "sole d p f os \<longleftrightarrow> (\<forall>q g. (\<exists>c. fd_entry q g os = Some (d, c)) \<longrightarrow> q = p \<and> g = f)"
  by (auto simp: sole_def)

lemma holds_iff: "holds p f path os \<longleftrightarrow> (\<exists>d. (\<exists>c. fd_entry p f os = Some (d, c)) \<and> os_inode os path = Some (os_target os d) \<and>
     os_lock os (os_target os d) = Some d \<and> sole d p f os)"
  by (auto simp: holds_def)

lemma holds_cloexec: "holds q g path (set_cloexec p f b os) = holds q g path os"
  unfolding holds_iff sole_iff cloexec_refers by simp

lemma os_ok_cloexec: "os_ok os \<Longrightarrow> os_ok (set_cloexec p f b os)"
proof -
  have iff: "os_ok os \<longleftrightarrow> keys_ok os \<and> (\<forall>p f d. (\<exists>c. fd_entry p f os = Some (d, c)) \<longrightarrow> d < os_fresh os) \<and>
     (\<forall>path i. os_inode os path = Some i \<longrightarrow> i < os_fresh os) \<and>
     (\<forall>path path' i. os_inode os path = Some i \<longrightarrow> os_inode os path' = Some i \<longrightarrow> path' = path) \<and>
     (\<forall>i d. os_lock os i = Some d \<longrightarrow> os_target os d = i) \<and>
     (\<forall>i d. os_lock os i = Some d \<longrightarrow> (\<exists>p f. \<exists>c. fd_entry p f os = Some (d, c)))" for os
    unfolding os_ok_def referenced_def by blast
  show "os_ok os \<Longrightarrow> os_ok (set_cloexec p f b os)" unfolding iff cloexec_refers by simp
qed

text \<open>A handed-over claim is taken over, close-on-exec again, and nothing else happens.\<close>

lemma adopt_claim:
  assumes "os_ok os" "holds p f (lock_path base n) os" "\<not> os_refused os (lock_path base n)"
  obtains os' where "adopt p base n (int f) os = (Inr \<lparr>dl_number = n, dl_base = base, dl_lock = f\<rparr>, set_cloexec p f True os')"
    "os_ok os'" "stable os os'"
proof -
  obtain d c where d: "fd_entry p f os = Some (d, c)" "os_inode os (lock_path base n) = Some (os_target os d)"
    using assms(2) by (auto simp: holds_def)
  then obtain probe os1 where o: "open_file False p (lock_path base n) os = Some (probe, os1)"
    using assms(3) by (auto simp: open_file_def Let_def)
  obtain b os2 where l: "flock_nb p probe os1 = (b, os2)" by (cases "flock_nb p probe os1")
  note t = try_lock [OF assms(1) o l]
  have "\<not> b" by (rule t(8) [OF assms(2)])
  with d o l that [of "close_fd p probe os2"] t(6,7) show thesis
    by (simp add: adopt_def Let_def)
qed

lemma adopt_takes:
  assumes "os_ok os" "holds p f (lock_path base n) os" "adopt p base n (int f) os = (Inr lease, os')"
  shows "lease = \<lparr>dl_number = n, dl_base = base, dl_lock = f\<rparr>" "holds p f (lock_path base n) os'"
    "\<exists>d. fd_entry p f os' = Some (d, True)"
proof -
  have "\<not> os_refused os (lock_path base n)"
    using assms(3) by (auto simp: adopt_def Let_def open_file_def split: option.splits if_splits)
  from adopt_claim [OF assms(1,2) this] obtain o1 where
    o1: "adopt p base n (int f) os = (Inr \<lparr>dl_number = n, dl_base = base, dl_lock = f\<rparr>, set_cloexec p f True o1)"
      "os_ok o1" "stable os o1" by blast
  then show "lease = \<lparr>dl_number = n, dl_base = base, dl_lock = f\<rparr>" using assms(3) by simp
  have h: "holds p f (lock_path base n) o1" by (rule stable_holds [OF o1(3) assms(2)])
  with o1 assms(3) show "holds p f (lock_path base n) os'" by (simp add: holds_cloexec)
  from h obtain d c where "fd_entry p f o1 = Some (d, c)" by (auto simp: holds_def)
  with o1 assms(3) show "\<exists>d. fd_entry p f os' = Some (d, True)" by (simp add: cloexec_entry)
qed

text \<open>What an operation of \<open>p\<close> on its own descriptor \<open>f\<close> leaves to everybody else.\<close>

definition spares :: "pid \<Rightarrow> fd \<Rightarrow> os \<Rightarrow> os \<Rightarrow> bool" where
  "spares p f os os' \<longleftrightarrow> (\<forall>q g. (q, g) \<noteq> (p, f) \<longrightarrow>
     (\<forall>x. fd_entry q g os = Some x \<longrightarrow> fd_entry q g os' = Some x) \<and> (\<forall>path. holds q g path os \<longrightarrow> holds q g path os'))"

lemma spares_trans: "spares p f a b \<Longrightarrow> spares p f b c \<Longrightarrow> spares p f a c"
  by (simp add: spares_def)

lemma stable_spares: "stable os os' \<Longrightarrow> spares p f os os'"
  by (simp add: stable_def spares_def)

lemma close_spares: "os_ok os \<Longrightarrow> spares p f os (close_fd p f os)"
  using close_fd_ok(2) by (auto simp: spares_def close_fd_entry)

lemma cloexec_spares: "spares p f os (set_cloexec p f b os)"
  by (auto simp: spares_def holds_cloexec cloexec_entry)

lemma adopt_ok:
  assumes "os_ok os" "adopt p base n (int f) os = (r, os')"
  shows "os_ok os' \<and> spares p f os os'"
proof -
  have shut: "os_ok (close_fd p f o1) \<and> spares p f os (close_fd p f o1)" if "os_ok o1" "stable os o1" for o1
    using close_fd_ok(1) [OF that(1)] spares_trans [OF stable_spares [OF that(2)] close_spares [OF that(1)]] by blast
  have flag: "os_ok (set_cloexec p f True o1) \<and> spares p f os (set_cloexec p f True o1)" if "os_ok o1" "stable os o1" for o1
    using os_ok_cloexec [OF that(1)] spares_trans [OF stable_spares [OF that(2)] cloexec_spares] by blast
  show ?thesis
  proof (cases "open_file False p (lock_path base n) os")
    case None
    with assms shut [OF assms(1) stable_refl] show ?thesis
      by (auto simp: adopt_def Let_def stable_spares stable_refl split: option.splits if_splits)
  next
    case (Some x)
    obtain g o1 b o2 where x: "x = (g, o1)" "flock_nb p g o1 = (b, o2)" by (metis surj_pair)
    note t = try_lock [OF assms(1) Some [unfolded x(1)] x(2)]
    from assms Some x shut [OF assms(1) stable_refl] shut [OF t(6,7)] flag [OF t(6,7)] show ?thesis
      by (auto simp: adopt_def Let_def stable_spares stable_refl split: option.splits if_splits)
  qed
qed

section \<open>Children\<close>

lemma child_ok:
  assumes "os_ok os" "child_view w k os os'" "\<And>f. fd_entry k f os = None"
  shows "os_ok os'"
proof -
  note ok = os_okD [OF assms(1)] and v = assms(2) [unfolded child_view_def]
  show ?thesis
  proof (rule os_okI)
    fix p f d c assume e: "fd_entry p f os' = Some (d, c)"
    show "d < os_fresh os'"
    proof (cases "p = k")
      case True
      with e v obtain f' c' where "fd_entry w f' os = Some (d, c')" by blast
      with ok(2) v show ?thesis by simp
    qed (use e v ok(2) in simp)
  next
    fix i d assume "os_lock os' i = Some d"
    with v have "os_lock os i = Some d" by simp
    from ok(6) [OF this] obtain p f c where e: "fd_entry p f os = Some (d, c)" unfolding referenced_def by blast
    with assms(3) have "p \<noteq> k" by auto
    with e v show "referenced d os'" unfolding referenced_def by metis
  qed (use ok v in auto)
qed

text \<open>A claim of another process survives when the child did not inherit it.\<close>

lemma child_spares:
  assumes "child_view w k os os'" "holds q g path os" "q \<noteq> k"
    and "\<And>f d c c'. fd_entry q g os = Some (d, c) \<Longrightarrow> fd_entry k f os' \<noteq> Some (d, c')"
  shows "holds q g path os'"
proof (rule holds_kept [OF assms(2)])
  note v = assms(1) [unfolded child_view_def]
  fix d c assume d: "fd_entry q g os = Some (d, c)" and s: "sole d q g os"
  have "p' = q \<and> f' = g" if "fd_entry p' f' os' = Some (d, c')" for p' f' c'
    using that s v assms(4) [OF d] soleD by (cases "p' = k") auto
  then show "(\<exists>c'. fd_entry q g os' = Some (d, c')) \<and> sole d q g os' \<and> os_target os' d = os_target os d"
    using d v assms(3) by (auto simp: sole_def)
qed (use assms(1) in \<open>auto simp: child_view_def\<close>)

lemma spawn_program_child:
  assumes "keys_ok os" "w \<noteq> k" "\<And>f. fd_entry k f os = None"
  shows "child_view w k os (spawn_program w k os)"
    "fd_entry k f (spawn_program w k os) = (case fd_entry w f os of Some (d, False) \<Rightarrow> Some (d, False) | _ \<Rightarrow> None)"
proof -
  have v: "child_view w k os (fork_process w k os)" by (rule fork_child [OF assms])
  then show "child_view w k os (spawn_program w k os)" unfolding spawn_program_def by (rule child_exec [OF _ assms(2)])
  from v have "keys_ok (fork_process w k os)" by (simp add: child_view_def)
  then show "fd_entry k f (spawn_program w k os) = (case fd_entry w f os of Some (d, False) \<Rightarrow> Some (d, False) | _ \<Rightarrow> None)"
    by (auto simp: spawn_program_def exec_entry fork_entry [OF assms(3)] split: option.splits bool.splits)
qed

lemma spawn_program_ok:
  assumes "os_ok os" "w \<noteq> k" "\<And>f. fd_entry k f os = None"
  shows "os_ok (spawn_program w k os)" "q \<noteq> k \<Longrightarrow> fd_entry q g (spawn_program w k os) = fd_entry q g os"
    "holds q g path os \<Longrightarrow> q \<noteq> w \<or> fd_entry q g os = Some (d, True) \<Longrightarrow> holds q g path (spawn_program w k os)"
proof -
  note c = spawn_program_child [OF os_okD(1) [OF assms(1)] assms(2,3)]
  show "os_ok (spawn_program w k os)" by (rule child_ok [OF assms(1) c(1) assms(3)])
  show "q \<noteq> k \<Longrightarrow> fd_entry q g (spawn_program w k os) = fd_entry q g os" using c(1) by (simp add: child_view_def)
  assume h: "holds q g path os" and own: "q \<noteq> w \<or> fd_entry q g os = Some (d, True)"
  show "holds q g path (spawn_program w k os)"
  proof (rule child_spares [OF c(1) h])
    show "q \<noteq> k" using h assms(3) by (auto simp: holds_def)
    fix f e x y assume e: "fd_entry q g os = Some (e, x)"
    with h have s: "sole e q g os" by (auto simp: holds_def)
    show "fd_entry k f (spawn_program w k os) \<noteq> Some (e, y)"
    proof
      assume "fd_entry k f (spawn_program w k os) = Some (e, y)"
      then have "fd_entry w f os = Some (e, False)" by (auto simp: c(2) split: option.splits bool.splits)
      with soleD [OF s this] own e show False by auto
    qed
  qed
qed

lemma exit_child:
  "child_view w k os os' \<Longrightarrow> w \<noteq> k \<Longrightarrow> child_view w k os (exit_process k os')"
proof -
  have "child_view w k os os' \<Longrightarrow> w \<noteq> k \<Longrightarrow> child_view w k os (fold (close_fd k) fs os')" for fs
    by (induction fs arbitrary: os') (simp_all add: child_close)
  then show "child_view w k os os' \<Longrightarrow> w \<noteq> k \<Longrightarrow> child_view w k os (exit_process k os')" by (simp add: exit_process_def)
qed

lemma exit_entry: "fd_entry p f (exit_process k os) = (if p = k then None else fd_entry p f os)"
  unfolding exit_process_def fold_close_entry fds_of_entry by (cases "fd_entry k f os") simp_all

text \<open>Detaching moves a descriptor table from one process to another.\<close>

lemma detach_entries:
  assumes "keys_ok os" "k0 \<noteq> k" "\<And>f. fd_entry k f os = None"
  shows "keys_ok (detach_keeper k0 k os)" "os_lock (detach_keeper k0 k os) = os_lock os"
    "os_inode (detach_keeper k0 k os) = os_inode os" "os_target (detach_keeper k0 k os) = os_target os"
    "os_fresh (detach_keeper k0 k os) = os_fresh os" "os_refused (detach_keeper k0 k os) = os_refused os"
    "fd_entry p f (detach_keeper k0 k os) = (if p = k then fd_entry k0 f os else if p = k0 then None else fd_entry p f os)"
proof -
  define o1 where "o1 = fork_process k0 k os"
  note fe = fork_entry [OF assms(3), where w = k0, folded o1_def] and fc = fork_child [OF assms(1-3), folded o1_def]
  have "fd_entry k f o1 = fd_entry k0 f o1" for f using assms(2) by (simp add: fe)
  then have "child_view k k0 o1 o1" using fc unfolding child_view_def by metis
  from exit_child [OF this assms(2) [symmetric]] have v: "child_view k k0 o1 (detach_keeper k0 k os)"
    by (simp add: detach_keeper_def o1_def)
  with fc show "keys_ok (detach_keeper k0 k os)" "os_lock (detach_keeper k0 k os) = os_lock os"
    "os_inode (detach_keeper k0 k os) = os_inode os" "os_target (detach_keeper k0 k os) = os_target os"
    "os_fresh (detach_keeper k0 k os) = os_fresh os" "os_refused (detach_keeper k0 k os) = os_refused os"
    by (simp_all add: child_view_def)
  show "fd_entry p f (detach_keeper k0 k os) = (if p = k then fd_entry k0 f os else if p = k0 then None else fd_entry p f os)"
    using assms(2) by (simp add: detach_keeper_def exit_entry fe flip: o1_def)
qed

lemma detached_entries:
  assumes "keys_ok os" "w \<noteq> k0" "\<And>f. fd_entry k0 f os = None" "fd_entry w lf os = Some (dl, cl)" "fd_entry w af os = Some (da, ca)"
    and k: "k0 \<noteq> k" "w \<noteq> k" "\<And>f. fd_entry k f os = None"
  defines "o1 \<equiv> detach_keeper k0 k (spawn_keeper w k0 lf af os)"
  shows "keys_ok o1" "os_lock o1 = os_lock os" "os_inode o1 = os_inode os" "os_target o1 = os_target os" "os_fresh o1 = os_fresh os"
    "os_refused o1 = os_refused os"
    "\<And>p f. fd_entry p f o1 =
      (if p \<noteq> k then fd_entry p f os
       else if f = KEEPER_LOCK_FD then Some (dl, False)
       else if f = KEEPER_ACCOUNT_FD then Some (da, False)
       else case fd_entry w f os of Some (d, False) \<Rightarrow> Some (d, False) | _ \<Rightarrow> None)"
proof -
  note e = spawn_keeper_entries [OF assms(1-5)]
  have none: "fd_entry k f (spawn_keeper w k0 lf af os) = None" for f using k by (simp add: e(7))
  note d = detach_entries [OF e(1) k(1) none, folded o1_def]
  show "keys_ok o1" "os_lock o1 = os_lock os" "os_inode o1 = os_inode os" "os_target o1 = os_target os" "os_fresh o1 = os_fresh os"
    "os_refused o1 = os_refused os"
    using d e by simp_all
  show "fd_entry p f o1 =
      (if p \<noteq> k then fd_entry p f os
       else if f = KEEPER_LOCK_FD then Some (dl, False)
       else if f = KEEPER_ACCOUNT_FD then Some (da, False)
       else case fd_entry w f os of Some (d, False) \<Rightarrow> Some (d, False) | _ \<Rightarrow> None)" for p f
    using assms(2,3) k by (simp add: d(7) e(7))
qed

lemma run_helper_ok:
  assumes "os_ok os" "w \<noteq> k" "\<And>f. fd_entry k f os = None"
  shows "os_ok (run_helper w k os) \<and> stable os (run_helper w k os)"
proof -
  have v: "child_view w k os (run_helper w k os)"
    unfolding run_helper_def by (rule exit_child [OF fork_child [OF os_okD(1) [OF assms(1)] assms(2,3)] assms(2)])
  have none: "fd_entry k f (run_helper w k os) = None" for f by (simp add: run_helper_def exit_entry)
  have h: "holds q g path (run_helper w k os)" if "holds q g path os" for q g path
    by (rule child_spares [OF v that]) (use that assms(3) none in \<open>auto simp: holds_def\<close>)
  have "fd_entry q g (run_helper w k os) = Some x" if "fd_entry q g os = Some x" for q g x
    using that v assms(3) by (cases "q = k") (auto simp: child_view_def)
  with h v child_ok [OF assms(1) v assms(3)] show ?thesis by (simp add: stable_def child_view_def)
qed

lemma hand_over_ok:
  assumes "os_ok os" "w \<noteq> k" "\<And>f. fd_entry k f os = None" "holds w lf path os"
    "fd_entry w lf os = Some (dl, True)" "fd_entry w af os = Some (da, ca)" "af \<noteq> lf"
    and k0: "k0 \<noteq> w" "k0 \<noteq> k" "\<And>f. fd_entry k0 f os = None"
  shows "os_ok (close_fd w lf (detach_keeper k0 k (spawn_keeper w k0 lf af os)))" "holds k KEEPER_LOCK_FD path (close_fd w lf (detach_keeper k0 k (spawn_keeper w k0 lf af os)))"
    "(q, g) \<noteq> (w, lf) \<Longrightarrow> q \<noteq> k \<Longrightarrow> fd_entry q g (close_fd w lf (detach_keeper k0 k (spawn_keeper w k0 lf af os))) = fd_entry q g os"
    "holds q g path' os \<Longrightarrow> (q, g) \<noteq> (w, lf) \<Longrightarrow> (q, g) \<noteq> (w, af) \<Longrightarrow> q \<noteq> w \<or> fd_entry q g os = Some (d, True) \<Longrightarrow>
      holds q g path' (close_fd w lf (detach_keeper k0 k (spawn_keeper w k0 lf af os)))"
proof -
  define o1 where "o1 = detach_keeper k0 k (spawn_keeper w k0 lf af os)"
  note e = detached_entries [OF os_okD(1) [OF assms(1)] k0(1) [symmetric] k0(3) assms(5,6) k0(2) assms(2,3), folded o1_def]
  have other: "fd_entry p f o1 = fd_entry p f os" if "p \<noteq> k" for p f using that by (simp add: e(7))
  have child: "d = dl \<and> f = KEEPER_LOCK_FD \<or> d = da \<or> fd_entry w f os = Some (d, False)"
    if "fd_entry k f o1 = Some (d, c)" for f d c
    using that by (simp add: e(7) split: if_splits option.splits prod.splits bool.splits)
  have lock_fd: "fd_entry k KEEPER_LOCK_FD o1 = Some (dl, False)" by (simp add: e(7))
  have v: "child_view w k os o1"
    unfolding child_view_def e(2-6) using e(1) other child assms(5,6) by blast
  have ok: "os_ok o1" by (rule child_ok [OF assms(1) v assms(3)])
  have sole: "sole dl w lf os" using assms(4,5) by (auto simp: holds_def)
  have da: "da \<noteq> dl" using soleD [OF sole, of w af ca] assms(6,7) by blast
  define o2 where "o2 = close_fd w lf o1"
  have e2: "fd_entry p f o2 = (if (p, f) = (w, lf) then None else fd_entry p f o1)" for p f
    unfolding o2_def by (rule close_fd_entry)
  have "os_ok o2" unfolding o2_def by (rule close_fd_ok(1) [OF ok])
  then show "os_ok (close_fd w lf (detach_keeper k0 k (spawn_keeper w k0 lf af os)))" by (simp add: o1_def o2_def)
  have "fd_entry q g o2 = fd_entry q g os" if "(q, g) \<noteq> (w, lf)" "q \<noteq> k" for q g using that other by (auto simp: e2)
  then show "(q, g) \<noteq> (w, lf) \<Longrightarrow> q \<noteq> k \<Longrightarrow> fd_entry q g (close_fd w lf (detach_keeper k0 k (spawn_keeper w k0 lf af os))) = fd_entry q g os"
    by (simp add: o1_def o2_def)
  have mine: "fd_entry k KEEPER_LOCK_FD o2 = Some (dl, False)" using assms(2) lock_fd by (simp add: e2)
  have "sole dl k KEEPER_LOCK_FD o2"
    unfolding sole_def
  proof (intro allI impI)
    fix p f c assume x: "fd_entry p f o2 = Some (dl, c)"
    then have o1: "fd_entry p f o1 = Some (dl, c)" "(p, f) \<noteq> (w, lf)" by (auto simp: e2 split: if_splits)
    show "p = k \<and> f = KEEPER_LOCK_FD"
    proof (cases "p = k")
      case True
      with child [of f dl c] o1(1) da soleD [OF sole, of w f False] assms(5) show ?thesis by auto
    next
      case False
      with other o1 soleD [OF sole, of p f c] show ?thesis by auto
    qed
  qed
  moreover have "os_lock o2 (os_target os dl) = Some dl"
  proof -
    have "referenced dl o2" using mine by (auto simp: referenced_def)
    moreover have "os_lock os (os_target os dl) = Some dl" using assms(4,5) by (auto simp: holds_def)
    ultimately show ?thesis by (simp add: o2_def close_fd_lock [OF e(1)] e(2))
  qed
  moreover have "os_inode os path = Some (os_target os dl)" using assms(4,5) by (auto simp: holds_def)
  ultimately have "holds k KEEPER_LOCK_FD path o2"
    using mine by (intro holdsI [of _ _ _ dl False]) (simp_all add: o2_def e(3,4))
  then show "holds k KEEPER_LOCK_FD path (close_fd w lf (detach_keeper k0 k (spawn_keeper w k0 lf af os)))" by (simp add: o1_def o2_def)
  assume h: "holds q g path' os" and ne: "(q, g) \<noteq> (w, lf)" "(q, g) \<noteq> (w, af)"
    and own: "q \<noteq> w \<or> fd_entry q g os = Some (d, True)"
  have "holds q g path' o1"
  proof (rule child_spares [OF v h])
    show "q \<noteq> k" using h assms(3) by (auto simp: holds_def)
    fix f x y z assume x: "fd_entry q g os = Some (x, y)"
    with h have s: "sole x q g os" by (auto simp: holds_def)
    have "x \<noteq> dl" "x \<noteq> da" using soleD [OF s, of w] assms(5,6) ne by auto
    moreover have "fd_entry w f os \<noteq> Some (x, False)"
    proof
      assume f: "fd_entry w f os = Some (x, False)"
      with soleD [OF s this] own show False by simp
    qed
    ultimately show "fd_entry k f o1 \<noteq> Some (x, z)" using child by blast
  qed
  from close_fd_ok(2) [OF ok this ne(1)] show "holds q g path' (close_fd w lf (detach_keeper k0 k (spawn_keeper w k0 lf af os)))" by (simp add: o1_def)
qed

lemma exit_ok:
  assumes "os_ok os"
  shows "os_ok (exit_process p os)" "q \<noteq> p \<Longrightarrow> fd_entry q g (exit_process p os) = fd_entry q g os"
    "holds q g path os \<Longrightarrow> q \<noteq> p \<Longrightarrow> holds q g path (exit_process p os)"
proof -
  have "os_ok os \<Longrightarrow> os_ok (fold (close_fd p) fs os) \<and> (holds q g path os \<longrightarrow> q \<noteq> p \<longrightarrow> holds q g path (fold (close_fd p) fs os))" for fs
    by (induction fs arbitrary: os) (simp_all add: close_fd_ok)
  with assms show "os_ok (exit_process p os)" "holds q g path os \<Longrightarrow> q \<noteq> p \<Longrightarrow> holds q g path (exit_process p os)"
    by (simp_all add: exit_process_def)
  show "q \<noteq> p \<Longrightarrow> fd_entry q g (exit_process p os) = fd_entry q g os" by (simp add: exit_process_def fold_close_entry)
qed

section \<open>The system\<close>

text \<open>The claims the running processes believe they have: whose, which lease, and whether
  the descriptor is close-on-exec again (it is not between the hand-over and
  \<open>adopt\<close>, which \<open>run_keeper\<close> calls before it starts anything).\<close>

type_synonym claim = "pid \<times> display_lease \<times> bool"

record sys =
  sy_os :: os
  sy_fs :: fs
  sy_claims :: "claim list"

definition claim_fd :: "claim \<Rightarrow> pid \<times> fd" where
  "claim_fd = (\<lambda>(p, lease, _). (p, dl_lock lease))"

definition claim_number :: "claim \<Rightarrow> u16" where
  "claim_number = (\<lambda>(_, lease, _). dl_number lease)"

inductive sys_step :: "string \<Rightarrow> sys \<Rightarrow> sys \<Rightarrow> bool" for base where
  claimed: "allocate_with p base slots served (sy_os s) = (Inr lease, os) \<Longrightarrow>
    sys_step base s (s\<lparr>sy_os := os, sy_claims := (p, lease, True) # sy_claims s\<rparr>)"
| exhausted: "allocate_with p base slots served (sy_os s) = (Inl e, os) \<Longrightarrow> sys_step base s (s\<lparr>sy_os := os\<rparr>)"
| probed: "lock_is_free p base n (sy_os s) = (b, os) \<Longrightarrow> sys_step base s (s\<lparr>sy_os := os\<rparr>)"
| handed_over: "(w, lease, True) \<in> set (sy_claims s) \<Longrightarrow> fd_entry w af (sy_os s) \<noteq> None \<Longrightarrow>
    (w, af) \<notin> claim_fd ` set (sy_claims s) \<Longrightarrow> \<forall>(q, l, b) \<in> set (sy_claims s). q = w \<longrightarrow> b \<Longrightarrow>
    k \<noteq> w \<Longrightarrow> k0 \<noteq> w \<Longrightarrow> k0 \<noteq> k \<Longrightarrow> (\<And>f. fd_entry k f (sy_os s) = None) \<Longrightarrow> (\<And>f. fd_entry k0 f (sy_os s) = None) \<Longrightarrow>
    sys_step base s (s\<lparr>sy_os := hand_over w k0 k lease af (sy_os s),
      sy_claims := (k, lease\<lparr>dl_lock := KEEPER_LOCK_FD\<rparr>, False) # removeAll (w, lease, True) (sy_claims s)\<rparr>)"
| spawn_failed: "(w, lease, True) \<in> set (sy_claims s) \<Longrightarrow> lf = into_handoff_fd lease \<Longrightarrow>
    sys_step base s (s\<lparr>sy_os := close_fd w lf (sy_os s), sy_claims := removeAll (w, lease, True) (sy_claims s)\<rparr>)"
| adopted: "(k, lease, False) \<in> set (sy_claims s) \<Longrightarrow>
    adopt k base (dl_number lease) (int (dl_lock lease)) (sy_os s) = (Inr lease', os) \<Longrightarrow>
    sys_step base s (s\<lparr>sy_os := os, sy_claims := (k, lease', True) # removeAll (k, lease, False) (sy_claims s)\<rparr>)"
| adoption_failed: "(k, lease, False) \<in> set (sy_claims s) \<Longrightarrow>
    adopt k base (dl_number lease) (int (dl_lock lease)) (sy_os s) = (Inl e, os) \<Longrightarrow>
    sys_step base s (s\<lparr>sy_os := os, sy_claims := removeAll (k, lease, False) (sy_claims s)\<rparr>)"
| dropped: "(p, lease, True) \<in> set (sy_claims s) \<Longrightarrow> drop_lease p lease (sy_os s, sy_fs s) = (os, fs) \<Longrightarrow>
    sys_step base s (s\<lparr>sy_os := os, sy_fs := fs, sy_claims := removeAll (p, lease, True) (sy_claims s)\<rparr>)"
| program_run: "\<forall>(q, lease, b) \<in> set (sy_claims s). q = p \<longrightarrow> b \<Longrightarrow> k \<noteq> p \<Longrightarrow> (\<And>f. fd_entry k f (sy_os s) = None) \<Longrightarrow>
    sys_step base s (s\<lparr>sy_os := spawn_program p k (sy_os s)\<rparr>)"
| helper_run: "k \<noteq> p \<Longrightarrow> (\<And>f. fd_entry k f (sy_os s) = None) \<Longrightarrow> sys_step base s (s\<lparr>sy_os := run_helper p k (sy_os s)\<rparr>)"
| other_file: "open_file create p path (sy_os s) = Some (f, os) \<Longrightarrow> sys_step base s (s\<lparr>sy_os := os\<rparr>)"
| other_closed: "(p, f) \<notin> claim_fd ` set (sy_claims s) \<Longrightarrow> sys_step base s (s\<lparr>sy_os := close_fd p f (sy_os s)\<rparr>)"
| exited: "sys_step base s (s\<lparr>sy_os := exit_process p (sy_os s), sy_claims := filter (\<lambda>c. fst c \<noteq> p) (sy_claims s)\<rparr>)"

inductive sys_reachable :: "string \<Rightarrow> sys \<Rightarrow> bool" for base where
  start: "os_ok (sy_os s) \<Longrightarrow> sy_claims s = [] \<Longrightarrow> sys_reachable base s"
| step: "sys_reachable base s \<Longrightarrow> sys_step base s s' \<Longrightarrow> sys_reachable base s'"

text \<open>A claim in force: its descriptor, and nothing else, has the lock of its number.\<close>

definition claim_ok :: "string \<Rightarrow> os \<Rightarrow> claim \<Rightarrow> bool" where
  "claim_ok base os = (\<lambda>(p, lease, b). dl_base lease = base \<and> holds p (dl_lock lease) (lock_path base (dl_number lease)) os \<and>
     (b \<longrightarrow> (\<exists>d. fd_entry p (dl_lock lease) os = Some (d, True))))"

definition sys_ok :: "string \<Rightarrow> sys \<Rightarrow> bool" where
  "sys_ok base s \<longleftrightarrow> os_ok (sy_os s) \<and> distinct (map claim_fd (sy_claims s)) \<and> list_all (claim_ok base (sy_os s)) (sy_claims s)"

lemma sys_okI:
  assumes "os_ok os" "distinct (map claim_fd cs)" "\<And>c. c \<in> set cs \<Longrightarrow> claim_ok base os c"
  shows "sys_ok base (s\<lparr>sy_os := os, sy_claims := cs\<rparr>)"
  using assms by (simp add: sys_ok_def list_all_iff)

lemma claim_ok_spared:
  assumes "claim_ok base os c" "spares p f os os'" "claim_fd c \<noteq> (p, f)"
  shows "claim_ok base os' c"
  using assms by (cases c) (auto simp: claim_ok_def spares_def claim_fd_def)

lemma claim_ok_stable: "claim_ok base os c \<Longrightarrow> stable os os' \<Longrightarrow> claim_ok base os' c"
  by (cases c) (auto simp: claim_ok_def stable_def)

lemma distinct_removeAll_key:
  "distinct (map g xs) \<Longrightarrow> distinct (map g (removeAll x xs))"
  by (induction xs) auto

lemma removed_key:
  "distinct (map g xs) \<Longrightarrow> x \<in> set xs \<Longrightarrow> y \<in> set (removeAll x xs) \<Longrightarrow> g y \<noteq> g x"
  by (auto simp: distinct_map inj_on_def)

text \<open>The step of a process on one of its own claims, which it gives up or replaces.\<close>

lemma sys_ok_without:
  assumes "sys_ok base s" "c \<in> set (sy_claims s)" "spares p f (sy_os s) os" "claim_fd c = (p, f)" "os_ok os"
  shows "distinct (map claim_fd (removeAll c (sy_claims s)))" "c' \<in> set (removeAll c (sy_claims s)) \<Longrightarrow> claim_ok base os c'"
    "(p, f) \<notin> claim_fd ` set (removeAll c (sy_claims s))"
proof -
  have d: "distinct (map claim_fd (sy_claims s))" and ok: "\<And>c. c \<in> set (sy_claims s) \<Longrightarrow> claim_ok base (sy_os s) c"
    using assms(1) by (simp_all add: sys_ok_def list_all_iff)
  show "distinct (map claim_fd (removeAll c (sy_claims s)))" by (rule distinct_removeAll_key [OF d])
  have key: "claim_fd x \<noteq> (p, f)" if "x \<in> set (removeAll c (sy_claims s))" for x
    using removed_key [OF d assms(2) that] assms(4) by metis
  then show "(p, f) \<notin> claim_fd ` set (removeAll c (sy_claims s))" by (metis imageE)
  show "claim_ok base os c'" if "c' \<in> set (removeAll c (sy_claims s))"
    by (rule claim_ok_spared [OF ok assms(3) key [OF that]]) (use that in simp)
qed

lemma sys_ok_stable:
  assumes "sys_ok base s" "os_ok os" "stable (sy_os s) os"
  shows "sys_ok base (s\<lparr>sy_os := os\<rparr>)"
  using assms claim_ok_stable by (auto simp: sys_ok_def list_all_iff)

lemma sys_claim:
  assumes "sys_ok base s" "(p, lease, b) \<in> set (sy_claims s)"
  shows "dl_base lease = base" "holds p (dl_lock lease) (lock_path base (dl_number lease)) (sy_os s)"
    "b \<Longrightarrow> \<exists>d. fd_entry p (dl_lock lease) (sy_os s) = Some (d, True)"
  using assms by (auto simp: sys_ok_def list_all_iff claim_ok_def)

lemma sys_claims_elsewhere:
  assumes "sys_ok base s" "\<And>f. fd_entry k f (sy_os s) = None" "c \<in> set (sy_claims s)"
  shows "fst c \<noteq> k"
  using sys_claim(2) [OF assms(1), of "fst c" "fst (snd c)" "snd (snd c)"] assms(2,3) by (auto simp: holds_def)

lemma hand_over_keeps:
  assumes ok: "sys_ok base s" and c: "(w, lease, True) \<in> set (sy_claims s)" and "fd_entry w af (sy_os s) \<noteq> None"
    and af: "(w, af) \<notin> claim_fd ` set (sy_claims s)" and taken: "\<forall>(q, l, b) \<in> set (sy_claims s). q = w \<longrightarrow> b" 
    and k: "k \<noteq> w" "\<And>f. fd_entry k f (sy_os s) = None" and k0: "k0 \<noteq> w" "k0 \<noteq> k" "\<And>f. fd_entry k0 f (sy_os s) = None"
  shows "sys_ok base (s\<lparr>sy_os := hand_over w k0 k lease af (sy_os s),
      sy_claims := (k, lease\<lparr>dl_lock := KEEPER_LOCK_FD\<rparr>, False) # removeAll (w, lease, True) (sy_claims s)\<rparr>)"
proof (rule sys_okI)
  have os: "os_ok (sy_os s)" and dist: "distinct (map claim_fd (sy_claims s))" using ok by (simp_all add: sys_ok_def)
  have af': "claim_fd x \<noteq> (w, af)" if "x \<in> set (sy_claims s)" for x using af that by (metis imageI)
  note cl = sys_claim [OF ok c]
  obtain dl where dl: "fd_entry w (dl_lock lease) (sy_os s) = Some (dl, True)" using cl(3) by blast
  obtain da ca where da: "fd_entry w af (sy_os s) = Some (da, ca)" using assms(3) by auto
  have ne: "af \<noteq> dl_lock lease" using af' [OF c] by (simp add: claim_fd_def)
  note h = hand_over_ok [OF os k(1) [symmetric] k(2) cl(2) dl da ne k0]
  have def: "hand_over w k0 k lease af (sy_os s) = close_fd w (dl_lock lease) (detach_keeper k0 k (spawn_keeper w k0 (dl_lock lease) af (sy_os s)))"
    by (simp add: hand_over_def into_handoff_fd_def Let_def)
  note h = h [folded def]
  show "os_ok (hand_over w k0 k lease af (sy_os s))" by (rule h(1))
  have elsewhere: "fst c' \<noteq> k" if "c' \<in> set (sy_claims s)" for c' by (rule sys_claims_elsewhere [OF ok k(2) that])
  have "claim_fd (k, lease\<lparr>dl_lock := KEEPER_LOCK_FD\<rparr>, False) \<notin> claim_fd ` set (sy_claims s)"
    by (auto simp: claim_fd_def dest: elsewhere)
  moreover have "distinct (map claim_fd (removeAll (w, lease, True) (sy_claims s)))"
    by (rule distinct_removeAll_key [OF dist])
  ultimately show "distinct (map claim_fd ((k, lease\<lparr>dl_lock := KEEPER_LOCK_FD\<rparr>, False) # removeAll (w, lease, True) (sy_claims s)))"
    by auto
  fix x assume x: "x \<in> set ((k, lease\<lparr>dl_lock := KEEPER_LOCK_FD\<rparr>, False) # removeAll (w, lease, True) (sy_claims s))"
  show "claim_ok base (hand_over w k0 k lease af (sy_os s)) x"
  proof (cases "x = (k, lease\<lparr>dl_lock := KEEPER_LOCK_FD\<rparr>, False)")
    case True
    with h(2) cl(1) show ?thesis by (simp add: claim_ok_def)
  next
    case False
    with x have mem: "x \<in> set (removeAll (w, lease, True) (sy_claims s))" by simp
    obtain q l b where q: "x = (q, l, b)" by (metis surj_pair)
    from mem q have qc: "(q, l, b) \<in> set (sy_claims s)" by simp
    have "(q, dl_lock l) \<noteq> (w, dl_lock lease)"
      using removed_key [OF dist c mem] by (simp add: q claim_fd_def)
    moreover have "(q, dl_lock l) \<noteq> (w, af)" using af' [OF qc] by (simp add: claim_fd_def)
    ultimately have ne: "(q, dl_lock l) \<noteq> (w, dl_lock lease)" "(q, dl_lock l) \<noteq> (w, af)" by blast+
    have "q \<noteq> k" using elsewhere [OF qc] by simp
    note same = h(3) [OF ne(1) this]
    obtain d where "q \<noteq> w \<or> fd_entry q (dl_lock l) (sy_os s) = Some (d, True)"
      using taken qc sys_claim(3) [OF ok qc] by blast
    from h(4) [OF sys_claim(2) [OF ok qc] ne this] sys_claim(1,3) [OF ok qc] show ?thesis
      by (simp add: q claim_ok_def same)
  qed
qed

lemma lease_given_up:
  assumes "sys_ok base s" "(p, lease, b) \<in> set (sy_claims s)" "os_ok os" "spares p (dl_lock lease) (sy_os s) os"
  shows "sys_ok base (s\<lparr>sy_os := os, sy_claims := removeAll (p, lease, b) (sy_claims s)\<rparr>)"
  using sys_ok_without [OF assms(1,2,4) _ assms(3)] by (intro sys_okI assms(3)) (auto simp: claim_fd_def)

lemma sys_step_ok:
  assumes "sys_step base s s'" "sys_ok base s"
  shows "sys_ok base s'"
  using assms(1)
proof (cases rule: sys_step.cases)
  have os: "os_ok (sy_os s)" and dist: "distinct (map claim_fd (sy_claims s))" using assms(2) by (simp_all add: sys_ok_def)
  {
    case (claimed p slots served lease os)
    note a = allocate_ok [OF os claimed(2)]
    have "claim_fd c \<noteq> (p, dl_lock lease)" if "c \<in> set (sy_claims s)" for c
      using sys_claim(2) [OF assms(2), of "fst c" "fst (snd c)" "snd (snd c)"] that a(3)
      by (cases c) (auto simp: claim_fd_def holds_def)
    then have "(p, dl_lock lease) \<notin> claim_fd ` set (sy_claims s)" by (metis imageE)
    then have "claim_fd (p, lease, True) \<notin> claim_fd ` set (sy_claims s)" by (simp add: claim_fd_def)
    moreover have "claim_ok base os (p, lease, True)" using a(3) allocate_base [OF claimed(2)] by (simp add: claim_ok_def)
    ultimately show ?thesis
      using sys_ok_stable [OF assms(2) a(1,2)] by (simp add: claimed(1) sys_ok_def)
  next
    case (exhausted p slots served e os)
    with sys_ok_stable [OF assms(2)] allocate_ok(1,2) [OF os exhausted(2)] show ?thesis by simp
  next
    case (probed p n b os)
    with sys_ok_stable [OF assms(2)] lock_is_free_ok [OF os] show ?thesis by blast
  next
    case (handed_over w lease af k k0)
    from hand_over_keeps [OF assms(2) handed_over(2-6,9,7,8,10)] show ?thesis by (simp only: handed_over(1))
  next
    case (spawn_failed w lease lf)
    with lease_given_up [OF assms(2) _ close_fd_ok(1) [OF os] close_spares [OF os]] show ?thesis by (simp add: into_handoff_fd_def)
  next
    case (adopted k lease lease' os)
    from adopt_ok [OF os adopted(3)] have a: "os_ok os" "spares k (dl_lock lease) (sy_os s) os" by blast+
    note w = sys_ok_without [OF assms(2) adopted(2) a(2) _ a(1)]
    have "claim_ok base os (k, lease', True)" "dl_lock lease' = dl_lock lease"
      using adopt_takes [OF os sys_claim(2) [OF assms(2) adopted(2)] adopted(3)] by (simp_all add: claim_ok_def)
    with w show ?thesis unfolding adopted(1)
      by (intro sys_okI a(1)) (auto simp: claim_fd_def)
  next
    case (adoption_failed k lease e os)
    with lease_given_up [OF assms(2)] adopt_ok [OF os] show ?thesis by blast
  next
    case (dropped p lease os fs)
    then have d: "os = close_fd p (dl_lock lease) (sy_os s)" by (simp add: drop_lease_def)
    from lease_given_up [OF assms(2) dropped(2) close_fd_ok(1) [OF os] close_spares [OF os]] show ?thesis
      by (simp add: dropped(1) d sys_ok_def)
  next
    case (program_run p k)
    note sp = spawn_program_ok [OF os program_run(3) [symmetric] program_run(4)]
    have "claim_ok base (spawn_program p k (sy_os s)) c" if c: "c \<in> set (sy_claims s)" for c
    proof -
      obtain q l b where q: "c = (q, l, b)" by (metis surj_pair)
      note cl = sys_claim [OF assms(2) c [unfolded q]]
      obtain d where "q \<noteq> p \<or> fd_entry q (dl_lock l) (sy_os s) = Some (d, True)"
        using program_run(2) c q cl(3) by blast
      moreover have "q \<noteq> k" using sys_claims_elsewhere [OF assms(2) program_run(4) c] q by simp
      ultimately show ?thesis using sp(2,3) cl by (simp add: q claim_ok_def)
    qed
    with sp(1) dist show ?thesis by (simp add: program_run(1) sys_ok_def list_all_iff)
  next
    case (helper_run k p)
    from sys_ok_stable [OF assms(2)] run_helper_ok [OF os helper_run(2) [symmetric] helper_run(3)] show ?thesis
      by (simp only: helper_run(1))
  next
    case (other_file create p path f os)
    obtain d where "os_ok os" "stable (sy_os s) os"
      by (rule open_file_ok [OF os other_file(2)])
    with sys_ok_stable [OF assms(2)] other_file(1) show ?thesis by simp
  next
    case (other_closed p f)
    have "claim_ok base (close_fd p f (sy_os s)) c" if "c \<in> set (sy_claims s)" for c
      by (rule claim_ok_spared [OF _ close_spares [OF os]]) (use that other_closed(2) assms(2) in \<open>metis imageI sys_ok_def list_all_iff\<close>)+
    with close_fd_ok(1) [OF os] dist show ?thesis by (simp add: other_closed(1) sys_ok_def list_all_iff)
  next
    case (exited p)
    have "claim_ok base (exit_process p (sy_os s)) c" if c: "c \<in> set (sy_claims s)" "fst c \<noteq> p" for c
    proof -
      obtain q l b where q: "c = (q, l, b)" by (metis surj_pair)
      note cl = sys_claim [OF assms(2) c(1) [unfolded q]]
      show ?thesis using exit_ok(2,3) [OF os] cl c(2) by (simp add: q claim_ok_def)
    qed
    with exit_ok(1) [OF os] distinct_map_filter [OF dist] show ?thesis by (simp add: exited sys_ok_def list_all_iff)
  }
qed

lemma sys_reachable_ok: "sys_reachable base s \<Longrightarrow> sys_ok base s"
proof (induction rule: sys_reachable.induct)
  case (start s)
  then show ?case by (simp add: sys_ok_def)
next
  case (step s s')
  from sys_step_ok [OF step(2,3)] show ?case .
qed

text \<open>
  C19. A display number is never claimed twice: whatever the workers, the keepers and the
  programs they start do, in whatever order (allocating, probing, handing a claim over to a
  keeper, adopting it, dropping it, forking and executing programs, dying), the claims in
  force at any moment are on pairwise different display numbers.
\<close>

theorem claims_exclusive:
  assumes "sys_reachable base s"
  shows "distinct (map claim_number (sy_claims s))"
proof -
  note ok = sys_reachable_ok [OF assms]
  have same: "claim_fd c = claim_fd c'"
    if "c \<in> set (sy_claims s)" "c' \<in> set (sy_claims s)" "claim_number c = claim_number c'" for c c'
  proof -
    obtain p l b p' l' b' where c: "c = (p, l, b)" "c' = (p', l', b')" by (metis surj_pair)
    have "dl_number l' = dl_number l" using that(3) by (simp add: c claim_number_def)
    from sys_claim(2) [OF ok that(2) [unfolded c]] have "holds p' (dl_lock l') (lock_path base (dl_number l)) (sy_os s)"
      unfolding \<open>dl_number l' = dl_number l\<close> .
    from holds_unique [OF sys_claim(2) [OF ok that(1) [unfolded c]] this] show ?thesis
      by (simp add: c claim_fd_def)
  qed
  have "distinct (map claim_fd (sy_claims s))" using ok by (simp add: sys_ok_def)
  then show ?thesis unfolding distinct_map inj_on_def using same by blast
qed

definition boot_os :: os where
  "boot_os = \<lparr>os_inode = (\<lambda>_. None), os_target = (\<lambda>_. 0), os_lock = (\<lambda>_. None), os_open = [], os_fresh = 0, os_refused = (\<lambda>_. False)\<rparr>"

definition two_logins :: os where
  "two_logins = snd (allocate_with 8 ''r'' (10, 12) (\<lambda>_. False) (snd (allocate_with 7 ''r'' (10, 12) (\<lambda>_. False) boot_os)))"

definition two_claims :: sys where
  "two_claims = \<lparr>sy_os = two_logins, sy_fs = empty_fs,
     sy_claims = [(8, \<lparr>dl_number = 11, dl_base = ''r'', dl_lock = 0\<rparr>, True), (7, \<lparr>dl_number = 10, dl_base = ''r'', dl_lock = 0\<rparr>, True)]\<rparr>"

lemma boot_ok: "os_ok boot_os"
  by (simp add: os_ok_def boot_os_def keys_ok_def fd_entry_def referenced_def)

lemma claimed_next:
  assumes "sys_reachable base s" "fst (allocate_with p base slots served (sy_os s)) = Inr lease"
  shows "sys_reachable base (s\<lparr>sy_os := snd (allocate_with p base slots served (sy_os s)), sy_claims := (p, lease, True) # sy_claims s\<rparr>)"
  by (rule sys_reachable.step [OF assms(1)], rule sys_step.claimed [of p base slots served]) (simp add: prod_eq_iff assms(2))

lemma two_claims_reachable: "sys_reachable ''r'' two_claims"
proof -
  let ?b = "''r''" and ?s0 = "\<lparr>sy_os = boot_os, sy_fs = empty_fs, sy_claims = []\<rparr>"
  have first: "fst (allocate_with 7 ?b (10, 12) (\<lambda>_. False) boot_os) = Inr \<lparr>dl_number = 10, dl_base = ?b, dl_lock = 0\<rparr>" by code_simp
  have second: "fst (allocate_with 8 ?b (10, 12) (\<lambda>_. False) (snd (allocate_with 7 ?b (10, 12) (\<lambda>_. False) boot_os))) =
      Inr \<lparr>dl_number = 11, dl_base = ?b, dl_lock = 0\<rparr>" by code_simp
  have "sys_reachable ?b ?s0" by (rule sys_reachable.start) (simp_all add: boot_ok)
  from claimed_next [OF this, of 7 "(10, 12)" "\<lambda>_. False"] first
  have "sys_reachable ?b (?s0\<lparr>sy_os := snd (allocate_with 7 ?b (10, 12) (\<lambda>_. False) boot_os),
      sy_claims := [(7, \<lparr>dl_number = 10, dl_base = ?b, dl_lock = 0\<rparr>, True)]\<rparr>)" by simp
  from claimed_next [OF this, of 8 "(10, 12)" "\<lambda>_. False"] second show ?thesis by (simp add: two_claims_def two_logins_def)
qed

text \<open>Two logins on a fresh machine get two different displays, and hold both.\<close>

theorem claims_exclusive_witness:
  "sys_reachable ''r'' two_claims \<and> length (sy_claims two_claims) = 2 \<and> distinct (map claim_number (sy_claims two_claims))"
  using claims_exclusive [OF two_claims_reachable] two_claims_reachable by (simp add: two_claims_def)

end
