(* ===== verification/Worker_Exec.thy ===== *)
theory Worker_Exec
  imports Display_Alloc
begin

text \<open>
  How a forked worker is given its sockets (\<open>exec_worker\<close> of \<open>linrdp/src/supervisor.rs\<close>), over
  the descriptor tables of \<open>Display_Alloc\<close>: the connection goes to descriptor 3, the UDP
  channel and the shared UDP socket to 4 and 5, wherever they were before.
\<close>

definition SERVE_FD :: fd where "SERVE_FD = 3"
definition CHANNEL_FD :: fd where "CHANNEL_FD = 4"
definition SOCKET_FD :: fd where "SOCKET_FD = 5"

text \<open>\<open>fcntl(fd, F_DUPFD_CLOEXEC, 10)\<close>\<close>

definition dup_high :: "pid \<Rightarrow> fd \<Rightarrow> os \<Rightarrow> fd \<times> os" where
  "dup_high p f os = (let high = lowest_fd 10 p os in (high, dup_fd p f high True os))"

definition place_udp :: "pid \<Rightarrow> fd \<times> fd \<Rightarrow> os \<Rightarrow> os" where
  "place_udp p = (\<lambda>(channel, socket) os. dup2 p socket SOCKET_FD (dup2 p channel CHANNEL_FD os))"

definition exec_worker :: "pid \<Rightarrow> fd \<Rightarrow> (fd \<times> fd) option \<Rightarrow> os \<Rightarrow> os" where
  "exec_worker p stream udp os =
     (case dup_high p stream os of (fd, os) \<Rightarrow>
        let os =
          (case udp of
             None \<Rightarrow> os
           | Some (channel, socket) \<Rightarrow>
               (case dup_high p channel os of (channel, os) \<Rightarrow>
                  (case dup_high p socket os of (socket, os) \<Rightarrow> place_udp p (channel, socket) os)))
        in exec_process p (set_cloexec p SERVE_FD False (dup2 p fd SERVE_FD os)))"

lemma dup_high_entries:
  assumes "dup_high p f os = (h, os')" "fd_entry p f os = Some (d, c)" "keys_ok os"
  shows "10 \<le> h" "fd_entry p h os = None" "keys_ok os'"
    "fd_entry q g os' = (if (q, g) = (p, h) then Some (d, True) else fd_entry q g os)"
proof -
  have h: "h = lowest_fd 10 p os" "os' = dup_fd p f h True os" using assms(1) by (auto simp: dup_high_def Let_def)
  show "10 \<le> h" "fd_entry p h os = None" unfolding h(1) by (rule lowest_fd_laws)+
  then show "keys_ok os'" unfolding h(2) by (intro dup_keys assms(3))
  show "fd_entry q g os' = (if (q, g) = (p, h) then Some (d, True) else fd_entry q g os)"
    unfolding h(2) by (rule dup_entry [OF assms(2)])
qed

lemma dup2_keys: "keys_ok os \<Longrightarrow> keys_ok (dup2 p from to os)"
  by (simp add: dup2_def dup_keys close_fd_keys close_fd_entry)

text \<open>The last steps: the connection onto its descriptor, then \<open>exec\<close>.\<close>

lemma serve_entries:
  assumes "keys_ok os" "fd_entry p fd os = Some (d, True)" "10 \<le> fd"
  shows "fd_entry p g (exec_process p (set_cloexec p SERVE_FD False (dup2 p fd SERVE_FD os))) =
    (if g = SERVE_FD then Some (d, False)
     else case fd_entry p g os of Some (e, False) \<Rightarrow> Some (e, False) | _ \<Rightarrow> None)"
proof -
  have "fd \<noteq> SERVE_FD" using assms(3) by (simp add: SERVE_FD_def)
  moreover have "keys_ok (set_cloexec p SERVE_FD False (dup2 p fd SERVE_FD os))" by (simp add: dup2_keys assms(1))
  ultimately show ?thesis
    by (auto simp: exec_entry cloexec_entry dup2_entry [OF assms(2)] split: option.splits bool.splits)
qed


text \<open>The awkward case: the three sockets already sit on 3, 4 and 5, each on another's
  place, and the table also has a close-on-exec descriptor and the standard error.\<close>

definition crossed :: os where
  "crossed = \<lparr>os_inode = (\<lambda>_. None), os_target = (\<lambda>d. d), os_lock = (\<lambda>_. None),
     os_open = [((9, 2), (1, False)), ((9, 3), (12, True)), ((9, 4), (10, True)), ((9, 5), (11, True)), ((9, 6), (13, True))],
     os_fresh = 20, os_refused = (\<lambda>_. False)\<rparr>"


end
