(* ===== verification/Udp_Dispatch.thy ===== *)
theory Udp_Dispatch
  imports Pdu_V1
begin

text \<open>
  The supervisor's half of RDP-UDP (\<open>linrdp/src/udp_dispatch.rs\<close>) and the two functions of
  \<open>ironrdp-rdpeudp-tokio/src/transport.rs\<close> it relies on. One UDP port serves every
  connection: a worker registers the hash of its security cookie, the first SYN that carries
  the hash ties the client's address to that worker, and everything later from the address
  follows it. Hash maps are association lists, a channel is known by the worker it leads
  to, and what the sockets return is a list of outcomes, read until it says that nothing is
  waiting.
\<close>

section \<open>Addresses\<close>

datatype ip_addr = IpV4 bytes | IpV6 bytes

datatype socket_addr =
    SocketV4 bytes u16
  | SocketV6 bytes u16 u32 u32

fun sock_ip :: "socket_addr \<Rightarrow> ip_addr" where
  "sock_ip (SocketV4 ip port) = IpV4 ip"
| "sock_ip (SocketV6 ip port flowinfo scope) = IpV6 ip"

fun sock_port :: "socket_addr \<Rightarrow> u16" where
  "sock_port (SocketV4 ip port) = port"
| "sock_port (SocketV6 ip port flowinfo scope) = port"

text \<open>\<open>SocketAddr::new\<close>: flow information and scope are zero.\<close>

fun socket_new :: "ip_addr \<Rightarrow> u16 \<Rightarrow> socket_addr" where
  "socket_new (IpV4 ip) port = SocketV4 ip port"
| "socket_new (IpV6 ip) port = SocketV6 ip port 0 0"

definition to_ipv6_mapped :: "bytes \<Rightarrow> bytes" where
  "to_ipv6_mapped ip = replicate 10 0 @ [255, 255] @ ip"

definition to_ipv4_mapped :: "bytes \<Rightarrow> bytes option" where
  "to_ipv4_mapped octets = (if take 12 octets = replicate 10 0 @ [255, 255] then Some (drop 12 octets) else None)"

text \<open>The arrays behind the address types.\<close>

fun octets_ok :: "socket_addr \<Rightarrow> bool" where
  "octets_ok (SocketV4 ip port) = (length ip = 4)"
| "octets_ok (SocketV6 ip port flowinfo scope) = (length ip = 16)"

section \<open>Messages\<close>

definition REGISTER :: u8 where "REGISTER = 0x52"
definition DATAGRAM :: u8 where "DATAGRAM = 0x44"
definition ADDR_LEN :: usize where "ADDR_LEN = 1 + 16 + 2"

definition encode_register :: "bytes \<Rightarrow> bytes" where
  "encode_register hash = REGISTER # hash"

definition decode_register :: "bytes \<Rightarrow> bytes option" where
  "decode_register message =
     (case message of
        [] \<Rightarrow> None
      | tag # hash \<Rightarrow> if tag = REGISTER \<and> length hash = 32 then Some hash else None)"

definition encode_datagram :: "socket_addr \<Rightarrow> bytes \<Rightarrow> bytes" where
  "encode_datagram peer payload =
     DATAGRAM # (case sock_ip peer of IpV4 ip \<Rightarrow> 4 # to_ipv6_mapped ip | IpV6 ip \<Rightarrow> 6 # ip)
       @ be16 (sock_port peer) @ payload"

definition decode_datagram :: "bytes \<Rightarrow> (socket_addr \<times> bytes) option" where
  "decode_datagram message =
     (case message of
        [] \<Rightarrow> None
      | tag # rest \<Rightarrow>
          if tag \<noteq> DATAGRAM \<or> length rest < ADDR_LEN then None
          else
            let addr = take ADDR_LEN rest;
                payload = drop ADDR_LEN rest;
                octets = take 16 (drop 1 addr);
                ip = (if addr ! 0 = 4 then map_option IpV4 (to_ipv4_mapped octets)
                      else if addr ! 0 = 6 then Some (IpV6 octets) else None);
                port = u16_from_le_bytes (addr ! 18) (addr ! 17)
            in map_option (\<lambda>ip. (socket_new ip port, payload)) ip)"

section \<open>Cookies\<close>

text \<open>\<open>cookie_hash\<close>: the digest with every 4-byte word reversed. SHA-256 itself is the
  parameter \<open>sha256\<close>.\<close>

fun swap_words :: "bytes \<Rightarrow> bytes" where
  "swap_words (a # b # c # d # rest) = d # c # b # a # swap_words rest"
| "swap_words _ = []"

definition request_cookie_hash :: "(bytes \<Rightarrow> bytes) \<Rightarrow> bytes \<Rightarrow> bytes" where
  "request_cookie_hash sha256 security_cookie = swap_words (sha256 security_cookie)"

definition syn_cookie_hash :: "bytes \<Rightarrow> bytes option" where
  "syn_cookie_hash datagram =
     (case decode decode_v1_datagram datagram of
        Inl _ \<Rightarrow> None
      | Inr syn \<Rightarrow>
          if \<not> flags_contain (fec_flags (v1_header syn)) V1_SYN \<or> flags_contain (fec_flags (v1_header syn)) V1_ACK then None
          else Option.bind (v1_syn_data_ex syn) cookie_hash)"

section \<open>The store\<close>

type_synonym process = int

record store =
  requests :: "(bytes \<times> (process \<times> usize)) list"
  clients :: "((usize \<times> socket_addr) \<times> process) list"

definition store_register :: "process \<Rightarrow> usize \<Rightarrow> bytes \<Rightarrow> store \<Rightarrow> store" where
  "store_register pid listener hash s = s\<lparr>requests := AList.update hash (pid, listener) (requests s)\<rparr>"

definition route :: "usize \<Rightarrow> socket_addr \<Rightarrow> bytes option \<Rightarrow> store \<Rightarrow> process option \<times> store" where
  "route listener peer syn_hash s =
     (case map_of (clients s) (listener, peer) of
        Some pid \<Rightarrow> (Some pid, s)
      | None \<Rightarrow>
          (case syn_hash of
             None \<Rightarrow> (None, s)
           | Some hash \<Rightarrow>
               (case map_of (requests s) hash of
                  None \<Rightarrow> (None, s)
                | Some (pid, registered_on) \<Rightarrow>
                    if registered_on \<noteq> listener then (None, s)
                    else (Some pid, s\<lparr>requests := AList.delete hash (requests s),
                            clients := AList.update (listener, peer) pid (clients s)\<rparr>))))"

definition store_remove :: "process \<Rightarrow> store \<Rightarrow> store" where
  "store_remove pid s =
     s\<lparr>requests := filter (\<lambda>(_, owner, _). owner \<noteq> pid) (requests s),
       clients := filter (\<lambda>(_, owner). owner \<noteq> pid) (clients s)\<rparr>"

section \<open>The dispatch\<close>

record dispatch =
  ds_store :: store
  ds_channels :: "(process \<times> usize) list"

definition dispatch_default :: dispatch where
  "dispatch_default = \<lparr>ds_store = \<lparr>requests = [], clients = []\<rparr>, ds_channels = []\<rparr>"

definition add_worker :: "process \<Rightarrow> usize \<Rightarrow> dispatch \<Rightarrow> dispatch" where
  "add_worker pid listener d = d\<lparr>ds_channels := AList.update pid listener (ds_channels d)\<rparr>"

definition remove_worker :: "process \<Rightarrow> dispatch \<Rightarrow> dispatch" where
  "remove_worker pid d = d\<lparr>ds_channels := AList.delete pid (ds_channels d), ds_store := store_remove pid (ds_store d)\<rparr>"

datatype 'a recv = Received 'a | WouldBlock | Interrupted | RecvFailed

text \<open>One message from a worker, and one datagram from the port. A message longer than the
  buffer is cut to it.\<close>

definition channel_message :: "process \<Rightarrow> usize \<Rightarrow> bytes \<Rightarrow> dispatch \<Rightarrow> dispatch" where
  "channel_message pid listener message d =
     (case decode_register (take 64 message) of
        Some hash \<Rightarrow> d\<lparr>ds_store := store_register pid listener hash (ds_store d)\<rparr>
      | None \<Rightarrow> d)"

definition socket_datagram :: "usize \<Rightarrow> bytes \<Rightarrow> socket_addr \<Rightarrow> dispatch \<Rightarrow> dispatch \<times> (process \<times> bytes) list" where
  "socket_datagram listener received peer d =
     (let datagram = take 9000 received
      in case route listener peer (syn_cookie_hash datagram) (ds_store d) of
        (None, store) \<Rightarrow> (d\<lparr>ds_store := store\<rparr>, [])
      | (Some pid, store) \<Rightarrow>
          (d\<lparr>ds_store := store\<rparr>,
           case map_of (ds_channels d) pid of None \<Rightarrow> [] | Some _ \<Rightarrow> [(pid, encode_datagram peer datagram)]))"

fun read_channel_loop :: "process \<Rightarrow> usize \<Rightarrow> bytes recv list \<Rightarrow> dispatch \<Rightarrow> dispatch" where
  "read_channel_loop pid listener [] d = d"
| "read_channel_loop pid listener (Received message # rest) d =
     read_channel_loop pid listener rest (channel_message pid listener message d)"
| "read_channel_loop pid listener (WouldBlock # rest) d = d"
| "read_channel_loop pid listener (Interrupted # rest) d = read_channel_loop pid listener rest d"
| "read_channel_loop pid listener (RecvFailed # rest) d = d"

definition read_channel :: "process \<Rightarrow> bytes recv list \<Rightarrow> dispatch \<Rightarrow> dispatch" where
  "read_channel pid incoming d =
     (case map_of (ds_channels d) pid of
        None \<Rightarrow> d
      | Some listener \<Rightarrow> read_channel_loop pid listener incoming d)"

fun read_socket :: "usize \<Rightarrow> (bytes \<times> socket_addr) recv list \<Rightarrow> dispatch \<Rightarrow> dispatch \<times> (process \<times> bytes) list" where
  "read_socket listener [] d = (d, [])"
| "read_socket listener (Received (received, peer) # rest) d =
     (case socket_datagram listener received peer d of
        (d, sent) \<Rightarrow> (case read_socket listener rest d of (d, later) \<Rightarrow> (d, sent @ later)))"
| "read_socket listener (WouldBlock # rest) d = (d, [])"
| "read_socket listener (Interrupted # rest) d = read_socket listener rest d"
| "read_socket listener (RecvFailed # rest) d = read_socket listener rest d"

section \<open>Framing\<close>

lemma mapped_round_trip: "length ip = 4 \<Longrightarrow> to_ipv4_mapped (to_ipv6_mapped ip) = Some ip"
  by (simp add: to_ipv4_mapped_def to_ipv6_mapped_def)

lemma mapped_length [simp]: "length (to_ipv6_mapped ip) = 12 + length ip"
  by (simp add: to_ipv6_mapped_def)

lemma datagram_head:
  assumes "length octets = 16"
  shows "decode_datagram (DATAGRAM # family # octets @ be16 port @ payload) =
    map_option (\<lambda>ip. (socket_new ip port, payload))
      (if family = 4 then map_option IpV4 (to_ipv4_mapped octets) else if family = 6 then Some (IpV6 octets) else None)"
proof -
  have "take ADDR_LEN (family # octets @ be16 port @ payload) = family # octets @ be16 port"
    using assms by (simp add: ADDR_LEN_def)
  moreover have "drop ADDR_LEN (family # octets @ be16 port @ payload) = payload"
    using assms by (simp add: ADDR_LEN_def)
  moreover have "u16_from_le_bytes ((family # octets @ be16 port) ! 18) ((family # octets @ be16 port) ! 17) = port"
    using assms by (simp add: nth_append nth_Cons' byte_layouts)
  ultimately show ?thesis
    using assms by (simp add: decode_datagram_def ADDR_LEN_def Let_def)
qed

text \<open>
  The worker gets what the supervisor read: a datagram framed for the channel is taken
  apart into the same payload and the client's address and port, for both address families,
  and a registration is never mistaken for one. Of an IPv6 address the flow information and
  the scope are not carried.
\<close>

lemma channel_datagram_round_trip:
  assumes "octets_ok peer"
  shows "decode_datagram (encode_datagram peer payload) = Some (socket_new (sock_ip peer) (sock_port peer), payload) \<and>
    decode_datagram (encode_register hash) = None"
proof -
  have "decode_datagram (encode_datagram peer payload) = Some (socket_new (sock_ip peer) (sock_port peer), payload)"
    using assms by (cases peer) (simp_all add: encode_datagram_def datagram_head mapped_round_trip)
  then show ?thesis by (simp add: encode_register_def decode_datagram_def REGISTER_def DATAGRAM_def)
qed

text \<open>The scope of a link-local client is lost on the way to its worker, whose answers then
  have no interface to leave by.\<close>

lemma scope_is_lost:
  "length ip = 16 \<Longrightarrow> scope \<noteq> 0 \<Longrightarrow>
    map_option fst (decode_datagram (encode_datagram (SocketV6 ip port flow scope) payload)) \<noteq> Some (SocketV6 ip port flow scope)"
  by (simp add: encode_datagram_def datagram_head)

lemma register_round_trip: "length hash = 32 \<Longrightarrow> decode_register (take 64 (encode_register hash)) = Some hash"
  by (simp add: encode_register_def decode_register_def)

section \<open>Histories\<close>

text \<open>What happened to a dispatch, the latest first. The steps are the operations the
  supervisor's loop performs; \<open>read_channel\<close> and \<open>read_socket\<close> are sequences of them.\<close>

datatype happening =
    Added process usize
  | Removed process
  | FromWorker process bytes
  | Arrived usize socket_addr bytes "(process \<times> bytes) list"

inductive dispatched :: "happening list \<Rightarrow> dispatch \<Rightarrow> bool" where
  fresh: "dispatched [] dispatch_default"
| added: "dispatched past d \<Longrightarrow> dispatched (Added pid listener # past) (add_worker pid listener d)"
| removed: "dispatched past d \<Longrightarrow> dispatched (Removed pid # past) (remove_worker pid d)"
| message: "dispatched past d \<Longrightarrow> map_of (ds_channels d) pid = Some listener \<Longrightarrow>
    dispatched (FromWorker pid m # past) (channel_message pid listener m d)"
| arrival: "dispatched past d \<Longrightarrow> socket_datagram listener received peer d = (d', sent) \<Longrightarrow>
    dispatched (Arrived listener peer received sent # past) d'"

lemma channel_message_channels [simp]: "ds_channels (channel_message pid listener m d) = ds_channels d"
  by (simp add: channel_message_def split: option.splits)

lemma read_channel_dispatched:
  assumes "dispatched past d"
  obtains now where "dispatched (now @ past) (read_channel pid incoming d)"
proof -
  have loop: "\<exists>now. dispatched (now @ past) (read_channel_loop pid listener incoming d)"
    if "dispatched past d" "map_of (ds_channels d) pid = Some listener" for past d listener
    using that
  proof (induction incoming arbitrary: past d)
    case Nil
    then show ?case by (intro exI [of _ "[]"]) simp
  next
    case (Cons r rest)
    show ?case
    proof (cases r)
      case (Received m)
      from Cons.IH [OF dispatched.message [OF Cons.prems]] Cons.prems(2) obtain now where
        "dispatched (now @ FromWorker pid m # past) (read_channel_loop pid listener rest (channel_message pid listener m d))" by auto
      with Received show ?thesis by (intro exI [of _ "now @ [FromWorker pid m]"]) simp
    qed (use Cons in \<open>auto intro: exI [of _ "[]"]\<close>)
  qed
  show thesis
  proof (cases "map_of (ds_channels d) pid")
    case None
    with assms that [of "[]"] show thesis by (simp add: read_channel_def)
  next
    case (Some listener)
    from loop [OF assms Some] Some that show thesis by (auto simp: read_channel_def)
  qed
qed

lemma read_socket_dispatched:
  assumes "dispatched past d" "read_socket listener incoming d = (d', sent)"
  shows "\<exists>now. dispatched (now @ past) d' \<and>
    set sent = (\<Union>h \<in> set now. case h of Arrived l p r s \<Rightarrow> set s | _ \<Rightarrow> {})"
  using assms
proof (induction incoming arbitrary: past d sent)
  case Nil
  then show ?case by (intro exI [of _ "[]"]) simp
next
  case (Cons r rest)
  show ?case
  proof (cases r)
    case (Received x)
    obtain bs peer d1 s1 s2 where x: "x = (bs, peer)" "socket_datagram listener bs peer d = (d1, s1)"
      "read_socket listener rest d1 = (d', s2)" "sent = s1 @ s2"
      using Cons.prems(2) Received by (cases x) (auto split: prod.splits)
    from Cons.IH [OF dispatched.arrival [OF Cons.prems(1) x(2)] x(3)] obtain now where
      "dispatched (now @ Arrived listener peer bs s1 # past) d'"
      "set s2 = (\<Union>h \<in> set now. case h of Arrived l p r s \<Rightarrow> set s | _ \<Rightarrow> {})" by blast
    with x(4) show ?thesis by (intro exI [of _ "now @ [Arrived listener peer bs s1]"]) auto
  qed (use Cons in \<open>auto intro: exI [of _ "[]"]\<close>)
qed

section \<open>Who gets what\<close>

text \<open>Worker \<open>pid\<close> was started for \<open>listener\<close> and is still there.\<close>

definition started :: "process \<Rightarrow> usize \<Rightarrow> happening list \<Rightarrow> bool" where
  "started pid listener past \<longleftrightarrow> (\<exists>a c. past = a @ Added pid listener # c \<and> Removed pid \<notin> set a)"

text \<open>It has since asked for the clients that present \<open>hash\<close>.\<close>

definition asked :: "process \<Rightarrow> usize \<Rightarrow> bytes \<Rightarrow> happening list \<Rightarrow> bool" where
  "asked pid listener hash past \<longleftrightarrow> (\<exists>a m c. past = a @ FromWorker pid m # c \<and> Removed pid \<notin> set a \<and>
     decode_register (take 64 m) = Some hash \<and> started pid listener c)"

text \<open>And a SYN with that hash has since arrived from \<open>peer\<close> on its listener.\<close>

definition introduced :: "process \<Rightarrow> usize \<Rightarrow> socket_addr \<Rightarrow> happening list \<Rightarrow> bool" where
  "introduced pid listener peer past \<longleftrightarrow> (\<exists>a bs sent c hash. past = a @ Arrived listener peer bs sent # c \<and> Removed pid \<notin> set a \<and>
     syn_cookie_hash (take 9000 bs) = Some hash \<and> asked pid listener hash c)"

lemma history_Cons:
  "started pid l past \<Longrightarrow> h \<noteq> Removed pid \<Longrightarrow> started pid l (h # past)"
  "asked pid l hash past \<Longrightarrow> h \<noteq> Removed pid \<Longrightarrow> asked pid l hash (h # past)"
  "introduced pid l peer past \<Longrightarrow> h \<noteq> Removed pid \<Longrightarrow> introduced pid l peer (h # past)"
proof -
  show "started pid l past \<Longrightarrow> h \<noteq> Removed pid \<Longrightarrow> started pid l (h # past)"
    unfolding started_def by (metis append_Cons set_ConsD)
  show "asked pid l hash past \<Longrightarrow> h \<noteq> Removed pid \<Longrightarrow> asked pid l hash (h # past)"
    unfolding asked_def by (metis append_Cons set_ConsD)
  show "introduced pid l peer past \<Longrightarrow> h \<noteq> Removed pid \<Longrightarrow> introduced pid l peer (h # past)"
    unfolding introduced_def by (metis append_Cons set_ConsD)
qed

lemma history_now:
  "started pid l (Added pid l # past)"
  "decode_register (take 64 m) = Some hash \<Longrightarrow> started pid l past \<Longrightarrow> asked pid l hash (FromWorker pid m # past)"
  "syn_cookie_hash (take 9000 bs) = Some hash \<Longrightarrow> asked pid l hash past \<Longrightarrow> introduced pid l peer (Arrived l peer bs sent # past)"
  unfolding started_def asked_def introduced_def by (metis append_Nil empty_iff set_empty)+

definition dispatch_ok :: "happening list \<Rightarrow> dispatch \<Rightarrow> bool" where
  "dispatch_ok past d \<longleftrightarrow>
     distinct (map fst (ds_channels d)) \<and> distinct (map fst (requests (ds_store d))) \<and> distinct (map fst (clients (ds_store d))) \<and>
     (\<forall>(pid, l) \<in> set (ds_channels d). started pid l past) \<and>
     (\<forall>(hash, pid, l) \<in> set (requests (ds_store d)). asked pid l hash past) \<and>
     (\<forall>((l, peer), pid) \<in> set (clients (ds_store d)). introduced pid l peer past)"

lemma dispatch_okI:
  assumes "distinct (map fst (ds_channels d))" "distinct (map fst (requests (ds_store d)))" "distinct (map fst (clients (ds_store d)))"
    "\<And>pid l. (pid, l) \<in> set (ds_channels d) \<Longrightarrow> started pid l past"
    "\<And>hash pid l. (hash, pid, l) \<in> set (requests (ds_store d)) \<Longrightarrow> asked pid l hash past"
    "\<And>l peer pid. ((l, peer), pid) \<in> set (clients (ds_store d)) \<Longrightarrow> introduced pid l peer past"
  shows "dispatch_ok past d"
  using assms by (auto simp: dispatch_ok_def)

lemma dispatch_okD:
  assumes "dispatch_ok past d"
  shows "distinct (map fst (ds_channels d))" "distinct (map fst (requests (ds_store d)))" "distinct (map fst (clients (ds_store d)))"
    "\<And>pid l. (pid, l) \<in> set (ds_channels d) \<Longrightarrow> started pid l past"
    "\<And>hash pid l. (hash, pid, l) \<in> set (requests (ds_store d)) \<Longrightarrow> asked pid l hash past"
    "\<And>l peer pid. ((l, peer), pid) \<in> set (clients (ds_store d)) \<Longrightarrow> introduced pid l peer past"
  using assms by (auto simp: dispatch_ok_def)

lemma in_update: "x \<in> set (AList.update k v al) \<Longrightarrow> x = (k, v) \<or> x \<in> set al"
  using set_update_subset [of k v al] by blast

lemma in_delete: "x \<in> set (AList.delete k al) \<Longrightarrow> x \<in> set al"
  by (auto simp: AList.delete_eq)

lemma route_cases:
  assumes "route l peer syn s = (r, s')"
  obtains (dropped) "r = None" "s' = s"
    | (known) pid where "r = Some pid" "s' = s" "((l, peer), pid) \<in> set (clients s)"
    | (introduced) pid hash where "r = Some pid" "syn = Some hash" "(hash, pid, l) \<in> set (requests s)"
        "s' = s\<lparr>requests := AList.delete hash (requests s), clients := AList.update (l, peer) pid (clients s)\<rparr>"
proof (cases "map_of (clients s) (l, peer)")
  case (Some pid)
  with assms show thesis by (intro known [of pid]) (simp_all add: route_def map_of_SomeD)
next
  case unknown: None
  show thesis
  proof (cases syn)
    case None
    with assms unknown show thesis by (intro dropped) (simp_all add: route_def)
  next
    case (Some hash)
    show thesis
    proof (cases "map_of (requests s) hash")
      case None
      with assms unknown Some show thesis by (intro dropped) (simp_all add: route_def)
    next
      case req: (Some x)
      obtain pid l' where x: "x = (pid, l')" by fastforce
      show thesis
      proof (cases "l' = l")
        case True
        with assms unknown Some req x map_of_SomeD [OF req] show thesis
          by (intro introduced [of pid hash]) (simp_all add: route_def)
      next
        case False
        with assms unknown Some req x show thesis by (intro dropped) (simp_all add: route_def)
      qed
    qed
  qed
qed

lemma dispatched_ok: "dispatched past d \<Longrightarrow> dispatch_ok past d"
proof (induction rule: dispatched.induct)
  case fresh
  show ?case by (simp add: dispatch_ok_def dispatch_default_def)
next
  case (added past d pid listener)
  note ok = dispatch_okD [OF added.IH]
  show ?case
    by (rule dispatch_okI)
      (use ok in \<open>auto simp: add_worker_def distinct_update intro: history_now history_Cons dest!: in_update\<close>)
next
  case (removed past d pid)
  note ok = dispatch_okD [OF removed.IH]
  show ?case
    by (rule dispatch_okI)
      (use ok in \<open>auto simp: remove_worker_def store_remove_def distinct_delete distinct_map_filter AList.delete_eq intro!: history_Cons\<close>)
next
  case (message past d pid listener m)
  note ok = dispatch_okD [OF message.IH]
  have "started pid listener past" using message.hyps(2) ok(4) by (auto dest: map_of_SomeD)
  then show ?case
    by (intro dispatch_okI)
      (use ok in \<open>auto simp: channel_message_def store_register_def distinct_update intro: history_now history_Cons
        split: option.splits dest!: in_update\<close>)
next
  case (arrival past d listener received peer d' sent)
  note ok = dispatch_okD [OF arrival.IH]
  obtain r s where r: "route listener peer (syn_cookie_hash (take 9000 received)) (ds_store d) = (r, s)" "d' = d\<lparr>ds_store := s\<rparr>"
    using arrival.hyps(2) by (auto simp: socket_datagram_def Let_def split: prod.splits option.splits)
  from r(1) show ?case
  proof (cases rule: route_cases)
    case (introduced pid hash)
    then show ?thesis
      by (intro dispatch_okI)
        (use ok in \<open>auto simp: r(2) distinct_update distinct_delete intro: history_Cons history_now(3) dest!: in_update in_delete\<close>)
  qed (intro dispatch_okI; use ok r(2) in \<open>auto intro: history_Cons\<close>)+
qed

text \<open>
  C12. A client's datagrams reach only the connection that expects them: in whatever order
  workers come and go, registrations and datagrams arrive, a datagram is handed to a worker
  only if that worker, still running, was started for the listener it arrived on, has since
  registered a cookie hash there, and a SYN with exactly that hash has since come from the
  datagram's own address (possibly the datagram itself); and what is handed over is that
  datagram with that address.
\<close>

theorem delivered_only_by_cookie:
  assumes "dispatched (Arrived listener peer received sent # past) d" "(pid, message) \<in> set sent"
  shows "introduced pid listener peer (Arrived listener peer received sent # past) \<and>
    message = encode_datagram peer (take 9000 received)"
  using assms(1)
proof (cases rule: dispatched.cases)
  case (arrival d0)
  note ok = dispatch_okD [OF dispatched_ok [OF arrival(1)]]
  obtain r s where r: "route listener peer (syn_cookie_hash (take 9000 received)) (ds_store d0) = (r, s)" by fastforce
  with arrival(2) assms(2) have m: "r = Some pid" "message = encode_datagram peer (take 9000 received)"
    by (auto simp: socket_datagram_def Let_def split: option.splits)
  from r have "introduced pid listener peer (Arrived listener peer received sent # past)"
  proof (cases rule: route_cases)
    case (known p)
    with ok(6) m(1) show ?thesis by (auto intro: history_Cons)
  next
    case (introduced p hash)
    with ok(5) m(1) show ?thesis by (auto intro: history_now)
  qed (use m(1) in simp)
  with m(2) show ?thesis by blast
qed

section \<open>Clients that present the cookie\<close>

lemma syn_cookie_hash_layout:
  assumes "v1_datagram_valid d"
  shows "syn_cookie_hash (v1_datagram_layout d @ padding) =
    (if flags_contain (v1_compute_flags d) V1_SYN \<and> \<not> flags_contain (v1_compute_flags d) V1_ACK
     then Option.bind (v1_syn_data_ex d) cookie_hash else None)"
proof -
  have "decode decode_v1_datagram (v1_datagram_layout d @ padding) = Inr (v1_normal d)"
    using assms by (simp add: decode_def decode_v1_datagram_layout)
  then show ?thesis by (simp add: syn_cookie_hash_def v1_normal_def)
qed

text \<open>The other direction: a SYN from a new address that carries a registered hash goes to
  the worker that registered it.\<close>

lemma syn_reaches_worker:
  assumes "map_of (clients (ds_store d)) (listener, peer) = None" "syn_cookie_hash (take 9000 received) = Some hash"
    "map_of (requests (ds_store d)) hash = Some (pid, listener)" "map_of (ds_channels d) pid = Some l"
  shows "snd (socket_datagram listener received peer d) = [(pid, encode_datagram peer (take 9000 received))]"
  using assms by (simp add: socket_datagram_def route_def)

definition sample_syn_bytes :: bytes where
  "sample_syn_bytes = v1_datagram_layout sample_client_syn"

lemma sample_syn_hash: "syn_cookie_hash (take 9000 sample_syn_bytes) = Some (replicate 32 5)"
proof -
  have "length sample_syn_bytes = v1_datagram_size sample_client_syn"
    using v1_datagram_size_layout [OF sample_client_syn_valid] by (simp add: sample_syn_bytes_def)
  then have "take 9000 sample_syn_bytes = v1_datagram_layout sample_client_syn @ []"
    by (simp add: sample_syn_bytes_def sample_client_syn_def v1_datagram_size_def size_opt_def fec_header_size_def
        syn_data_size_def syn_data_ex_size_def)
  then show ?thesis
    unfolding \<open>take 9000 sample_syn_bytes = _\<close> syn_cookie_hash_layout [OF sample_client_syn_valid]
    by (simp add: sample_client_syn_def v1_compute_flags_def flag_eval)
qed

theorem delivered_only_by_cookie_witness:
  "\<exists>d. dispatched [Arrived 0 (SocketV4 [10, 0, 0, 1] 50000) sample_syn_bytes
       [(100, encode_datagram (SocketV4 [10, 0, 0, 1] 50000) (take 9000 sample_syn_bytes))],
     FromWorker 100 (encode_register (replicate 32 5)), Added 100 0] d \<and>
   introduced 100 0 (SocketV4 [10, 0, 0, 1] 50000) [Arrived 0 (SocketV4 [10, 0, 0, 1] 50000) sample_syn_bytes
       [(100, encode_datagram (SocketV4 [10, 0, 0, 1] 50000) (take 9000 sample_syn_bytes))],
     FromWorker 100 (encode_register (replicate 32 5)), Added 100 0]"
proof -
  let ?peer = "SocketV4 [10, 0, 0, 1] 50000"
  define d1 where "d1 = channel_message 100 0 (encode_register (replicate 32 5)) (add_worker 100 0 dispatch_default)"
  define d2 where "d2 = fst (socket_datagram 0 sample_syn_bytes ?peer d1)"
  have d1: "dispatched [FromWorker 100 (encode_register (replicate 32 5)), Added 100 0] d1"
    unfolding d1_def by (intro dispatched.intros) (simp add: add_worker_def dispatch_default_def)
  have state: "ds_store d1 = \<lparr>requests = [(replicate 32 5, (100, 0))], clients = []\<rparr>" "ds_channels d1 = [(100, 0)]"
    by (simp_all add: d1_def channel_message_def register_round_trip store_register_def add_worker_def dispatch_default_def)
  have "snd (socket_datagram 0 sample_syn_bytes ?peer d1) = [(100, encode_datagram ?peer (take 9000 sample_syn_bytes))]"
    by (rule syn_reaches_worker [OF _ sample_syn_hash]) (simp_all add: state)
  then have "socket_datagram 0 sample_syn_bytes ?peer d1 = (d2, [(100, encode_datagram ?peer (take 9000 sample_syn_bytes))])"
    by (simp add: d2_def prod_eq_iff)
  from dispatched.arrival [OF d1 this] delivered_only_by_cookie [OF dispatched.arrival [OF d1 this]] show ?thesis
    by (intro exI [of _ d2]) simp
qed

section \<open>One client per registration\<close>

definition asks :: "process \<Rightarrow> happening \<Rightarrow> bool" where
  "asks pid h = (case h of FromWorker p m \<Rightarrow> p = pid \<and> decode_register (take 64 m) \<noteq> None | _ \<Rightarrow> False)"

definition outstanding :: "process \<Rightarrow> dispatch \<Rightarrow> nat" where
  "outstanding pid d = length (filter (\<lambda>(_, owner, _). owner = pid) (requests (ds_store d)))"

definition admitted :: "process \<Rightarrow> dispatch \<Rightarrow> nat" where
  "admitted pid d = length (filter (\<lambda>(_, owner). owner = pid) (clients (ds_store d)))"

lemma asks_simps [simp]:
  "\<not> asks pid (Added p l)" "\<not> asks pid (Removed p)" "\<not> asks pid (Arrived l peer bs sent)"
  by (simp_all add: asks_def)

lemma length_filter_update:
  "length (filter P (AList.update k v al)) \<le> length (filter P al) + (if P (k, v) then 1 else 0)"
  by (induction al) auto

lemma length_filter_delete:
  assumes "(k, v) \<in> set al" "P (k, v)"
  shows "length (filter P (AList.delete k al)) < length (filter P al)"
proof -
  have le: "length (filter P (AList.delete k al)) \<le> length (filter P al)" for al
    by (induction al) (auto simp: AList.delete_eq)
  show ?thesis using assms
  proof (induction al)
    case (Cons a al)
    then show ?case using le [of al] by (cases a) (auto simp: AList.delete_eq less_Suc_eq_le)
  qed simp
qed

lemma length_filter_delete_le: "length (filter P (AList.delete k al)) \<le> length (filter P al)"
  by (induction al) (auto simp: AList.delete_eq)

lemma length_filter_filter: "length (filter P (filter Q al)) \<le> length (filter P al)"
  by (induction al) auto

text \<open>
  C26. A cookie admits one client: however the datagrams and registrations interleave, the
  client addresses routed to a worker and the requests it still has open are together no
  more than the registrations it has made, so a request is answered at most once, and
  whoever replays a SYN from another address reaches nobody.
\<close>

theorem one_client_per_registration:
  assumes "dispatched past d"
  shows "admitted pid d + outstanding pid d \<le> length (filter (asks pid) past)"
  using assms
proof (induction rule: dispatched.induct)
  case (removed past d p)
  have "admitted pid (remove_worker p d) \<le> admitted pid d" "outstanding pid (remove_worker p d) \<le> outstanding pid d"
    by (simp_all add: admitted_def outstanding_def remove_worker_def store_remove_def length_filter_filter del: filter_filter)
  with removed.IH show ?case by simp
next
  case (message past d p l m)
  have "outstanding pid (channel_message p l m d) \<le> outstanding pid d + (if asks pid (FromWorker p m) then 1 else 0)"
    using length_filter_update [of "\<lambda>(_, owner, _). owner = pid" _ "(p, l)" "requests (ds_store d)"]
    by (auto simp: outstanding_def channel_message_def store_register_def asks_def split: option.splits)
  moreover have "admitted pid (channel_message p l m d) = admitted pid d"
    by (simp add: admitted_def channel_message_def store_register_def split: option.splits)
  ultimately show ?case using message.IH by (auto split: if_splits)
next
  case (arrival past d l bs peer d' sent)
  obtain r s where r: "route l peer (syn_cookie_hash (take 9000 bs)) (ds_store d) = (r, s)" "d' = d\<lparr>ds_store := s\<rparr>"
    using arrival.hyps(2) by (auto simp: socket_datagram_def Let_def split: prod.splits option.splits)
  from r(1) have "admitted pid d' + outstanding pid d' \<le> admitted pid d + outstanding pid d"
  proof (cases rule: route_cases)
    case (introduced p hash)
    let ?mine = "\<lambda>(k :: usize \<times> socket_addr, owner). owner = pid" and ?open = "\<lambda>(k :: bytes, owner, l :: usize). owner = pid"
    from length_filter_update [of ?mine "(l, peer)" p "clients (ds_store d)"]
    have "admitted pid d' \<le> admitted pid d + (if p = pid then 1 else 0)" by (simp add: admitted_def r(2) introduced(4))
    moreover have "outstanding pid d' + (if p = pid then 1 else 0) \<le> outstanding pid d"
      using length_filter_delete [OF introduced(3), of ?open] length_filter_delete_le [of ?open hash "requests (ds_store d)"]
      by (cases "p = pid") (simp_all add: outstanding_def r(2) introduced(4) Suc_le_eq)
    ultimately show ?thesis by (cases "p = pid") auto
  qed (simp_all add: r(2))
  with arrival.IH show ?case by simp
qed (simp_all add: admitted_def outstanding_def dispatch_default_def add_worker_def)

theorem one_client_per_registration_witness:
  "\<exists>d. dispatched [FromWorker 100 (encode_register (replicate 32 5)), Added 100 0] d \<and> admitted 100 d + outstanding 100 d \<le> 1"
proof -
  define d where "d = channel_message 100 0 (encode_register (replicate 32 5)) (add_worker 100 0 dispatch_default)"
  have "dispatched [FromWorker 100 (encode_register (replicate 32 5)), Added 100 0] d"
    unfolding d_def by (intro dispatched.intros) (simp add: add_worker_def dispatch_default_def)
  with one_client_per_registration [OF this, of 100] show ?thesis
    by (intro exI [of _ d]) (simp add: asks_def register_round_trip)
qed

end
