(* ===== verification/Supervisor.thy ===== *)
theory Supervisor
  imports Udp_Dispatch Rust_Text
begin

text \<open>
  The supervisor (\<open>linrdp/src/supervisor.rs\<close>): it binds the listeners, accepts, forks a worker
  per connection within a budget, reaps, and feeds the UDP dispatch. One pass of its
  \<open>poll\<close> loop is a function of what the system calls of that pass return; a run is a
  sequence of passes.
\<close>

section \<open>Listeners\<close>

record listener =
  ln_bind :: string
  ln_udp :: bool

text \<open>\<open>bind_all\<close>: whether an address can be bound, and whether its listener has UDP, are
  the operating system's and the configuration's answers.\<close>

definition bind_udp :: "(string \<Rightarrow> bool) \<Rightarrow> (string \<Rightarrow> bool) \<Rightarrow> string \<Rightarrow> bool" where
  "bind_udp udp_wanted udp_binds bind \<longleftrightarrow> udp_wanted bind \<and> udp_binds bind"

fun bind_each :: "(string \<Rightarrow> bool) \<Rightarrow> (string \<Rightarrow> bool) \<Rightarrow> (string \<Rightarrow> bool) \<Rightarrow> string list \<Rightarrow> listener list \<times> string list" where
  "bind_each tcp_binds udp_wanted udp_binds [] = ([], [])"
| "bind_each tcp_binds udp_wanted udp_binds (bind # rest) =
     (case bind_each tcp_binds udp_wanted udp_binds rest of
        (bound, failures) \<Rightarrow>
          if tcp_binds bind then (\<lparr>ln_bind = bind, ln_udp = bind_udp udp_wanted udp_binds bind\<rparr> # bound, failures)
          else (bound, bind # failures))"

definition bind_all :: "(string \<Rightarrow> bool) \<Rightarrow> (string \<Rightarrow> bool) \<Rightarrow> (string \<Rightarrow> bool) \<Rightarrow> string list \<Rightarrow> string list + listener list" where
  "bind_all tcp_binds udp_wanted udp_binds listeners =
     (case bind_each tcp_binds udp_wanted udp_binds listeners of
        (bound, failures) \<Rightarrow> if failures \<noteq> [] then Inl failures else Inr bound)"

section \<open>Workers\<close>

record limits =
  max_workers :: u32
  max_per_client :: u32
  handshake_seconds :: u32

text \<open>Times are nanoseconds of the monotonic clock.\<close>

record workers =
  wk_live :: "(process \<times> ip_addr) list"
  wk_limits :: limits
  wk_refused :: u64
  wk_last_report :: "nat option"

definition REPORT_EVERY :: nat where "REPORT_EVERY = 10 * 10 ^ 9"

definition workers_new :: "limits \<Rightarrow> workers" where
  "workers_new limits = \<lparr>wk_live = [], wk_limits = limits, wk_refused = 0, wk_last_report = None\<rparr>"

text \<open>\<open>waitpid(-1, WNOHANG)\<close> until it returns no pid.\<close>

fun reap :: "process list \<Rightarrow> workers \<times> dispatch \<Rightarrow> workers \<times> dispatch" where
  "reap [] (w, d) = (w, d)"
| "reap (dead # rest) (w, d) =
     (if dead \<le> 0 then (w, d)
      else reap rest (w\<lparr>wk_live := AList.delete dead (wk_live w)\<rparr>, remove_worker dead d))"

definition count_u32 :: "nat \<Rightarrow> u32" where
  "count_u32 n = (if n < 2 ^ 32 then of_nat n else - 1)"

datatype refusal = TooManyWorkers u32 | TooManyFrom ip_addr u32

definition admit :: "ip_addr \<Rightarrow> workers \<Rightarrow> refusal + unit" where
  "admit peer w =
     (let total = count_u32 (length (wk_live w));
          from_peer = count_u32 (length (filter (\<lambda>(_, ip). ip = peer) (wk_live w)))
      in if max_workers (wk_limits w) \<le> total then Inl (TooManyWorkers total)
         else if max_per_client (wk_limits w) \<le> from_peer then Inl (TooManyFrom peer from_peer)
         else Inr ())"

definition record_worker :: "process \<Rightarrow> ip_addr \<Rightarrow> workers \<Rightarrow> workers" where
  "record_worker pid peer w = w\<lparr>wk_live := AList.update pid peer (wk_live w)\<rparr>"

definition note_refusal :: "nat \<Rightarrow> workers \<Rightarrow> workers" where
  "note_refusal now w =
     (let w = w\<lparr>wk_refused := u64_add (wk_refused w) 1\<rparr>
      in if (case wk_last_report w of None \<Rightarrow> False | Some at \<Rightarrow> now - at < REPORT_EVERY) then w
         else w\<lparr>wk_last_report := Some now, wk_refused := 0\<rparr>)"

section \<open>Accepting\<close>

text \<open>What \<open>accept\<close> returns, and with a connection what the calls made for it return: the
  pids \<open>waitpid\<close> reports, the clock, whether a channel could be made, and \<open>fork\<close> as the
  parent sees it.\<close>

datatype accept_outcome =
    Accepted socket_addr "process list" nat bool "process option"
  | AcceptWouldBlock
  | AcceptInterrupted
  | AcceptFailed

fun accept_all :: "usize \<Rightarrow> listener \<Rightarrow> accept_outcome list \<Rightarrow> workers \<times> dispatch \<Rightarrow> workers \<times> dispatch" where
  "accept_all index bound [] s = s"
| "accept_all index bound (Accepted peer dead now paired forked # rest) s =
     (case reap dead s of (w, d) \<Rightarrow>
        (case admit (sock_ip peer) w of
           Inl reason \<Rightarrow> accept_all index bound rest (note_refusal now w, d)
         | Inr _ \<Rightarrow>
             (case forked of
                None \<Rightarrow> accept_all index bound rest (w, d)
              | Some pid \<Rightarrow>
                  accept_all index bound rest
                    (record_worker pid (sock_ip peer) w,
                     if ln_udp bound \<and> paired then add_worker pid index d else d))))"
| "accept_all index bound (AcceptWouldBlock # rest) s = s"
| "accept_all index bound (AcceptInterrupted # rest) s = accept_all index bound rest s"
| "accept_all index bound (AcceptFailed # rest) s = s"

section \<open>One pass of the loop\<close>

definition POLLIN :: u16 where "POLLIN = 1"
definition POLLERR :: u16 where "POLLERR = 8"
definition POLLHUP :: u16 where "POLLHUP = 16"
definition POLLNVAL :: u16 where "POLLNVAL = 32"

datatype verdict_kind = VerdictReady | VerdictIdle | VerdictDead

definition verdict :: "u16 \<Rightarrow> verdict_kind" where
  "verdict revents =
     (if revents AND (POLLNVAL OR POLLERR OR POLLHUP) \<noteq> 0 then VerdictDead
      else if revents AND POLLIN \<noteq> 0 then VerdictReady
      else VerdictIdle)"

record supervisor =
  sv_listeners :: "listener list"
  sv_workers :: workers
  sv_dispatch :: dispatch

text \<open>What one pass sees: the pids reaped first, whether \<open>poll\<close> itself failed, the readable
  UDP ports and worker channels with what they hold, and for each listener its \<open>revents\<close>
  with what accepting on it returns.\<close>

record pass =
  ps_dead :: "process list"
  ps_failed :: bool
  ps_udp :: "(usize \<times> (bytes \<times> socket_addr) recv list) list"
  ps_channels :: "(process \<times> bytes recv list) list"
  ps_listeners :: "(u16 \<times> accept_outcome list) list"

fun read_ports :: "listener list \<Rightarrow> (usize \<times> (bytes \<times> socket_addr) recv list) list \<Rightarrow> dispatch
    \<Rightarrow> dispatch \<times> (process \<times> bytes) list" where
  "read_ports live [] d = (d, [])"
| "read_ports live ((index, incoming) # rest) d =
     (if index < length live \<and> ln_udp (live ! index) then
        (case read_socket index incoming d of
           (d, sent) \<Rightarrow> (case read_ports live rest d of (d, later) \<Rightarrow> (d, sent @ later)))
      else read_ports live rest d)"

fun serve_listeners :: "usize \<Rightarrow> listener list \<Rightarrow> (u16 \<times> accept_outcome list) list \<Rightarrow> workers \<times> dispatch
    \<Rightarrow> (workers \<times> dispatch) \<times> usize list" where
  "serve_listeners index (bound # live) ((revents, accepts) # rest) s =
     (case verdict revents of
        VerdictDead \<Rightarrow> (case serve_listeners (Suc index) live rest s of (s, dead) \<Rightarrow> (s, index # dead))
      | VerdictReady \<Rightarrow> serve_listeners (Suc index) live rest (accept_all index bound accepts s)
      | VerdictIdle \<Rightarrow> serve_listeners (Suc index) live rest s)"
| "serve_listeners index live ready s = (s, [])"

text \<open>\<open>Vec::remove\<close>, for the indices from the last to the first.\<close>

definition vec_remove :: "usize \<Rightarrow> 'a list \<Rightarrow> 'a list" where
  "vec_remove index xs = take index xs @ drop (Suc index) xs"

definition run_pass :: "pass \<Rightarrow> supervisor \<Rightarrow> (supervisor \<times> (process \<times> bytes) list) option" where
  "run_pass p sv =
     (case reap (ps_dead p) (sv_workers sv, sv_dispatch sv) of (w, d) \<Rightarrow>
        if ps_failed p then Some (sv\<lparr>sv_workers := w, sv_dispatch := d\<rparr>, [])
        else
          (case read_ports (sv_listeners sv) (ps_udp p) d of (d, sent) \<Rightarrow>
             let d = fold (\<lambda>(pid, incoming). read_channel pid incoming) (ps_channels p) d
             in case serve_listeners 0 (sv_listeners sv) (ps_listeners p) (w, d) of ((w, d), dead) \<Rightarrow>
               let live = fold vec_remove (rev dead) (sv_listeners sv)
               in if live = [] then None
                  else Some (\<lparr>sv_listeners = live, sv_workers = w, sv_dispatch = d\<rparr>, sent)))"

definition start_supervisor :: "listener list \<Rightarrow> limits \<Rightarrow> supervisor option" where
  "start_supervisor live limits =
     (if live = [] then None
      else Some \<lparr>sv_listeners = live, sv_workers = workers_new limits, sv_dispatch = dispatch_default\<rparr>)"

section \<open>What a worker is started with\<close>

definition worker_argv :: "string option \<Rightarrow> string option \<Rightarrow> string \<Rightarrow> string list" where
  "worker_argv config log_level bind =
     [''--listener'', bind]
     @ (case config of None \<Rightarrow> [] | Some path \<Rightarrow> [''--config'', path])
     @ (case log_level of None \<Rightarrow> [] | Some level \<Rightarrow> [''--log-level'', level])"

definition worker_program :: "string \<Rightarrow> string" where
  "worker_program exe = (case strip_suffix '' (deleted)'' exe of Some trimmed \<Rightarrow> trimmed | None \<Rightarrow> exe)"

section \<open>Tables of processes\<close>

text \<open>The budget and the dispatch both keep tables of workers. What reaping relies on is only
  that forgetting a process takes exactly that process out.\<close>

locale process_table =
  fixes members :: "'t \<Rightarrow> process set"
    and forget :: "process \<Rightarrow> 't \<Rightarrow> 't"
  assumes members_forget: "members (forget p t) = members t - {p}"
begin

lemma members_forget_all: "members (fold forget ps t) = members t - set ps"
  by (induction ps arbitrary: t) (auto simp: members_forget)

lemma forgotten: "p \<in> set ps \<Longrightarrow> p \<notin> members (fold forget ps t)"
  by (simp add: members_forget_all)

end

definition live_members :: "workers \<Rightarrow> process set" where
  "live_members w = fst ` set (wk_live w)"

definition live_forget :: "process \<Rightarrow> workers \<Rightarrow> workers" where
  "live_forget p w = w\<lparr>wk_live := AList.delete p (wk_live w)\<rparr>"

text \<open>Everybody the dispatch knows: a channel, an open request or a client's route.\<close>

definition dispatch_members :: "dispatch \<Rightarrow> process set" where
  "dispatch_members d = fst ` set (ds_channels d) \<union> (fst \<circ> snd) ` set (requests (ds_store d)) \<union> snd ` set (clients (ds_store d))"

lemma dispatch_members_iff:
  "p \<in> dispatch_members d \<longleftrightarrow> (\<exists>l. (p, l) \<in> set (ds_channels d)) \<or> (\<exists>h l. (h, p, l) \<in> set (requests (ds_store d))) \<or>
     (\<exists>k. (k, p) \<in> set (clients (ds_store d)))"
proof -
  have "p \<in> fst ` A \<longleftrightarrow> (\<exists>l. (p, l) \<in> A)" for A :: "(process \<times> usize) set"
    unfolding image_iff by (metis prod.collapse fst_conv)
  moreover have "p \<in> (fst \<circ> snd) ` A \<longleftrightarrow> (\<exists>h l. (h, p, l) \<in> A)" for A :: "(bytes \<times> process \<times> usize) set"
    unfolding image_iff comp_def by (metis fst_conv prod.collapse snd_conv)
  moreover have "p \<in> snd ` A \<longleftrightarrow> (\<exists>k. (k, p) \<in> A)" for A :: "((usize \<times> socket_addr) \<times> process) set"
    unfolding image_iff by (metis prod.collapse snd_conv)
  ultimately show ?thesis unfolding dispatch_members_def Un_iff by simp
qed

interpretation live: process_table live_members live_forget
  by unfold_locales (auto simp: live_members_def live_forget_def AList.delete_eq image_iff)

interpretation dispatch_table: process_table dispatch_members remove_worker
proof
  fix p d
  have "q \<in> dispatch_members (remove_worker p d) \<longleftrightarrow> q \<in> dispatch_members d \<and> q \<noteq> p" for q
    unfolding dispatch_members_iff by (auto simp: remove_worker_def store_remove_def AList.delete_eq)
  then show "dispatch_members (remove_worker p d) = dispatch_members d - {p}" by blast
qed

lemma reap_forgets:
  "reap dead (w, d) = (fold live_forget (takeWhile (\<lambda>p. 0 < p) dead) w, fold remove_worker (takeWhile (\<lambda>p. 0 < p) dead) d)"
  by (induction dead arbitrary: w d) (auto simp: live_forget_def)

lemma dispatch_members_add: "dispatch_members (add_worker pid l d) \<subseteq> insert pid (dispatch_members d)"
  by (auto simp: dispatch_members_def add_worker_def dest!: in_update)

lemma dispatch_members_message:
  "pid \<in> dispatch_members d \<Longrightarrow> dispatch_members (channel_message pid l m d) \<subseteq> dispatch_members d"
  unfolding subset_eq Ball_def dispatch_members_iff channel_message_def store_register_def
  by (auto split: option.splits dest!: in_update)

lemma dispatch_members_channel: "dispatch_members (read_channel pid incoming d) \<subseteq> dispatch_members d"
proof -
  have loop: "dispatch_members (read_channel_loop pid l incoming d) \<subseteq> dispatch_members d" if "pid \<in> fst ` set (ds_channels d)" for l d
    using that
  proof (induction incoming arbitrary: d)
    case (Cons r rest)
    show ?case
    proof (cases r)
      case (Received m)
      have "pid \<in> dispatch_members d" using Cons.prems by (simp add: dispatch_members_def)
      from order_trans [OF Cons.IH dispatch_members_message [OF this]] Cons.prems Received show ?thesis by simp
    qed (use Cons in simp_all)
  qed simp
  show ?thesis
  proof (cases "map_of (ds_channels d) pid")
    case (Some l)
    then have "pid \<in> fst ` set (ds_channels d)" by (metis domI dom_map_of_conv_image_fst)
    with loop Some show ?thesis by (simp add: read_channel_def)
  qed (simp add: read_channel_def)
qed

lemma socket_datagram_members:
  assumes "socket_datagram l bs peer d = (d', sent)"
  shows "dispatch_members d' \<subseteq> dispatch_members d" "fst ` set sent \<subseteq> dispatch_members d"
proof -
  obtain r s where r: "route l peer (syn_cookie_hash (take 9000 bs)) (ds_store d) = (r, s)" by fastforce
  then have d': "d' = d\<lparr>ds_store := s\<rparr>" using assms by (auto simp: socket_datagram_def Let_def split: option.splits)
  from r show "dispatch_members d' \<subseteq> dispatch_members d"
  proof (cases rule: route_cases)
    case (introduced pid hash)
    then have pid: "pid \<in> dispatch_members d" unfolding dispatch_members_iff by blast
    have "p \<in> dispatch_members d" if "p \<in> dispatch_members d'" for p
      using that pid introduced(4) unfolding d' dispatch_members_iff by (auto dest!: in_update in_delete)
    then show ?thesis by blast
  qed (auto simp: d' dispatch_members_def)
  show "fst ` set sent \<subseteq> dispatch_members d"
    using assms r by (auto simp: socket_datagram_def Let_def dispatch_members_iff split: option.splits dest!: map_of_SomeD)
qed

lemma read_socket_members:
  assumes "read_socket l incoming d = (d', sent)"
  shows "dispatch_members d' \<subseteq> dispatch_members d \<and> fst ` set sent \<subseteq> dispatch_members d"
  using assms
proof (induction incoming arbitrary: d sent)
  case (Cons r rest)
  show ?case
  proof (cases r)
    case (Received x)
    obtain bs peer d1 s1 s2 where x: "socket_datagram l bs peer d = (d1, s1)"
      "read_socket l rest d1 = (d', s2)" "sent = s1 @ s2"
      using Cons.prems Received by (cases x) (auto split: prod.splits)
    from Cons.IH [OF x(2)] socket_datagram_members [OF x(1)] x(3) show ?thesis by auto
  qed (use Cons in auto)
qed auto

lemma read_ports_members:
  assumes "read_ports live ports d = (d', sent)"
  shows "dispatch_members d' \<subseteq> dispatch_members d \<and> fst ` set sent \<subseteq> dispatch_members d"
  using assms
proof (induction ports arbitrary: d sent)
  case (Cons p ports)
  obtain index incoming where p: "p = (index, incoming)" by fastforce
  show ?case
  proof (cases "index < length live \<and> ln_udp (live ! index)")
    case True
    obtain d1 s1 s2 where x: "read_socket index incoming d = (d1, s1)" "read_ports live ports d1 = (d', s2)" "sent = s1 @ s2"
      using Cons.prems True p by (auto split: prod.splits)
    from Cons.IH [OF x(2)] read_socket_members [OF x(1)] x(3) show ?thesis by auto
  next
    case False
    with Cons.IH Cons.prems p show ?thesis by (simp del: split_paired_All)
  qed
qed auto

lemma read_channels_members:
  "dispatch_members (fold (\<lambda>(pid, incoming). read_channel pid incoming) ch d) \<subseteq> dispatch_members d"
proof (induction ch arbitrary: d)
  case (Cons c ch)
  obtain pid incoming where c: "c = (pid, incoming)" by fastforce
  from Cons.IH [of "read_channel pid incoming d"] dispatch_members_channel [of pid incoming d] show ?case by (auto simp: c)
qed simp

section \<open>The budget\<close>

definition budget_ok :: "workers \<Rightarrow> bool" where
  "budget_ok w \<longleftrightarrow> distinct (map fst (wk_live w)) \<and> length (wk_live w) \<le> unat (max_workers (wk_limits w)) \<and>
     (\<forall>ip. length (filter (\<lambda>(_, ip'). ip' = ip) (wk_live w)) \<le> unat (max_per_client (wk_limits w)))"

lemma count_less: "count_u32 n < m \<Longrightarrow> n < unat m"
proof -
  assume "count_u32 n < m"
  then have lt: "unat (count_u32 n) < unat m" by (simp add: word_less_nat_alt)
  show "n < unat m"
  proof (cases "n < 2 ^ 32")
    case True
    then have "unat (count_u32 n) = n" by (simp add: count_u32_def unat_of_nat take_bit_nat_eq_self)
    with lt show ?thesis by simp
  next
    case False
    then have "unat (count_u32 n) = 2 ^ 32 - 1" by (simp add: count_u32_def unsigned_minus_1_eq_mask mask_eq_exp_minus_1)
    with lt unat_u32_bound [of m] show ?thesis by simp
  qed
qed

lemma admit_room:
  "admit peer w = Inr () \<Longrightarrow> length (wk_live w) < unat (max_workers (wk_limits w)) \<and>
     length (filter (\<lambda>(_, ip). ip = peer) (wk_live w)) < unat (max_per_client (wk_limits w))"
  by (auto simp: admit_def Let_def not_le count_less split: if_splits)

lemma budget_forget: "budget_ok w \<Longrightarrow> budget_ok (live_forget p w)"
proof -
  assume ok: "budget_ok w"
  have len: "length (filter P (AList.delete p al)) \<le> length (filter P al)" for P and al :: "(process \<times> ip_addr) list"
    by (rule length_filter_delete_le)
  from len [of "\<lambda>_. True" "wk_live w"] ok show ?thesis
    by (auto simp: budget_ok_def live_forget_def distinct_delete intro: order_trans [OF len])
qed

lemma budget_record:
  assumes "budget_ok w" "admit peer w = Inr ()"
  shows "budget_ok (record_worker pid peer w)"
proof -
  note room = admit_room [OF assms(2)] and ok = assms(1) [unfolded budget_ok_def]
  have len: "length (filter P (AList.update pid peer (wk_live w))) \<le> length (filter P (wk_live w)) + (if P (pid, peer) then 1 else 0)" for P
    by (rule length_filter_update)
  have "length (filter (\<lambda>(_, ip'). ip' = ip) (AList.update pid peer (wk_live w))) \<le> unat (max_per_client (wk_limits w))" for ip
    using len [of "\<lambda>(_, ip'). ip' = ip"] room ok by (cases "ip = peer") (auto intro: order_trans)
  with len [of "\<lambda>_. True"] room ok show ?thesis
    by (simp add: budget_ok_def record_worker_def distinct_update)
qed

lemma budget_note [simp]: "budget_ok (note_refusal now w) = budget_ok w" "wk_live (note_refusal now w) = wk_live w"
    "wk_limits (note_refusal now w) = wk_limits w"
  by (simp_all add: note_refusal_def Let_def budget_ok_def)

text \<open>The invariant of the supervisor's tables.\<close>

definition tables_ok :: "limits \<Rightarrow> workers \<times> dispatch \<Rightarrow> bool" where
  "tables_ok limits = (\<lambda>(w, d). wk_limits w = limits \<and> budget_ok w \<and> dispatch_members d \<subseteq> live_members w)"

lemma tables_reap: "tables_ok lim s \<Longrightarrow> tables_ok lim (reap dead s)"
proof -
  assume ok: "tables_ok lim s"
  obtain w d where s: "s = (w, d)" by fastforce
  have "wk_limits (fold live_forget ps w) = wk_limits w" for ps w
    by (induction ps arbitrary: w) (simp_all add: live_forget_def)
  moreover have "budget_ok w \<Longrightarrow> budget_ok (fold live_forget ps w)" for ps w
    by (induction ps arbitrary: w) (simp_all add: budget_forget)
  ultimately show ?thesis
    using ok by (auto simp: s tables_ok_def reap_forgets live.members_forget_all dispatch_table.members_forget_all)
qed

lemma tables_accept: "tables_ok lim s \<Longrightarrow> tables_ok lim (accept_all index bound accepts s)"
proof (induction accepts arbitrary: s)
  case (Cons a accepts)
  show ?case
  proof (cases a)
    case (Accepted peer dead now paired forked)
    obtain w d where r: "reap dead s = (w, d)" by fastforce
    have ok: "tables_ok lim (w, d)" using tables_reap [OF Cons.prems] r by metis
    show ?thesis
    proof (cases "admit (sock_ip peer) w")
      case (Inl reason)
      with ok Cons.IH [of "(note_refusal now w, d)"] r Accepted show ?thesis by (simp add: tables_ok_def live_members_def)
    next
      case (Inr u)
      then have room: "admit (sock_ip peer) w = Inr ()" by simp
      show ?thesis
      proof (cases forked)
        case None
        with Inr ok Cons.IH [of "(w, d)"] r Accepted show ?thesis by simp
      next
        case (Some pid)
        have live: "live_members (record_worker pid (sock_ip peer) w) = insert pid (live_members w)"
          by (simp add: live_members_def record_worker_def flip: dom_map_of_conv_image_fst) (simp add: update_conv')
        have "tables_ok lim (record_worker pid (sock_ip peer) w, if ln_udp bound \<and> paired then add_worker pid index d else d)"
          using ok budget_record [OF _ room] dispatch_members_add [of pid index d] live
          by (auto simp: tables_ok_def record_worker_def)
        with Cons.IH Some Inr r Accepted show ?thesis by simp
      qed
    qed
  qed (use Cons in simp_all)
qed simp

lemma tables_serve:
  "tables_ok lim s \<Longrightarrow> tables_ok lim (fst (serve_listeners index live ready s))"
  by (induction index live ready s rule: serve_listeners.induct)
    (auto simp: tables_accept split: verdict_kind.splits prod.splits)

inductive supervised :: "listener list \<Rightarrow> limits \<Rightarrow> supervisor \<Rightarrow> bool" for live limits where
  started: "start_supervisor live limits = Some sv \<Longrightarrow> supervised live limits sv"
| pass: "supervised live limits sv \<Longrightarrow> run_pass p sv = Some (sv', sent) \<Longrightarrow> supervised live limits sv'"

lemma run_pass_ok:
  assumes "tables_ok lim (sv_workers sv, sv_dispatch sv)" "run_pass p sv = Some (sv', sent)"
  shows "tables_ok lim (sv_workers sv', sv_dispatch sv')"
    "fst ` set sent \<subseteq> live_members (sv_workers sv) - set (takeWhile (\<lambda>p. 0 < p) (ps_dead p))"
proof -
  obtain w d where r: "reap (ps_dead p) (sv_workers sv, sv_dispatch sv) = (w, d)" by fastforce
  have ok: "tables_ok lim (w, d)" using tables_reap [OF assms(1)] r by metis
  obtain d1 sent1 where ports: "read_ports (sv_listeners sv) (ps_udp p) d = (d1, sent1)" by fastforce
  note pm = read_ports_members [OF ports]
  define d2 where "d2 = fold (\<lambda>(pid, incoming). read_channel pid incoming) (ps_channels p) d1"
  have ok2: "tables_ok lim (w, d2)" using ok pm read_channels_members [of "ps_channels p" d1] by (auto simp: tables_ok_def d2_def)
  obtain w3 d3 dead where serve: "serve_listeners 0 (sv_listeners sv) (ps_listeners p) (w, d2) = ((w3, d3), dead)" by (metis prod.collapse)
  have ok3: "tables_ok lim (w3, d3)" using tables_serve [OF ok2, of 0 "sv_listeners sv" "ps_listeners p"] serve by simp
  from assms(2) ok ok3 show "tables_ok lim (sv_workers sv', sv_dispatch sv')"
    by (auto simp: run_pass_def r ports serve d2_def [symmetric] Let_def split: if_splits)
  have "live_members w = live_members (sv_workers sv) - set (takeWhile (\<lambda>p. 0 < p) (ps_dead p))"
    using r by (auto simp: reap_forgets live.members_forget_all)
  with assms(2) pm ok show "fst ` set sent \<subseteq> live_members (sv_workers sv) - set (takeWhile (\<lambda>p. 0 < p) (ps_dead p))"
    by (auto simp: run_pass_def r ports serve d2_def [symmetric] Let_def tables_ok_def split: if_splits)
qed

lemma supervised_ok: "supervised live limits sv \<Longrightarrow> tables_ok limits (sv_workers sv, sv_dispatch sv)"
proof (induction rule: supervised.induct)
  case (started sv)
  then show ?case
    by (auto simp: start_supervisor_def workers_new_def tables_ok_def budget_ok_def dispatch_members_def dispatch_default_def split: if_splits)
next
  case (pass sv p sv' sent)
  from run_pass_ok(1) [OF pass.IH pass.hyps(2)] show ?case .
qed

text \<open>
  C16. The host never forks past its budget: in every state of a supervisor, whatever its
  clients, its workers and the system calls do, the workers it has forked and not yet
  reaped are at most \<open>max_workers\<close>, and those serving any one address are at most
  \<open>max_per_client\<close>.
\<close>

theorem worker_budget:
  assumes "supervised live limits sv"
  shows "length (wk_live (sv_workers sv)) \<le> unat (max_workers limits) \<and>
    length (filter (\<lambda>(_, ip). ip = peer) (wk_live (sv_workers sv))) \<le> unat (max_per_client limits)"
  using supervised_ok [OF assms] by (auto simp: tables_ok_def budget_ok_def)

text \<open>
  C17. Datagrams go to running workers only: whatever a pass of the loop hands over goes to
  a worker that is in the supervisor's table of live workers and has not just been reaped,
  so a process that later gets the number of a dead worker receives nothing meant for it.
\<close>

theorem datagrams_reach_live_workers:
  assumes "supervised live limits sv" "run_pass p sv = Some (sv', sent)" "(pid, message) \<in> set sent"
  shows "pid \<in> fst ` set (wk_live (sv_workers sv)) \<and> pid \<notin> set (takeWhile (\<lambda>p. 0 < p) (ps_dead p))"
  using run_pass_ok(2) [OF supervised_ok [OF assms(1)] assms(2)] assms(3) by (force simp: live_members_def)

section \<open>Runs\<close>

definition quiet_pass :: pass where
  "quiet_pass = \<lparr>ps_dead = [], ps_failed = False, ps_udp = [], ps_channels = [], ps_listeners = []\<rparr>"

definition sample_peer :: socket_addr where
  "sample_peer = SocketV4 [10, 0, 0, 1] 50000"

definition one_port :: "listener list" where
  "one_port = [\<lparr>ln_bind = ''0.0.0.0:3389'', ln_udp = True\<rparr>]"

definition one_worker :: limits where
  "one_worker = \<lparr>max_workers = 1, max_per_client = 1, handshake_seconds = 30\<rparr>"

text \<open>Two connections arrive at a host with room for one.\<close>

definition accept_pass :: pass where
  "accept_pass = quiet_pass\<lparr>ps_listeners :=
     [(POLLIN, [Accepted sample_peer [] 5 True (Some 100), Accepted sample_peer [0] 6 True (Some 101), AcceptWouldBlock])]\<rparr>"

definition accepted :: supervisor where
  "accepted = \<lparr>sv_listeners = one_port,
     sv_workers = \<lparr>wk_live = [(100, IpV4 [10, 0, 0, 1])], wk_limits = one_worker, wk_refused = 0, wk_last_report = Some 6\<rparr>,
     sv_dispatch = \<lparr>ds_store = \<lparr>requests = [], clients = []\<rparr>, ds_channels = [(100, 0)]\<rparr>\<rparr>"

lemmas pass_defs = run_pass_def quiet_pass_def one_port_def one_worker_def sample_peer_def Let_def
  verdict_def POLLIN_def POLLERR_def POLLHUP_def POLLNVAL_def

lemma accepted_reached: "supervised one_port one_worker accepted"
proof -
  define sv where "sv = \<lparr>sv_listeners = one_port, sv_workers = workers_new one_worker, sv_dispatch = dispatch_default\<rparr>"
  have "supervised one_port one_worker sv"
    by (rule supervised.started) (simp add: start_supervisor_def sv_def one_port_def)
  moreover have "run_pass accept_pass sv = Some (accepted, [])"
    by (simp add: pass_defs accept_pass_def accepted_def sv_def workers_new_def dispatch_default_def admit_def count_u32_def
        record_worker_def add_worker_def note_refusal_def REPORT_EVERY_def)
  ultimately show ?thesis by (rule supervised.pass)
qed

theorem worker_budget_witness:
  "supervised one_port one_worker accepted \<and> length (wk_live (sv_workers accepted)) \<le> 1"
  using worker_budget [OF accepted_reached] accepted_reached by (simp add: one_worker_def)

definition registered_dispatch :: dispatch where
  "registered_dispatch = \<lparr>ds_store = \<lparr>requests = [(replicate 32 5, (100, 0))], clients = []\<rparr>, ds_channels = [(100, 0)]\<rparr>"

lemma register_pass:
  "run_pass (quiet_pass\<lparr>ps_channels := [(100, [Received (encode_register (replicate 32 5))])]\<rparr>) accepted =
     Some (accepted\<lparr>sv_dispatch := registered_dispatch\<rparr>, [])"
  using register_round_trip [of "replicate 32 5"]
  by (simp add: pass_defs accepted_def registered_dispatch_def read_channel_def channel_message_def store_register_def)

definition syn_pass :: pass where
  "syn_pass = quiet_pass\<lparr>ps_udp := [(0, [RecvFailed, Received (sample_syn_bytes, sample_peer), WouldBlock])]\<rparr>"

lemma syn_pass_sends:
  "\<exists>sv'. run_pass syn_pass (accepted\<lparr>sv_dispatch := registered_dispatch\<rparr>) =
     Some (sv', [(100, encode_datagram sample_peer (take 9000 sample_syn_bytes))])"
proof -
  have "snd (socket_datagram 0 sample_syn_bytes sample_peer registered_dispatch) = [(100, encode_datagram sample_peer (take 9000 sample_syn_bytes))]"
    by (rule syn_reaches_worker [OF _ sample_syn_hash]) (simp_all add: registered_dispatch_def)
  then obtain d where d: "socket_datagram 0 sample_syn_bytes sample_peer registered_dispatch =
      (d, [(100, encode_datagram sample_peer (take 9000 sample_syn_bytes))])" by (metis prod.collapse)
  then have "read_ports one_port (ps_udp syn_pass) registered_dispatch = (d, [(100, encode_datagram sample_peer (take 9000 sample_syn_bytes))])"
    by (simp add: syn_pass_def quiet_pass_def one_port_def)
  then show ?thesis
    by (simp add: run_pass_def accepted_def syn_pass_def quiet_pass_def one_port_def Let_def)
qed

theorem datagrams_reach_live_workers_witness:
  "\<exists>sv sv' sent. supervised one_port one_worker sv \<and> run_pass syn_pass sv = Some (sv', sent) \<and> sent \<noteq> [] \<and>
     100 \<in> fst ` set (wk_live (sv_workers sv))"
proof -
  have sv: "supervised one_port one_worker (accepted\<lparr>sv_dispatch := registered_dispatch\<rparr>)"
    by (rule supervised.pass [OF accepted_reached register_pass])
  obtain sv' where run: "run_pass syn_pass (accepted\<lparr>sv_dispatch := registered_dispatch\<rparr>) =
      Some (sv', [(100, encode_datagram sample_peer (take 9000 sample_syn_bytes))])" using syn_pass_sends by blast
  from datagrams_reach_live_workers [OF sv run] sv run show ?thesis by (intro exI conjI) (assumption | simp)+
qed

text \<open>Listeners are known to the dispatch by their index, and a listener that dies is taken
  out of the list: every later one then has the index of another. Here worker 100 serves
  the second of three ports, and a datagram its client sends to the third, after the first
  has died, is handed to it.\<close>

definition three_ports :: "listener list" where
  "three_ports = [\<lparr>ln_bind = ''a'', ln_udp = True\<rparr>, \<lparr>ln_bind = ''b'', ln_udp = True\<rparr>, \<lparr>ln_bind = ''c'', ln_udp = True\<rparr>]"

definition before_loss :: supervisor where
  "before_loss = \<lparr>sv_listeners = three_ports,
     sv_workers = (workers_new one_worker)\<lparr>wk_live := [(100, IpV4 [10, 0, 0, 1])]\<rparr>,
     sv_dispatch = \<lparr>ds_store = \<lparr>requests = [], clients = [((1, sample_peer), 100)]\<rparr>, ds_channels = [(100, 1)]\<rparr>\<rparr>"

lemma lost_listener_shifts_the_others:
  "\<exists>sv. run_pass (quiet_pass\<lparr>ps_listeners := [(POLLERR, []), (0, []), (0, [])]\<rparr>) before_loss = Some (sv, []) \<and>
     ln_bind (sv_listeners sv ! 1) = ''c'' \<and>
     map snd (snd (read_socket 1 [Received ([7], sample_peer)] (sv_dispatch sv))) = [encode_datagram sample_peer [7]]"
  by (simp add: pass_defs before_loss_def three_ports_def vec_remove_def socket_datagram_def route_def)

text \<open>A start binds every listener or none.\<close>

lemma bind_all_or_nothing:
  "bind_all tcp_binds udp_wanted udp_binds listeners =
     (if list_all tcp_binds listeners
      then Inr (map (\<lambda>b. \<lparr>ln_bind = b, ln_udp = udp_wanted b \<and> udp_binds b\<rparr>) listeners)
      else Inl (filter (\<lambda>b. \<not> tcp_binds b) listeners))"
proof -
  have "bind_each tcp_binds udp_wanted udp_binds listeners =
      (map (\<lambda>b. \<lparr>ln_bind = b, ln_udp = udp_wanted b \<and> udp_binds b\<rparr>) (filter tcp_binds listeners), filter (\<lambda>b. \<not> tcp_binds b) listeners)"
    by (induction listeners) (simp_all add: bind_udp_def)
  then show ?thesis by (auto simp: bind_all_def list_all_iff filter_empty_conv)
qed

text \<open>A replaced binary is executed at its installed path, any other path as it is.\<close>

lemma worker_program_suffix: "worker_program (path @ '' (deleted)'') = path"
proof -
  have "strip_suffix '' (deleted)'' (path @ '' (deleted)'') = Some path" unfolding strip_suffix_Some_iff ..
  then show ?thesis by (simp only: worker_program_def option.case)
qed

end
