(* ===== verification/Gate.thy ===== *)
theory Gate
  imports Rust_Text
begin

text \<open>
  The session gate (\<open>session/gate.rs\<close>): which display, whose audio and whose files a worker
  process may touch. The process-wide cells of the module, the environment variables it
  sets included, are one record; an operation takes the record and returns it changed. What
  the C library says about an account (\<open>getpwnam\<close>) is the parameter \<open>lookup_user\<close>.
\<close>

section \<open>State\<close>

record user_ids =
  ui_uid :: u32
  ui_gid :: u32
  ui_name :: string
  ui_home :: string

record console_screen =
  cs_display :: string
  cs_xauthority :: "string option"

datatype binding = GreeterBinding | SessionBinding | CompositorBinding

record audio_target =
  at_server :: string
  at_cookie :: string
  at_runtime_dir :: string

type_synonym size = "u16 \<times> u16"

record bound =
  bd_kind :: binding
  bd_user :: "string option"
  bd_display :: string
  bd_xauthority :: string
  bd_client_size :: size
  bd_audio :: "audio_target option"
  bd_runtime_dir :: string

record gate =
  g_armed :: bool
  g_bound :: "bound option"
  g_generation :: u64
  g_console :: "console_screen option"
  g_console_user :: "string option"
  g_env :: "string \<Rightarrow> string option"

datatype gate_error =
    AlreadyBound string binding string binding
  | NoSessionBound
  | ServedByCompositor string
  | NoClipboardSession
  | NoClipboardForCompositor

section \<open>Audio\<close>

definition audio_new :: "string \<Rightarrow> string \<Rightarrow> audio_target" where
  "audio_new runtime_dir home =
     \<lparr>at_server = ''unix:'' @ runtime_dir @ ''/pulse/native'',
      at_cookie = path_join (path_join (path_join home ''.config'') ''pulse'') ''cookie'',
      at_runtime_dir = runtime_dir\<rparr>"

definition audio_socket :: "audio_target \<Rightarrow> string" where
  "audio_socket target = path_join (path_join (at_runtime_dir target) ''pulse'') ''native''"

definition audio_is_root :: "audio_target \<Rightarrow> bool" where
  "audio_is_root target \<longleftrightarrow> at_runtime_dir target = ''/run/user/0''"

definition audio_mic_fifo :: "audio_target \<Rightarrow> string" where
  "audio_mic_fifo target = path_join (path_join (at_runtime_dir target) ''linrdp'') ''mic.fifo''"

definition audio_for :: "(string \<Rightarrow> user_ids option) \<Rightarrow> string \<Rightarrow> string \<Rightarrow> audio_target option" where
  "audio_for lookup_user user runtime_dir = map_option (\<lambda>ids. audio_new runtime_dir (ui_home ids)) (lookup_user user)"

section \<open>Binding\<close>

definition set_console :: "string \<Rightarrow> string option \<Rightarrow> gate \<Rightarrow> gate" where
  "set_console display xauthority g =
     g\<lparr>g_console := Some \<lparr>cs_display = display, cs_xauthority = xauthority\<rparr>\<rparr>"

definition set_console_user :: "string \<Rightarrow> gate \<Rightarrow> gate" where
  "set_console_user user g = g\<lparr>g_console_user := Some user\<rparr>"

definition arm_gate :: "gate \<Rightarrow> gate" where
  "arm_gate g = g\<lparr>g_armed := True\<rparr>"

definition bind_into :: "bound option \<Rightarrow> bound \<Rightarrow> gate_error + bound option" where
  "bind_into cell wanted =
     (case cell of
        None \<Rightarrow> Inr (Some wanted)
      | Some existing \<Rightarrow>
          if bd_display existing = bd_display wanted \<and> bd_kind existing = bd_kind wanted then Inr (Some wanted)
          else if bd_kind existing = GreeterBinding \<and> bd_kind wanted \<in> {SessionBinding, CompositorBinding}
          then Inr (Some wanted)
          else Inl (AlreadyBound (bd_display existing) (bd_kind existing) (bd_display wanted) (bd_kind wanted)))"

definition set_var :: "string \<Rightarrow> string \<Rightarrow> gate \<Rightarrow> gate" where
  "set_var key v g = g\<lparr>g_env := (g_env g)(key \<mapsto> v)\<rparr>"

definition remove_var :: "string \<Rightarrow> gate \<Rightarrow> gate" where
  "remove_var key g = g\<lparr>g_env := (g_env g)(key := None)\<rparr>"

definition set_cookie :: "audio_target option \<Rightarrow> gate \<Rightarrow> gate" where
  "set_cookie audio g = (case audio of None \<Rightarrow> g | Some a \<Rightarrow> set_var ''PULSE_COOKIE'' (at_cookie a) g)"

text \<open>The locked update both binders end with: the decision, the cell and the generation.\<close>

definition commit_binding :: "bound \<Rightarrow> gate \<Rightarrow> (gate_error + unit) \<times> gate" where
  "commit_binding wanted g =
     (case bind_into (g_bound g) wanted of
        Inl e \<Rightarrow> (Inl e, g)
      | Inr cell \<Rightarrow> (Inr (), g\<lparr>g_bound := cell, g_generation := u64_add (g_generation g) 1\<rparr>))"

definition bind_kind :: "binding \<Rightarrow> string option \<Rightarrow> u16 \<Rightarrow> string \<Rightarrow> string \<Rightarrow> size \<Rightarrow> audio_target option
    \<Rightarrow> gate \<Rightarrow> (gate_error + unit) \<times> gate" where
  "bind_kind kind user display xauthority runtime_dir client_size audio g =
     (let wanted = \<lparr>bd_kind = kind, bd_user = user, bd_display = CHR '':'' # show_u16 display,
            bd_xauthority = xauthority, bd_client_size = client_size, bd_audio = audio,
            bd_runtime_dir = runtime_dir\<rparr>;
          g = set_var ''DISPLAY'' (bd_display wanted) g;
          g = set_var ''XAUTHORITY'' xauthority g;
          g = set_var ''XDG_RUNTIME_DIR'' runtime_dir g;
          g = set_cookie audio g
      in commit_binding wanted g)"

definition bind_session :: "(string \<Rightarrow> user_ids option) \<Rightarrow> string \<Rightarrow> u16 \<Rightarrow> string \<Rightarrow> string \<Rightarrow> size
    \<Rightarrow> gate \<Rightarrow> (gate_error + unit) \<times> gate" where
  "bind_session lookup_user user display xauthority runtime_dir client_size g =
     bind_kind SessionBinding (Some user) display xauthority runtime_dir client_size
       (audio_for lookup_user user runtime_dir) g"

definition bind_greeter :: "u16 \<Rightarrow> string \<Rightarrow> string \<Rightarrow> size \<Rightarrow> gate \<Rightarrow> (gate_error + unit) \<times> gate" where
  "bind_greeter display xauthority runtime_dir client_size g =
     bind_kind GreeterBinding None display xauthority runtime_dir client_size None g"

definition bind_compositor :: "(string \<Rightarrow> user_ids option) \<Rightarrow> string \<Rightarrow> string \<Rightarrow> string \<Rightarrow> size
    \<Rightarrow> gate \<Rightarrow> (gate_error + unit) \<times> gate" where
  "bind_compositor lookup_user desktop user runtime_dir client_size g =
     (let audio = audio_for lookup_user user runtime_dir;
          wanted = \<lparr>bd_kind = CompositorBinding, bd_user = Some user, bd_display = desktop @ CHR '':'' # user,
            bd_xauthority = [], bd_client_size = client_size, bd_audio = audio, bd_runtime_dir = runtime_dir\<rparr>;
          g = remove_var ''DISPLAY'' g;
          g = set_var ''XDG_RUNTIME_DIR'' runtime_dir g;
          g = set_cookie audio g
      in commit_binding wanted g)"

section \<open>What the worker may touch\<close>

definition session_user :: "gate \<Rightarrow> string option" where
  "session_user g =
     (case Option.bind (g_bound g) bd_user of Some user \<Rightarrow> Some user | None \<Rightarrow> g_console_user g)"

definition display_name :: "gate \<Rightarrow> gate_error + string" where
  "display_name g =
     (if \<not> g_armed g then
        (case g_console g of
           Some console \<Rightarrow> Inr (cs_display console)
         | None \<Rightarrow> Inr (case g_env g ''DISPLAY'' of Some d \<Rightarrow> d | None \<Rightarrow> '':99''))
      else case g_bound g of
        Some bound \<Rightarrow>
          if bd_kind bound = CompositorBinding then Inl (ServedByCompositor (bd_display bound))
          else Inr (bd_display bound)
      | None \<Rightarrow> Inl NoSessionBound)"

definition unwrap_or_default :: "string option \<Rightarrow> string" where
  "unwrap_or_default v = (case v of None \<Rightarrow> [] | Some s \<Rightarrow> s)"

definition clipboard_target :: "gate \<Rightarrow> gate_error + string \<times> string" where
  "clipboard_target g =
     (if g_armed g then
        (case g_bound g of
           None \<Rightarrow> Inl NoClipboardSession
         | Some bound \<Rightarrow>
             if bd_kind bound = CompositorBinding then Inl NoClipboardForCompositor
             else Inr (bd_display bound, bd_xauthority bound))
      else case g_console g of
        Some console \<Rightarrow> Inr (cs_display console, unwrap_or_default (cs_xauthority console))
      | None \<Rightarrow> and_then (display_name g) (\<lambda>name. Inr (name, unwrap_or_default (g_env g ''XAUTHORITY''))))"

definition client_size :: "gate \<Rightarrow> size option" where
  "client_size g = map_option bd_client_size (g_bound g)"

definition gate_audio_target :: "gate \<Rightarrow> audio_target option" where
  "gate_audio_target g = (if \<not> g_armed g then None else Option.bind (g_bound g) bd_audio)"

definition mic_fifo :: "gate \<Rightarrow> string option" where
  "mic_fifo g =
     (if \<not> g_armed g
      then map_option (\<lambda>dir. path_join (path_join dir ''linrdp'') ''mic.fifo'') (g_env g ''XDG_RUNTIME_DIR'')
      else map_option audio_mic_fifo (gate_audio_target g))"

definition xauthority :: "gate \<Rightarrow> string option" where
  "xauthority g = map_option bd_xauthority (g_bound g)"

definition paste_base :: "(string \<Rightarrow> user_ids option) \<Rightarrow> gate \<Rightarrow> string option" where
  "paste_base lookup_user g =
     Option.bind (g_bound g) (\<lambda>bound.
       if bd_kind bound \<noteq> CompositorBinding \<or> strip_prefix ''/run/host/'' (bd_runtime_dir bound) = None then None
       else Option.bind (bd_user bound) (\<lambda>user. Option.bind (lookup_user user) (\<lambda>ids.
         Some (path_join (path_join (ui_home ids) ''.cache'') ''linrdp''))))"

text \<open>The part of a display name before the screen number.\<close>

definition before_dot :: "string \<Rightarrow> string" where
  "before_dot s = takeWhile (\<lambda>c. c \<noteq> CHR ''.'') s"

definition display_number_of :: "string \<Rightarrow> u16 option" where
  "display_number_of name = Option.bind (strip_prefix '':'' name) (\<lambda>rest. parse_u16 (before_dot rest))"

definition bound_display_number :: "gate \<Rightarrow> u16 option" where
  "bound_display_number g =
     Option.bind (g_bound g) (\<lambda>bound. parse_u16 (before_dot (dropWhile (\<lambda>c. c = CHR '':'') (bd_display bound))))"

text \<open>Where \<open>connect\<close> goes: x11rb's environment-driven connect, or one socket with the
  cookie of one display out of one file.\<close>

datatype x_endpoint =
    FromEnvironment string
  | OnSocket string string u16

definition connect_endpoint :: "gate \<Rightarrow> gate_error + x_endpoint" where
  "connect_endpoint g =
     and_then (display_name g) (\<lambda>name.
       let explicit = (case (bound_display_number g, xauthority g) of
             (Some display, Some path) \<Rightarrow> Some (display, path)
           | _ \<Rightarrow> Option.bind (g_console g) (\<lambda>console.
               Option.bind (cs_xauthority console) (\<lambda>path.
               Option.bind (display_number_of name) (\<lambda>display. Some (display, path)))))
       in case explicit of
            None \<Rightarrow> Inr (FromEnvironment name)
          | Some (display, path) \<Rightarrow> Inr (OnSocket (''/tmp/.X11-unix/X'' @ show_u16 display) path display))"

section \<open>Calls\<close>

datatype gate_call =
    GateArm
  | GateSetConsole string "string option"
  | GateSetConsoleUser string
  | GateBind string u16 string string size
  | GateBindGreeter u16 string string size
  | GateBindCompositor string string string size

fun gate_step :: "(string \<Rightarrow> user_ids option) \<Rightarrow> gate_call \<Rightarrow> gate \<Rightarrow> gate" where
  "gate_step lk GateArm g = arm_gate g"
| "gate_step lk (GateSetConsole display xauth) g = set_console display xauth g"
| "gate_step lk (GateSetConsoleUser user) g = set_console_user user g"
| "gate_step lk (GateBind user display xauth dir sz) g = snd (bind_session lk user display xauth dir sz g)"
| "gate_step lk (GateBindGreeter display xauth dir sz) g = snd (bind_greeter display xauth dir sz g)"
| "gate_step lk (GateBindCompositor desktop user dir sz) g = snd (bind_compositor lk desktop user dir sz g)"

definition gate_init :: "(string \<Rightarrow> string option) \<Rightarrow> gate" where
  "gate_init env = \<lparr>g_armed = False, g_bound = None, g_generation = 0, g_console = None, g_console_user = None, g_env = env\<rparr>"

section \<open>Lemmas\<close>

lemma env_frame [simp]:
  "g_armed (set_var k v g) = g_armed g" "g_bound (set_var k v g) = g_bound g"
  "g_armed (remove_var k g) = g_armed g" "g_bound (remove_var k g) = g_bound g"
  "g_armed (set_cookie a g) = g_armed g" "g_bound (set_cookie a g) = g_bound g"
  by (simp_all add: set_var_def remove_var_def set_cookie_def split: option.splits)

lemma commit_armed: "g_armed (snd (commit_binding wanted g)) = g_armed g"
  by (simp add: commit_binding_def split: sum.splits)

lemma commit_bound:
  "commit_binding wanted g = (r, g') \<Longrightarrow>
     g_bound g' = (case bind_into (g_bound g) wanted of Inl _ \<Rightarrow> g_bound g | Inr cell \<Rightarrow> cell) \<and>
     (r = Inr () \<longleftrightarrow> (\<exists>cell. bind_into (g_bound g) wanted = Inr cell))"
  by (auto simp: commit_binding_def split: sum.splits)

lemmas bind_defs = bind_session_def bind_greeter_def bind_compositor_def bind_kind_def Let_def

lemma gate_step_armed: "g_armed g \<Longrightarrow> g_armed (gate_step lk call g)"
  by (cases call) (simp_all add: bind_defs commit_armed arm_gate_def set_console_def set_console_user_def)

text \<open>Where a desktop binding may go: nowhere but to itself.\<close>

definition same_desktop :: "bound \<Rightarrow> bound option \<Rightarrow> bool" where
  "same_desktop b cell \<longleftrightarrow> (case cell of None \<Rightarrow> False | Some b' \<Rightarrow> bd_kind b' = bd_kind b \<and> bd_display b' = bd_display b)"

lemma commit_same_desktop:
  assumes "same_desktop b (g_bound g)" "bd_kind b \<noteq> GreeterBinding"
  shows "same_desktop b (g_bound (snd (commit_binding wanted g)))"
  using assms by (auto simp: same_desktop_def commit_binding_def bind_into_def split: option.splits if_splits sum.splits)

lemma gate_step_same_desktop:
  assumes "same_desktop b (g_bound g)" "bd_kind b \<noteq> GreeterBinding"
  shows "same_desktop b (g_bound (gate_step lk call g))"
  using assms
  by (cases call) (simp_all add: bind_defs commit_same_desktop arm_gate_def set_console_def set_console_user_def)

lemma gate_run_same_desktop:
  assumes "same_desktop b (g_bound g)" "bd_kind b \<noteq> GreeterBinding" "g_armed g"
  shows "same_desktop b (g_bound (fold (gate_step lk) calls g)) \<and> g_armed (fold (gate_step lk) calls g)"
  using assms(1,3)
  by (induction calls arbitrary: g) (simp_all add: gate_step_same_desktop assms(2) gate_step_armed)

text \<open>
  C20. A worker that has been let into a desktop never leaves it: whatever calls reach
  the gate of an armed worker afterwards, and whatever the environment and the console
  setting say, the only X display it may connect to is the one it was bound to, and none at
  all when that desktop is served through its compositor.
\<close>

theorem desktop_never_switches:
  assumes "g_armed g" "g_bound g = Some b" "bd_kind b \<noteq> GreeterBinding"
  shows "display_name (fold (gate_step lookup_user) calls g) =
    (if bd_kind b = SessionBinding then Inr (bd_display b) else Inl (ServedByCompositor (bd_display b)))"
proof -
  have "same_desktop b (g_bound g)" using assms(2) by (simp add: same_desktop_def)
  from gate_run_same_desktop [OF this assms(3,1), of lookup_user calls] show ?thesis
    using assms(3) by (cases "bd_kind b") (auto simp: same_desktop_def display_name_def split: option.splits)
qed

theorem desktop_never_switches_witness:
  "\<exists>g b. g_armed g \<and> g_bound g = Some b \<and> bd_kind b = SessionBinding \<and> bd_display b = '':11'' \<and>
     display_name (fold (gate_step (\<lambda>_. None))
       [GateBind ''bob'' 12 ''/x'' ''/run/user/1002'' (800, 600), GateSetConsole '':0'' None] g) = Inr '':11''"
proof -
  define g where "g = snd (bind_session (\<lambda>_. None) ''alice'' 11 ''/y'' ''/run/user/1001'' (800, 600) (arm_gate (gate_init (\<lambda>_. None))))"
  have "show_u16 11 = ''11''" by code_simp
  then obtain b where b: "g_armed g" "g_bound g = Some b" "bd_kind b = SessionBinding" "bd_display b = '':11''"
    by (simp add: g_def bind_defs commit_binding_def bind_into_def arm_gate_def gate_init_def)
  with desktop_never_switches [of g b "\<lambda>_. None" "[GateBind ''bob'' 12 ''/x'' ''/run/user/1002'' (800, 600), GateSetConsole '':0'' None]"]
  show ?thesis by (intro exI [of _ g] exI [of _ b]) simp
qed

text \<open>The check compares displays and kinds, not accounts: a second binding to the same
  display number for another account is accepted and changes whose credentials the worker
  acts with.\<close>

lemma same_display_other_user_rebinds:
  "case bind_session lk ''alice'' d x r s (arm_gate (gate_init env)) of (_, g) \<Rightarrow>
     (case bind_session lk ''bob'' d x' r' s' g of (res, g') \<Rightarrow> res = Inr () \<and>
        session_user g = Some ''alice'' \<and> session_user g' = Some ''bob'')"
  by (simp add: bind_defs commit_binding_def bind_into_def arm_gate_def gate_init_def session_user_def)

end
