(* ===== verification/Xauth.thy ===== *)
theory Xauth
  imports Registry
begin

text \<open>
  The X cookie of a session (\<open>session/xauth.rs\<close>): the record the keeper writes and the reader
  that finds a display's secret in a file of such records. A file is a string of bytes.
\<close>

definition be16_text :: "nat \<Rightarrow> string" where
  "be16_text n = [char_of (n div 256 mod 256), char_of (n mod 256)]"

definition cookie_path :: "string \<Rightarrow> u16 \<Rightarrow> string" where
  "cookie_path runtime_dir display = path_join (path_join runtime_dir ''linrdp'') (''Xauthority-'' @ show_u16 display)"

definition COOKIE_NAME :: string where "COOKIE_NAME = ''MIT-MAGIC-COOKIE-1''"

text \<open>\<open>u16::try_from(len).unwrap_or(0)\<close> followed by the bytes themselves.\<close>

definition counted :: "string \<Rightarrow> string" where
  "counted s = be16_text (if length s < 65536 then length s else 0) @ s"

definition xauthority_entry :: "u16 \<Rightarrow> string \<Rightarrow> string" where
  "xauthority_entry display cookie =
     be16_text 65535 @ be16_text 0 @ counted (show_u16 display) @ counted COOKIE_NAME @ counted cookie"

definition take_field :: "string \<Rightarrow> (string \<times> string) option" where
  "take_field raw =
     (case raw of
        hi # lo # rest \<Rightarrow>
          let len = 256 * of_char hi + of_char lo
          in if len \<le> length rest then Some (take len rest, drop len rest) else None
      | _ \<Rightarrow> None)"

definition take_record :: "string \<Rightarrow> ((string \<times> string \<times> string) \<times> string) option" where
  "take_record raw =
     Option.bind (take_field raw) (\<lambda>(_, raw).
     Option.bind (take_field raw) (\<lambda>(number, raw).
     Option.bind (take_field raw) (\<lambda>(name, raw).
     Option.bind (take_field raw) (\<lambda>(data, raw). Some ((number, name, data), raw)))))"

lemma take_field_shorter: "take_field raw = Some (f, rest) \<Longrightarrow> length rest < length raw"
  by (auto simp: take_field_def Let_def split: list.splits if_splits)

lemma take_record_shorter: "take_record raw = Some (r, rest) \<Longrightarrow> length rest < length raw"
  by (auto simp: take_record_def bind_eq_Some_conv dest!: take_field_shorter)

text \<open>The loop of \<open>cookie_for\<close>: it ends because every record read is at least ten bytes of
  the file.\<close>

function cookie_scan :: "string \<Rightarrow> string \<Rightarrow> (string \<times> string) option" where
  "cookie_scan wanted raw =
     (if length raw < 2 then None
      else
        case take_record (drop 2 raw) of
          None \<Rightarrow> None
        | Some ((number, name, data), rest) \<Rightarrow>
            if number = wanted then Some (name, data) else cookie_scan wanted rest)"
  by pat_completeness auto

termination
  by (relation "measure (\<lambda>(_, raw). length raw)") (auto dest!: take_record_shorter)

declare cookie_scan.simps [simp del]

definition cookie_for :: "string \<Rightarrow> u16 \<Rightarrow> fs \<Rightarrow> (string \<times> string) option" where
  "cookie_for path display fs =
     Option.bind (fs_read_to_string path fs) (cookie_scan (show_u16 display))"

section \<open>Writing, then reading\<close>

lemma take_field_counted: "length s < 65536 \<Longrightarrow> take_field (counted s @ rest) = Some (s, rest)"
proof -
  assume "length s < 65536"
  moreover have "256 * (length s div 256 mod 256) + length s mod 256 = length s" if "length s < 65536"
    using that by (simp add: mod_less div_less_iff_less_mult)
  ultimately show ?thesis by (simp add: take_field_def counted_def be16_text_def Let_def)
qed

lemma show_u16_short: "length (show_u16 n) < 65536"
proof -
  have "length (show_nat m) \<le> Suc (m div 2)" for m
  proof (induction m rule: show_nat.induct)
    case (1 n)
    then show ?case by (cases "n < 10") (auto simp: show_nat.simps [of n])
  qed
  from this [of "unat n"] unat_u16_bound [of n] show ?thesis by (simp add: show_u16_def)
qed

lemma take_record_entry:
  assumes "length cookie = 16"
  shows "take_record (drop 2 (xauthority_entry display cookie @ rest)) = Some ((show_u16 display, COOKIE_NAME, cookie), rest)"
proof -
  have "drop 2 (xauthority_entry display cookie @ rest) =
      counted [] @ counted (show_u16 display) @ counted COOKIE_NAME @ counted cookie @ rest"
    by (simp add: xauthority_entry_def be16_text_def counted_def)
  then show ?thesis
    using assms show_u16_short by (simp add: take_record_def take_field_counted COOKIE_NAME_def)
qed

text \<open>
  A session's secret is found under its own display and no other's: in a file of any
  number of records the reader returns, for every display, the cookie of the first record
  written for it, and nothing for a display that has none.
\<close>

theorem cookie_found_by_display:
  assumes "list_all (\<lambda>(_, cookie). length cookie = 16) entries"
  shows "cookie_scan (show_u16 display) (concat (map (\<lambda>(d, cookie). xauthority_entry d cookie) entries)) =
    map_option (\<lambda>cookie. (COOKIE_NAME, cookie)) (map_of entries display)"
  using assms
proof (induction entries)
  case Nil
  show ?case by (subst cookie_scan.simps) simp
next
  case (Cons e entries)
  obtain d c where e: "e = (d, c)" by fastforce
  have long: "\<not> length (xauthority_entry d c @ rest) < 2" for rest by (simp add: xauthority_entry_def be16_text_def)
  have "show_u16 d = show_u16 display \<longleftrightarrow> d = display" using show_u16_inj by blast
  with Cons e long take_record_entry [of c d] show ?case
    by (subst cookie_scan.simps) simp
qed

end
