(* ===== verification/Session_Login.thy ===== *)
theory Session_Login
  imports Gate Xauth
begin

text \<open>
  From an authenticated connection to a desktop: the login decision (\<open>auth.rs\<close>), the choice of a
  desktop (\<open>session/backends\<close>), finding or making the session (\<open>session/mod.rs\<close>,
  \<open>keeper_main.rs\<close>) and the router that ties them together (\<open>session/router.rs\<close>). What the
  machine answers, PAM, the account database, the X servers, Mutter and the keeper process,
  is a record of parameters; a worker that exits is \<open>None\<close>.
\<close>

section \<open>The machine\<close>

record gnome_session =
  gs_uid :: u32
  gs_gid :: u32
  gs_runtime_dir :: string
  gs_bus :: string

text \<open>\<open>mc_pam\<close>: no verdict, or whether the password is right and the account may log in.
  \<open>mc_x_accepts\<close>: a server listens on the display's socket and accepts this cookie.
  \<open>mc_claim\<close>, \<open>mc_spawned\<close>: the outcome of \<open>allocate\<close> and \<open>spawn_keeper\<close>.
  \<open>mc_polls\<close>: the state directory as it is each time it is looked at while waiting for
  the keeper.\<close>

record machine =
  mc_pam :: "string \<Rightarrow> string \<Rightarrow> string + bool"
  mc_lookup_user :: "string \<Rightarrow> user_ids option"
  mc_x_accepts :: "u16 \<Rightarrow> string \<times> string \<Rightarrow> bool"
  mc_account_lock :: "string \<Rightarrow> bool"
  mc_claim :: "u16 option"
  mc_spawned :: bool
  mc_polls :: "fs list"
  mc_x_server :: bool
  mc_gnome_launcher :: bool
  mc_console_session :: "u32 \<Rightarrow> u32 \<Rightarrow> gnome_session option"
  mc_mutter_attach :: "string \<Rightarrow> gnome_session \<Rightarrow> bool"
  mc_greeter :: "(u16 \<times> string \<times> string) option"

section \<open>The login decision\<close>

datatype login_verdict = LoginAccept | LoginDeny | LoginUnavailable

definition login_from_pam :: "string + bool \<Rightarrow> login_verdict" where
  "login_from_pam verdict =
     (case verdict of Inr True \<Rightarrow> LoginAccept | Inr False \<Rightarrow> LoginDeny | Inl reason \<Rightarrow> LoginUnavailable)"

definition decide :: "machine \<Rightarrow> string \<Rightarrow> string \<Rightarrow> login_verdict" where
  "decide mc username password =
     (if username = [] then LoginDeny else login_from_pam (mc_pam mc username password))"

definition authorize_for_desktop :: "machine \<Rightarrow> string \<Rightarrow> string \<Rightarrow> bool" where
  "authorize_for_desktop mc username password \<longleftrightarrow>
     (case decide mc username password of LoginAccept \<Rightarrow> True | LoginDeny \<Rightarrow> False | LoginUnavailable \<Rightarrow> False)"

definition verify_system_password :: "machine \<Rightarrow> string \<Rightarrow> string \<Rightarrow> unit + bool" where
  "verify_system_password mc username password =
     (case decide mc username password of
        LoginAccept \<Rightarrow> Inr True | LoginDeny \<Rightarrow> Inr False | LoginUnavailable \<Rightarrow> Inl ())"

text \<open>\<open>PendingIdentity\<close> is the cell of the account being authenticated; \<open>validate\<close> returns the
  decision and the cell.\<close>

type_synonym identity = "string \<times> string"

datatype credential_decision = CredentialAccept | CredentialReject

definition validate :: "machine \<Rightarrow> bool \<Rightarrow> identity \<Rightarrow> identity option \<Rightarrow> credential_decision \<times> identity option" where
  "validate mc defer_to_greeter credentials pending =
     (let accepted = (decide mc (fst credentials) (snd credentials) = LoginAccept);
          pending' = (if accepted then Some credentials else pending)
      in if defer_to_greeter then (CredentialAccept, pending')
         else (if accepted then CredentialAccept else CredentialReject, pending'))"

section \<open>Choosing a desktop\<close>

datatype backend_choice = BackendAuto | BackendX11 | BackendGnome
datatype serves_kind = OwnSession | ConsoleSession
datatype desktop_backend = GnomeHeadless | X11Session | GnomeConsole

fun backend_id :: "desktop_backend \<Rightarrow> string" where
  "backend_id GnomeHeadless = GNOME_HEADLESS_ID"
| "backend_id X11Session = X11_ID"
| "backend_id GnomeConsole = ''gnome-console''"

fun backend_serves :: "desktop_backend \<Rightarrow> serves_kind" where
  "backend_serves GnomeHeadless = OwnSession"
| "backend_serves X11Session = OwnSession"
| "backend_serves GnomeConsole = ConsoleSession"

fun backend_named :: "desktop_backend \<Rightarrow> backend_choice option" where
  "backend_named GnomeHeadless = Some BackendGnome"
| "backend_named X11Session = Some BackendX11"
| "backend_named GnomeConsole = None"

definition REGISTRY :: "bool \<Rightarrow> desktop_backend list" where
  "REGISTRY wayland = (if wayland then [GnomeHeadless, X11Session, GnomeConsole] else [X11Session])"

datatype choose_error =
    ConsoleRefused "string list"
  | NothingServes "string list"
  | NotBuilt backend_choice
  | ChosenRefused backend_choice string

text \<open>Probe the cases in order until one can serve; otherwise their reasons.\<close>

fun first_serving :: "(desktop_backend \<Rightarrow> string + 'a) \<Rightarrow> desktop_backend list \<Rightarrow> string list + desktop_backend \<times> 'a" where
  "first_serving probe [] = Inl []"
| "first_serving probe (c # rest) =
     (case probe c of
        Inr found \<Rightarrow> Inr (c, found)
      | Inl reason \<Rightarrow> (case first_serving probe rest of Inr r \<Rightarrow> Inr r | Inl reasons \<Rightarrow> Inl (reason # reasons)))"

definition or_reason :: "string \<Rightarrow> string list \<Rightarrow> string list" where
  "or_reason fallback reasons = (if reasons = [] then [fallback] else reasons)"

definition choose_backend :: "desktop_backend list \<Rightarrow> backend_choice \<Rightarrow> bool \<Rightarrow> (desktop_backend \<Rightarrow> string + 'a)
    \<Rightarrow> choose_error + desktop_backend \<times> 'a" where
  "choose_backend registry choice console_requested probe =
     (let serving = (\<lambda>kind. filter (\<lambda>c. backend_serves c = kind) registry)
      in if console_requested then
           (case first_serving probe (serving ConsoleSession) of Inr r \<Rightarrow> Inr r | Inl reasons \<Rightarrow> Inl (ConsoleRefused (or_reason ''this binary cannot serve the console'' reasons)))
         else if choice = BackendAuto then
           (case first_serving probe (serving OwnSession) of Inr r \<Rightarrow> Inr r | Inl reasons \<Rightarrow> Inl (NothingServes (or_reason ''this binary serves no desktop of its own at all'' reasons)))
         else
           (case find (\<lambda>c. backend_named c = Some choice) (serving OwnSession) of
              None \<Rightarrow> Inl (NotBuilt choice)
            | Some c \<Rightarrow> (case probe c of Inr found \<Rightarrow> Inr (c, found) | Inl reason \<Rightarrow> Inl (ChosenRefused choice reason))))"

section \<open>Sessions\<close>

definition desktop_is_live :: "machine \<Rightarrow> fs \<Rightarrow> session_record \<Rightarrow> bool" where
  "desktop_is_live mc fs rec \<longleftrightarrow>
     (case cookie_for (sr_xauthority rec) (sr_display rec) fs of
        None \<Rightarrow> False
      | Some auth \<Rightarrow> mc_x_accepts mc (sr_display rec) auth)"

definition attach_existing :: "string \<Rightarrow> string \<Rightarrow> display_range \<Rightarrow> fs \<Rightarrow> session_record option" where
  "attach_existing base user slots fs = find_session base user slots fs"

definition attach_live_with :: "string \<Rightarrow> string \<Rightarrow> display_range \<Rightarrow> (session_record \<Rightarrow> bool) \<Rightarrow> fs \<Rightarrow> session_record option \<times> fs" where
  "attach_live_with base user slots live fs =
     (case attach_existing base user slots fs of
        None \<Rightarrow> (None, fs)
      | Some rec \<Rightarrow> if \<not> live rec then (None, snd (forget_record base (sr_display rec) fs)) else (Some rec, fs))"

definition resolve_display_with :: "string \<Rightarrow> string \<Rightarrow> display_range \<Rightarrow> bool \<Rightarrow> string \<Rightarrow> (session_record \<Rightarrow> bool) \<Rightarrow> fs \<Rightarrow> string \<times> fs" where
  "resolve_display_with base user slots console ambient live fs =
     (if console then (ambient, fs)
      else case attach_live_with base user slots live fs of
        (Some rec, fs) \<Rightarrow> (CHR '':'' # show_u16 (sr_display rec), fs)
      | (None, fs) \<Rightarrow> ([], fs))"

datatype session_error =
    NotAuthorized
  | NoIdentity
  | NoDesktop choose_error
  | UnknownUser
  | AccountBusy
  | OtherBackend string string
  | NoDisplay
  | KeeperFailed
  | NotReady
  | SomebodyElses string
  | DidNotSurvive
  | NoBus
  | MutterFailed
  | GateRefused gate_error
  | UnlockFailed registry_error
  | GreeterFailed

fun wait_for_record :: "string \<Rightarrow> u16 \<Rightarrow> string \<Rightarrow> fs list \<Rightarrow> fs \<Rightarrow> (session_error + session_record) \<times> fs" where
  "wait_for_record base display user [] fs = (Inl NotReady, fs)"
| "wait_for_record base display user (now # later) fs =
     (case read_record base display now of
        None \<Rightarrow> wait_for_record base display user later now
      | Some rec \<Rightarrow> (if sr_user rec \<noteq> user then Inl (SomebodyElses (sr_user rec)) else Inr rec, now))"

definition create_session :: "machine \<Rightarrow> string \<Rightarrow> string \<Rightarrow> fs \<Rightarrow> (session_error + session_record) \<times> fs" where
  "create_session mc base user fs =
     (case mc_claim mc of
        None \<Rightarrow> (Inl NoDisplay, fs)
      | Some display \<Rightarrow>
          if \<not> mc_spawned mc then (Inl KeeperFailed, fs)
          else case wait_for_record base display user (mc_polls mc) fs of
            (Inl e, fs) \<Rightarrow> (Inl e, fs)
          | (Inr rec, fs) \<Rightarrow> (if desktop_is_live mc fs rec then Inr rec else Inl DidNotSurvive, fs))"

definition attach_or_create :: "machine \<Rightarrow> string \<Rightarrow> string \<Rightarrow> display_range \<Rightarrow> string \<Rightarrow> fs \<Rightarrow> (session_error + session_record) \<times> fs" where
  "attach_or_create mc base user slots backend fs =
     (if mc_lookup_user mc user = None then (Inl UnknownUser, fs)
      else if \<not> mc_account_lock mc user then (Inl AccountBusy, fs)
      else case attach_live_with base user slots (desktop_is_live mc fs) fs of
        (Some existing, fs) \<Rightarrow>
          (if sr_backend existing \<noteq> backend then Inl (OtherBackend (sr_backend existing) backend) else Inr existing, fs)
      | (None, fs) \<Rightarrow> create_session mc base user fs)"

text \<open>The signal to logind that follows is best effort and leaves no trace here.\<close>

definition session_lock :: "string \<Rightarrow> u16 \<Rightarrow> fs \<Rightarrow> (registry_error + unit) \<times> fs" where
  "session_lock base display fs = set_locked base display True fs"

definition session_unlock :: "string \<Rightarrow> session_record \<Rightarrow> fs \<Rightarrow> (registry_error + unit) \<times> fs" where
  "session_unlock base rec fs = set_locked base (sr_display rec) False fs"

section \<open>Binding\<close>

record bound_session =
  bs_display :: u16
  bs_logind_id :: "string option"

text \<open>What a worker process keeps: its gate, the state directory as it sees it, the pending
  identity, the session it bound, and what the connection asked for.\<close>

record worker_state =
  ws_gate :: gate
  ws_fs :: fs
  ws_pending :: "identity option"
  ws_bound :: "bound_session option"
  ws_console_requested :: bool
  ws_client_size :: size
  ws_form :: bool

record router =
  rt_state_dir :: string
  rt_range :: display_range
  rt_console :: bool
  rt_fixed_size :: "size option"
  rt_greeter :: bool
  rt_backend :: backend_choice
  rt_wayland :: bool

definition bind_found :: "machine \<Rightarrow> router \<Rightarrow> session_record \<Rightarrow> worker_state \<Rightarrow> (session_error + unit) \<times> worker_state" where
  "bind_found mc rt rec w =
     (case bind_session (mc_lookup_user mc) (sr_user rec) (sr_display rec) (sr_xauthority rec) (sr_runtime_dir rec)
             (ws_client_size w) (ws_gate w) of
        (Inl e, g) \<Rightarrow> (Inl (GateRefused e), w\<lparr>ws_gate := g\<rparr>)
      | (Inr _, g) \<Rightarrow>
          let w = w\<lparr>ws_gate := g\<rparr>;
              bound = Some \<lparr>bs_display = sr_display rec, bs_logind_id = sr_logind_id rec\<rparr>
          in if sr_locked rec then
               (case session_unlock (rt_state_dir rt) rec (ws_fs w) of
                  (Inl e, fs) \<Rightarrow> (Inl (UnlockFailed e), w\<lparr>ws_fs := fs\<rparr>)
                | (Inr _, fs) \<Rightarrow> (Inr (), w\<lparr>ws_fs := fs, ws_bound := bound\<rparr>))
             else (Inr (), w\<lparr>ws_bound := bound\<rparr>))"

definition x11_bind :: "machine \<Rightarrow> router \<Rightarrow> string \<Rightarrow> worker_state \<Rightarrow> (session_error + unit) \<times> worker_state" where
  "x11_bind mc rt user w =
     (case attach_or_create mc (rt_state_dir rt) user (rt_range rt) X11_ID (ws_fs w) of
        (Inl e, fs) \<Rightarrow> (Inl e, w\<lparr>ws_fs := fs\<rparr>)
      | (Inr rec, fs) \<Rightarrow>
          if sr_user rec \<noteq> user then (Inl (SomebodyElses (sr_user rec)), w\<lparr>ws_fs := fs\<rparr>)
          else bind_found mc rt rec (w\<lparr>ws_fs := fs\<rparr>))"

definition attach_compositor :: "machine \<Rightarrow> router \<Rightarrow> string \<Rightarrow> gnome_session \<Rightarrow> worker_state \<Rightarrow> (session_error + unit) \<times> worker_state" where
  "attach_compositor mc rt user target w =
     (if \<not> mc_mutter_attach mc user target then (Inl MutterFailed, w)
      else case bind_compositor (mc_lookup_user mc) ''gnome'' user (gs_runtime_dir target)
             (case rt_fixed_size rt of Some s \<Rightarrow> s | None \<Rightarrow> ws_client_size w) (ws_gate w) of
        (Inl e, g) \<Rightarrow> (Inl (GateRefused e), w\<lparr>ws_gate := g\<rparr>)
      | (Inr _, g) \<Rightarrow> (Inr (), w\<lparr>ws_gate := g\<rparr>))"

text \<open>What follows in the source, asking the console's own GNOME session to lock, is a message
  to another desktop and changes nothing here.\<close>

definition gnome_headless_bind :: "machine \<Rightarrow> router \<Rightarrow> string \<Rightarrow> worker_state \<Rightarrow> (session_error + unit) \<times> worker_state" where
  "gnome_headless_bind mc rt user w =
     (case attach_or_create mc (rt_state_dir rt) user (rt_range rt) GNOME_HEADLESS_ID (ws_fs w) of
        (Inl e, fs) \<Rightarrow> (Inl e, w\<lparr>ws_fs := fs\<rparr>)
      | (Inr rec, fs) \<Rightarrow>
          let w = w\<lparr>ws_fs := fs\<rparr>
          in if sr_user rec \<noteq> user then (Inl (SomebodyElses (sr_user rec)), w)
             else case (sr_bus rec, mc_lookup_user mc user) of
               (None, _) \<Rightarrow> (Inl NoBus, w)
             | (Some bus, None) \<Rightarrow> (Inl UnknownUser, w)
             | (Some bus, Some ids) \<Rightarrow>
                 (case attach_compositor mc rt user
                        \<lparr>gs_uid = ui_uid ids, gs_gid = ui_gid ids, gs_runtime_dir = sr_runtime_dir rec, gs_bus = bus\<rparr> w of
                    (Inl e, w) \<Rightarrow> (Inl e, w)
                  | (Inr _, w) \<Rightarrow>
                      (Inr (), w\<lparr>ws_fs := (if sr_locked rec then snd (set_locked (rt_state_dir rt) (sr_display rec) False (ws_fs w)) else ws_fs w),
                         ws_bound := Some \<lparr>bs_display = sr_display rec, bs_logind_id = sr_logind_id rec\<rparr>\<rparr>)))"

definition gnome_console_find :: "machine \<Rightarrow> string \<Rightarrow> gnome_session option" where
  "gnome_console_find mc user = Option.bind (mc_lookup_user mc user) (\<lambda>ids. mc_console_session mc (ui_uid ids) (ui_gid ids))"

definition gnome_console_bind :: "machine \<Rightarrow> router \<Rightarrow> string \<Rightarrow> gnome_session \<Rightarrow> worker_state \<Rightarrow> (session_error + unit) \<times> worker_state" where
  "gnome_console_bind mc rt user target w =
     (case mc_lookup_user mc user of
        None \<Rightarrow> (Inl UnknownUser, w)
      | Some ids \<Rightarrow>
          if gs_uid target \<noteq> ui_uid ids then (Inl (SomebodyElses []), w) else attach_compositor mc rt user target w)"

datatype binding_step = BindX11 | BindGnomeHeadless | BindGnomeConsole gnome_session

definition backend_probe :: "machine \<Rightarrow> string \<Rightarrow> desktop_backend \<Rightarrow> string + binding_step" where
  "backend_probe mc user c =
     (case c of
        X11Session \<Rightarrow> if mc_x_server mc then Inr BindX11 else Inl ''no X server (Xvfb or Xorg) is installed''
      | GnomeHeadless \<Rightarrow> if mc_gnome_launcher mc then Inr BindGnomeHeadless else Inl ''no GNOME Shell can be started here (neither installed alongside linrdp, nor on the host of the container it runs in)''
      | GnomeConsole \<Rightarrow>
          (case gnome_console_find mc user of
             Some target \<Rightarrow> Inr (BindGnomeConsole target)
           | None \<Rightarrow> Inl ''this account is not the one logged in at the console''))"

definition run_binder :: "machine \<Rightarrow> router \<Rightarrow> string \<Rightarrow> binding_step \<Rightarrow> worker_state \<Rightarrow> (session_error + unit) \<times> worker_state" where
  "run_binder mc rt user b w =
     (case b of
        BindX11 \<Rightarrow> x11_bind mc rt user w
      | BindGnomeHeadless \<Rightarrow> gnome_headless_bind mc rt user w
      | BindGnomeConsole target \<Rightarrow> gnome_console_bind mc rt user target w)"

section \<open>The router\<close>

definition bind_to_desktop :: "machine \<Rightarrow> router \<Rightarrow> string \<Rightarrow> string \<Rightarrow> worker_state \<Rightarrow> (session_error + unit) \<times> worker_state" where
  "bind_to_desktop mc rt user password w =
     (if \<not> authorize_for_desktop mc user password then (Inl NotAuthorized, w)
      else case choose_backend (REGISTRY (rt_wayland rt)) (rt_backend rt) (ws_console_requested w) (backend_probe mc user) of
        Inl e \<Rightarrow> (Inl (NoDesktop e), w)
      | Inr (c, b) \<Rightarrow> run_binder mc rt user b w)"

definition router_bind_session :: "machine \<Rightarrow> router \<Rightarrow> worker_state \<Rightarrow> (session_error + unit) \<times> worker_state" where
  "router_bind_session mc rt w =
     (case ws_pending w of
        None \<Rightarrow> (Inl NoIdentity, w)
      | Some (user, password) \<Rightarrow> bind_to_desktop mc rt user password (w\<lparr>ws_pending := None\<rparr>))"

definition show_greeter :: "machine \<Rightarrow> worker_state \<Rightarrow> (session_error + unit) \<times> worker_state" where
  "show_greeter mc w =
     (case mc_greeter mc of
        None \<Rightarrow> (Inl GreeterFailed, w)
      | Some (display, xauth, dir) \<Rightarrow>
          (case bind_greeter display xauth dir (ws_client_size w) (ws_gate w) of
             (Inl e, g) \<Rightarrow> (Inl (GateRefused e), w\<lparr>ws_gate := g\<rparr>)
           | (Inr _, g) \<Rightarrow> (Inr (), w\<lparr>ws_gate := g, ws_form := True\<rparr>)))"

text \<open>A connection that cannot be given its desktop ends the process.\<close>

definition or_exit :: "(session_error + unit) \<times> worker_state \<Rightarrow> worker_state option" where
  "or_exit r = (case r of (Inl _, _) \<Rightarrow> None | (Inr _, w) \<Rightarrow> Some w)"

definition on_connection_info :: "machine \<Rightarrow> router \<Rightarrow> bool \<Rightarrow> size \<Rightarrow> worker_state \<Rightarrow> worker_state option" where
  "on_connection_info mc rt console_requested desktop w =
     (let w = w\<lparr>ws_console_requested := console_requested, ws_client_size := desktop\<rparr>
      in if rt_console rt then
           (case ws_pending w of
              Some (user, password) \<Rightarrow>
                if authorize_for_desktop mc user password
                then Some (w\<lparr>ws_pending := None, ws_gate := set_console_user user (ws_gate w)\<rparr>) else None
            | None \<Rightarrow> None)
         else if rt_greeter rt then
           (if ws_pending w \<noteq> None then or_exit (router_bind_session mc rt w) else or_exit (show_greeter mc w))
         else or_exit (router_bind_session mc rt w))"

text \<open>The logon form: it returns an account only once its password was verified, and what
  then fails is logged while the connection goes on.\<close>

definition form_submit :: "machine \<Rightarrow> router \<Rightarrow> string \<Rightarrow> string \<Rightarrow> worker_state \<Rightarrow> worker_state" where
  "form_submit mc rt user password w =
     (if ws_form w \<and> verify_system_password mc user password = Inr True
      then (snd (bind_to_desktop mc rt user password w))\<lparr>ws_form := False\<rparr> else w)"

definition on_disconnected :: "router \<Rightarrow> worker_state \<Rightarrow> worker_state" where
  "on_disconnected rt w =
     (case ws_bound w of
        None \<Rightarrow> w
      | Some b \<Rightarrow> w\<lparr>ws_fs := snd (session_lock (rt_state_dir rt) (bs_display b) (ws_fs w))\<rparr>)"

section \<open>The life of a worker\<close>

text \<open>The SAM lookup of CredSSP, the validator of the TLS path, the completed connection
  sequence, and a submitted logon form; each meets the machine as it is then.\<close>

datatype worker_event =
    Resolved string string
  | Validated string string
  | Connected_info bool size
  | Submitted string string

fun worker_step :: "router \<Rightarrow> machine \<times> worker_event \<Rightarrow> worker_state \<Rightarrow> worker_state option" where
  "worker_step rt (mc, Resolved account password) w = Some (w\<lparr>ws_pending := Some (account, password)\<rparr>)"
| "worker_step rt (mc, Validated user password) w =
     (case validate mc (rt_greeter rt) (user, password) (ws_pending w) of
        (CredentialReject, _) \<Rightarrow> None
      | (CredentialAccept, pending) \<Rightarrow> Some (w\<lparr>ws_pending := pending\<rparr>))"
| "worker_step rt (mc, Connected_info console_requested desktop) w = on_connection_info mc rt console_requested desktop w"
| "worker_step rt (mc, Submitted user password) w = Some (form_submit mc rt user password w)"

fun run_worker :: "router \<Rightarrow> (machine \<times> worker_event) list \<Rightarrow> worker_state \<Rightarrow> worker_state option" where
  "run_worker rt [] w = Some w"
| "run_worker rt (e # events) w = Option.bind (worker_step rt e w) (run_worker rt events)"

section \<open>Whose desktop\<close>

text \<open>The accounts a gate may make its worker act for.\<close>

definition acts_for :: "gate \<Rightarrow> string set" where
  "acts_for g = set_option (g_console_user g) \<union> set_option (Option.bind (g_bound g) bd_user)"

lemma session_user_acts: "session_user g = Some u \<Longrightarrow> u \<in> acts_for g"
  by (cases "g_bound g") (auto simp: session_user_def acts_for_def split: option.splits)

lemma acts_for_env [simp]:
  "acts_for (set_var k v g) = acts_for g" "acts_for (remove_var k g) = acts_for g" "acts_for (set_cookie a g) = acts_for g"
  by (simp_all add: acts_for_def set_var_def remove_var_def set_cookie_def split: option.splits)

lemma acts_for_commit: "acts_for (snd (commit_binding wanted g)) \<subseteq> acts_for g \<union> set_option (bd_user wanted)"
  by (auto simp: commit_binding_def bind_into_def acts_for_def split: option.splits sum.splits if_splits)

lemma acts_for_bind:
  "acts_for (snd (bind_session lk user d x r sz g)) \<subseteq> insert user (acts_for g)"
  "acts_for (snd (bind_greeter d x r sz g)) \<subseteq> acts_for g"
  "acts_for (snd (bind_compositor lk desktop user r sz g)) \<subseteq> insert user (acts_for g)"
  unfolding bind_defs by (rule order_trans [OF acts_for_commit]; simp; blast)+

lemma acts_for_console_user: "acts_for (set_console_user user g) \<subseteq> insert user (acts_for g)"
  by (auto simp: acts_for_def set_console_user_def)

lemma authorized: "authorize_for_desktop mc user password \<longleftrightarrow> user \<noteq> [] \<and> mc_pam mc user password = Inr True"
  by (auto simp: authorize_for_desktop_def decide_def login_from_pam_def split: sum.splits bool.splits)

text \<open>No way of binding a login lets the worker act for anybody but the account that logs
  in, and none touches the pending identity.\<close>

definition binds_only :: "string \<Rightarrow> (session_error + unit) \<times> worker_state \<Rightarrow> worker_state \<Rightarrow> bool" where
  "binds_only user r w \<longleftrightarrow> acts_for (ws_gate (snd r)) \<subseteq> insert user (acts_for (ws_gate w)) \<and> ws_pending (snd r) = ws_pending w"

lemma bind_found_only: "binds_only (sr_user rec) (bind_found mc rt rec w) w"
  using acts_for_bind(1) [of "mc_lookup_user mc" "sr_user rec" "sr_display rec" "sr_xauthority rec" "sr_runtime_dir rec" "ws_client_size w" "ws_gate w"]
  by (auto simp: bind_found_def binds_only_def Let_def split: prod.splits sum.splits)

lemma attach_compositor_only: "binds_only user (attach_compositor mc rt user target w) w"
proof -
  define sz where "sz = (case rt_fixed_size rt of Some s \<Rightarrow> s | None \<Rightarrow> ws_client_size w)"
  obtain r g where b: "bind_compositor (mc_lookup_user mc) ''gnome'' user (gs_runtime_dir target) sz (ws_gate w) = (r, g)"
    by fastforce
  with acts_for_bind(3) [of "mc_lookup_user mc" "''gnome''" user "gs_runtime_dir target" sz "ws_gate w"]
  have "acts_for g \<subseteq> insert user (acts_for (ws_gate w))" by simp
  with b show ?thesis
    unfolding attach_compositor_def sz_def [symmetric] b binds_only_def by (cases r) auto
qed

lemma binds_only_fs [simp]: "binds_only user r (w\<lparr>ws_fs := fs\<rparr>) = binds_only user r w"
  by (simp add: binds_only_def)

lemma binds_only_refused [simp]: "binds_only user (Inl e, w) w" "binds_only user (Inl e, w\<lparr>ws_fs := fs\<rparr>) w"
  by (auto simp: binds_only_def)

lemma x11_bind_only: "binds_only user (x11_bind mc rt user w) w"
proof -
  obtain r fs where a: "attach_or_create mc (rt_state_dir rt) user (rt_range rt) X11_ID (ws_fs w) = (r, fs)" by fastforce
  show ?thesis
  proof (cases r)
    case (Inr rec)
    with a bind_found_only [of rec mc rt "w\<lparr>ws_fs := fs\<rparr>"] show ?thesis by (simp add: x11_bind_def) blast
  qed (simp add: x11_bind_def a)
qed

lemma gnome_headless_bind_only: "binds_only user (gnome_headless_bind mc rt user w) w"
proof (cases "attach_or_create mc (rt_state_dir rt) user (rt_range rt) GNOME_HEADLESS_ID (ws_fs w)")
  case (Pair r fs)
  show ?thesis
  proof (cases r)
    case (Inr rec)
    show ?thesis
    proof (cases "sr_user rec = user")
      case True
      show ?thesis
      proof (cases "sr_bus rec = None \<or> mc_lookup_user mc user = None")
        case False
        then obtain bus ids where b: "sr_bus rec = Some bus" "mc_lookup_user mc user = Some ids" by auto
        from attach_compositor_only [of user mc rt
            "\<lparr>gs_uid = ui_uid ids, gs_gid = ui_gid ids, gs_runtime_dir = sr_runtime_dir rec, gs_bus = bus\<rparr>" "w\<lparr>ws_fs := fs\<rparr>"]
        show ?thesis using True b Pair Inr
          by (auto simp: gnome_headless_bind_def Let_def binds_only_def split: prod.splits sum.splits)
      qed (use True Pair Inr in \<open>auto simp: gnome_headless_bind_def Let_def split: option.splits\<close>)
    qed (use Pair Inr in \<open>simp add: gnome_headless_bind_def Let_def\<close>)
  qed (use Pair in \<open>simp add: gnome_headless_bind_def\<close>)
qed

lemma gnome_console_bind_only: "binds_only user (gnome_console_bind mc rt user target w) w"
  using attach_compositor_only by (auto simp: gnome_console_bind_def split: option.splits)

lemmas binders_only = x11_bind_only gnome_headless_bind_only gnome_console_bind_only

lemma bind_to_desktop_only:
  "acts_for (ws_gate (snd (bind_to_desktop mc rt user password w))) \<subseteq>
     acts_for (ws_gate w) \<union> {u. u = user \<and> mc_pam mc user password = Inr True} \<and>
   ws_pending (snd (bind_to_desktop mc rt user password w)) = ws_pending w"
proof (cases "authorize_for_desktop mc user password")
  case True
  have "binds_only user (run_binder mc rt user b w) w" for b
    by (simp add: run_binder_def binders_only split: binding_step.splits)
  with True show ?thesis
    by (auto simp: bind_to_desktop_def authorized binds_only_def split: sum.splits)
qed (simp add: bind_to_desktop_def)

section \<open>Whose account\<close>

fun presented :: "worker_event \<Rightarrow> identity set" where
  "presented (Resolved u p) = {(u, p)}"
| "presented (Validated u p) = {(u, p)}"
| "presented (Connected_info _ _) = {}"
| "presented (Submitted u p) = {(u, p)}"

lemma or_exit_Some: "or_exit r = Some w \<Longrightarrow> w = snd r"
  by (auto simp: or_exit_def split: prod.splits sum.splits)

lemma router_bind_only:
  assumes "router_bind_session mc rt w = r"
  shows "acts_for (ws_gate (snd r)) \<subseteq> acts_for (ws_gate w) \<union> {u. \<exists>p. ws_pending w = Some (u, p) \<and> mc_pam mc u p = Inr True}"
    "set_option (ws_pending (snd r)) \<subseteq> set_option (ws_pending w)"
proof -
  show "acts_for (ws_gate (snd r)) \<subseteq> acts_for (ws_gate w) \<union> {u. \<exists>p. ws_pending w = Some (u, p) \<and> mc_pam mc u p = Inr True}"
  proof (cases "ws_pending w")
    case (Some x)
    obtain user password where x: "x = (user, password)" by fastforce
    from bind_to_desktop_only [of mc rt user password "w\<lparr>ws_pending := None\<rparr>"] Some x assms show ?thesis
      by (auto simp: router_bind_session_def)
  qed (use assms in \<open>auto simp: router_bind_session_def\<close>)
  show "set_option (ws_pending (snd r)) \<subseteq> set_option (ws_pending w)"
    using assms bind_to_desktop_only [of mc rt _ _ "w\<lparr>ws_pending := None\<rparr>"]
    by (auto simp: router_bind_session_def split: option.splits)
qed

lemma show_greeter_only:
  "acts_for (ws_gate (snd (show_greeter mc w))) \<subseteq> acts_for (ws_gate w) \<and> ws_pending (snd (show_greeter mc w)) = ws_pending w"
proof (cases "mc_greeter mc")
  case (Some x)
  obtain d xa dir where x: "x = (d, xa, dir)" by (cases x) auto
  obtain r g where b: "bind_greeter d xa dir (ws_client_size w) (ws_gate w) = (r, g)" by fastforce
  with acts_for_bind(2) [of d xa dir "ws_client_size w" "ws_gate w"] have "acts_for g \<subseteq> acts_for (ws_gate w)" by simp
  with Some x b show ?thesis by (cases r) (auto simp: show_greeter_def)
qed (simp add: show_greeter_def)

text \<open>One event: the worker starts acting for at most an account that PAM accepts at that
  moment, with a password that was pending or is presented by the event.\<close>

lemma worker_step_only:
  assumes "worker_step rt (mc, e) w = Some w'"
  shows "acts_for (ws_gate w') \<subseteq> acts_for (ws_gate w) \<union>
      {u. \<exists>p. mc_pam mc u p = Inr True \<and> (u, p) \<in> presented e \<union> set_option (ws_pending w)} \<and>
    set_option (ws_pending w') \<subseteq> set_option (ws_pending w) \<union> presented e"
proof (cases e)
  case (Validated u p)
  with assms show ?thesis
    by (auto simp: validate_def Let_def split: if_splits)
next
  case (Connected_info console desktop)
  define v where "v = w\<lparr>ws_console_requested := console, ws_client_size := desktop\<rparr>"
  have v: "ws_gate v = ws_gate w" "ws_pending v = ws_pending w" by (simp_all add: v_def)
  note r = router_bind_only [OF refl, of mc rt v, unfolded v]
  note gr = show_greeter_only [of mc v, unfolded v]
  from assms Connected_info have step: "on_connection_info mc rt console desktop w = Some w'" by simp
  show ?thesis
  proof (cases "rt_console rt")
    case True
    with step obtain u p where u: "ws_pending w = Some (u, p)" "authorize_for_desktop mc u p"
      "w' = v\<lparr>ws_pending := None, ws_gate := set_console_user u (ws_gate w)\<rparr>"
      by (auto simp: on_connection_info_def Let_def v_def split: option.splits if_splits)
    with acts_for_console_user [of u "ws_gate w"] show ?thesis by (auto simp: authorized)
  next
    case False
    with step have "w' = snd (router_bind_session mc rt v) \<or> w' = snd (show_greeter mc v)"
      by (auto simp: on_connection_info_def Let_def v_def dest: or_exit_Some split: if_splits)
    with r gr show ?thesis by (auto 4 3)
  qed
next
  case (Submitted u p)
  with assms bind_to_desktop_only [of mc rt u p w] show ?thesis by (auto simp: form_submit_def split: if_splits)
qed (use assms in auto)

lemma run_worker_only:
  assumes "run_worker rt events w = Some w'" "u \<in> acts_for (ws_gate w')"
  shows "u \<in> acts_for (ws_gate w) \<or> (\<exists>mc e p. (mc, e) \<in> set events \<and> mc_pam mc u p = Inr True \<and>
    (u, p) \<in> (\<Union>(_, e) \<in> set events. presented e) \<union> set_option (ws_pending w))"
  using assms
proof (induction events arbitrary: w)
  case (Cons x events)
  obtain mc e where x: "x = (mc, e)" by fastforce
  obtain v where v: "worker_step rt (mc, e) w = Some v" "run_worker rt events v = Some w'"
    using Cons.prems(1) x by (auto simp: bind_eq_Some_conv)
  from Cons.IH [OF v(2) Cons.prems(2)] worker_step_only [OF v(1)] show ?case
    unfolding x list.set by (auto 4 4)
qed simp

text \<open>
  C10. A worker acts for nobody but an account PAM has accepted: whatever the client
  sends, whatever was resolved, validated or typed into the logon form and in whatever
  order, if the worker ends up serving or touching anything as some account, then that
  account's name was presented together with a password that PAM, asked at one of those
  steps, found right and allowed to log in.
\<close>

theorem acts_only_for_verified_account:
  assumes "run_worker rt events w = Some w'" "acts_for (ws_gate w) = {}" "ws_pending w = None"
    "session_user (ws_gate w') = Some u"
  shows "\<exists>mc e p. (mc, e) \<in> set events \<and> mc_pam mc u p = Inr True \<and> (u, p) \<in> (\<Union>(_, e) \<in> set events. presented e)"
  using run_worker_only [OF assms(1) session_user_acts [OF assms(4)]] assms(2,3) by auto

text \<open>A machine with one account, whose X session is running, and a worker on it.\<close>

definition sample_machine :: machine where
  "sample_machine = \<lparr>mc_pam = (\<lambda>u p. Inr (u = ''carol'' \<and> p = ''secret'')),
     mc_lookup_user = (\<lambda>u. if u = ''carol'' then Some \<lparr>ui_uid = 1012, ui_gid = 1012, ui_name = u, ui_home = ''/home/carol''\<rparr> else None),
     mc_x_accepts = (\<lambda>_ auth. fst auth = COOKIE_NAME), mc_account_lock = (\<lambda>_. True), mc_claim = None, mc_spawned = False,
     mc_polls = [], mc_x_server = True, mc_gnome_launcher = False, mc_console_session = (\<lambda>_ _. None),
     mc_mutter_attach = (\<lambda>_ _. False), mc_greeter = None\<rparr>"

definition sample_router :: "bool \<Rightarrow> router" where
  "sample_router console = \<lparr>rt_state_dir = ''/run/linrdp'', rt_range = (12, 12), rt_console = console, rt_fixed_size = None,
     rt_greeter = False, rt_backend = BackendAuto, rt_wayland = False\<rparr>"

definition sample_worker :: "fs \<Rightarrow> worker_state" where
  "sample_worker fs = \<lparr>ws_gate = arm_gate (gate_init (\<lambda>_. None)), ws_fs = fs, ws_pending = None, ws_bound = None,
     ws_console_requested = False, ws_client_size = (0, 0), ws_form = False\<rparr>"

definition sample_login :: "(machine \<times> worker_event) list" where
  "sample_login = [(sample_machine, Resolved ''carol'' ''secret''), (sample_machine, Connected_info False (1280, 800))]"

theorem acts_only_for_verified_account_witness:
  "\<exists>w'. run_worker (sample_router True) sample_login (sample_worker empty_fs) = Some w' \<and>
     session_user (ws_gate w') = Some ''carol'' \<and>
     (\<exists>mc e p. (mc, e) \<in> set sample_login \<and> mc_pam mc ''carol'' p = Inr True \<and>
        (''carol'', p) \<in> (\<Union>(_, e) \<in> set sample_login. presented e))"
proof -
  obtain w' where "run_worker (sample_router True) sample_login (sample_worker empty_fs) = Some w'"
    "session_user (ws_gate w') = Some ''carol''"
    by (simp add: sample_login_def sample_worker_def sample_router_def on_connection_info_def Let_def authorized
        sample_machine_def session_user_def set_console_user_def arm_gate_def gate_init_def)
  moreover have "acts_for (ws_gate (sample_worker empty_fs)) = {}" "ws_pending (sample_worker empty_fs) = None"
    by (simp_all add: sample_worker_def acts_for_def arm_gate_def gate_init_def)
  ultimately show ?thesis
    using acts_only_for_verified_account [of "sample_router True" sample_login "sample_worker empty_fs" w' "''carol''"] by blast
qed

section \<open>Choosing\<close>

lemma first_serving_sound:
  "first_serving probe cs = Inr (c, x) \<Longrightarrow>
     \<exists>before after. cs = before @ c # after \<and> probe c = Inr x \<and> list_all (\<lambda>b. \<exists>e. probe b = Inl e) before"
proof (induction cs)
  case (Cons b cs)
  show ?case
  proof (cases "probe b")
    case (Inl e)
    with Cons obtain before after where "cs = before @ c # after" "probe c = Inr x"
      "list_all (\<lambda>b. \<exists>e. probe b = Inl e) before" by (auto split: sum.splits)
    with Inl have "b # cs = (b # before) @ c # after \<and> probe c = Inr x \<and> list_all (\<lambda>b. \<exists>e. probe b = Inl e) (b # before)"
      by simp
    then show ?thesis by blast
  next
    case (Inr y)
    with Cons.prems show ?thesis by (auto intro: exI [of _ "[]"])
  qed
qed simp

text \<open>
  C25. The choice of a desktop keeps to what was asked for: the chosen case is compiled
  in and said it can serve this login; it is the console if and only if the client asked
  for the console; a configured backend is served by that backend and by no other; and
  where the program chooses, every case of the right kind before the chosen one declined.
\<close>

theorem choose_backend_sound:
  assumes "choose_backend registry choice console_requested probe = Inr (c, x)"
  shows "c \<in> set registry \<and> probe c = Inr x \<and> (backend_serves c = ConsoleSession \<longleftrightarrow> console_requested) \<and>
    (if \<not> console_requested \<and> choice \<noteq> BackendAuto then backend_named c = Some choice
     else \<exists>before after. filter (\<lambda>b. backend_serves b = backend_serves c) registry = before @ c # after \<and>
       list_all (\<lambda>b. \<exists>e. probe b = Inl e) before)"
proof (cases "\<not> console_requested \<and> choice \<noteq> BackendAuto")
  case True
  with assms obtain "find (\<lambda>c. backend_named c = Some choice) (filter (\<lambda>c. backend_serves c = OwnSession) registry) = Some c"
    "probe c = Inr x" by (auto simp: choose_backend_def Let_def split: option.splits sum.splits)
  moreover from this(1) have "c \<in> set (filter (\<lambda>c. backend_serves c = OwnSession) registry)" "backend_named c = Some choice"
    by (auto simp: find_Some_iff in_set_conv_nth simp del: set_filter)
  ultimately show ?thesis using True by auto
next
  case False
  define kind where "kind = (if console_requested then ConsoleSession else OwnSession)"
  from False assms have "first_serving probe (filter (\<lambda>c. backend_serves c = kind) registry) = Inr (c, x)"
    by (auto simp: choose_backend_def Let_def kind_def split: sum.splits if_splits)
  from first_serving_sound [OF this] obtain before after where
    s: "filter (\<lambda>c. backend_serves c = kind) registry = before @ c # after" "probe c = Inr x"
      "list_all (\<lambda>b. \<exists>e. probe b = Inl e) before" by blast
  have "c \<in> set (filter (\<lambda>c. backend_serves c = kind) registry)" unfolding s(1) by simp
  then have "c \<in> set registry" "backend_serves c = kind" by simp_all
  with s False show ?thesis by (auto simp: kind_def split: if_splits)
qed

theorem choose_backend_sound_witness:
  "let probe = (\<lambda>c. if c = X11Session then Inr (7 :: nat) else Inl ''no'') in
   choose_backend (REGISTRY True) BackendAuto False probe = Inr (X11Session, 7) \<and>
   (\<exists>before after. filter (\<lambda>b. backend_serves b = backend_serves X11Session) (REGISTRY True) = before @ X11Session # after \<and>
       list_all (\<lambda>b. \<exists>e. probe b = Inl e) before)"
proof -
  define probe where "probe = (\<lambda>c. if c = X11Session then Inr (7 :: nat) else Inl ''no'')"
  have "choose_backend (REGISTRY True) BackendAuto False probe = Inr (X11Session, 7)"
    by (simp add: probe_def choose_backend_def REGISTRY_def Let_def)
  with choose_backend_sound [OF this] show ?thesis unfolding Let_def probe_def [symmetric] by simp
qed

section \<open>Locked on the way out\<close>

text \<open>A worker bound to an X session knows which session to lock.\<close>

definition bound_known :: "worker_state \<Rightarrow> bool" where
  "bound_known w \<longleftrightarrow> (\<forall>b. g_bound (ws_gate w) = Some b \<and> bd_kind b = SessionBinding \<longrightarrow>
     map_option (\<lambda>s. CHR '':'' # show_u16 (bs_display s)) (ws_bound w) = Some (bd_display b))"

lemma bind_session_bound:
  "bind_session lk user d x r sz g = (Inr u, g') \<Longrightarrow>
     \<exists>b. g_bound g' = Some b \<and> bd_kind b = SessionBinding \<and> bd_display b = CHR '':'' # show_u16 d"
  by (auto simp: bind_defs commit_binding_def bind_into_def split: sum.splits option.splits if_splits)

lemma bind_compositor_bound:
  "bind_compositor lk desktop user r sz g = (Inr u, g') \<Longrightarrow> \<exists>b. g_bound g' = Some b \<and> bd_kind b = CompositorBinding"
  by (auto simp: bind_defs commit_binding_def bind_into_def split: sum.splits option.splits if_splits)

lemma bind_found_known: "bind_found mc rt rec w = (Inr u, w') \<Longrightarrow> bound_known w'"
  by (auto simp: bind_found_def Let_def bound_known_def dest!: bind_session_bound split: prod.splits sum.splits if_splits)

lemma attach_compositor_known:
  "attach_compositor mc rt user target w = (Inr u, w') \<Longrightarrow>
     bound_known (w'\<lparr>ws_fs := fs, ws_bound := s\<rparr>) \<and> bound_known (w'\<lparr>ws_bound := s\<rparr>) \<and> bound_known w'"
  by (auto simp: attach_compositor_def bound_known_def dest!: bind_compositor_bound split: prod.splits sum.splits if_splits)

lemma x11_bind_known: "x11_bind mc rt user w = (Inr u, w') \<Longrightarrow> bound_known w'"
  by (auto simp: x11_bind_def dest: bind_found_known split: prod.splits sum.splits if_splits)

lemma gnome_headless_bind_known: "gnome_headless_bind mc rt user w = (Inr u, w') \<Longrightarrow> bound_known w'"
  by (auto simp: gnome_headless_bind_def Let_def attach_compositor_known
      split: prod.splits sum.splits if_splits option.splits)

lemma gnome_console_bind_known: "gnome_console_bind mc rt user target w = (Inr u, w') \<Longrightarrow> bound_known w'"
  by (simp add: gnome_console_bind_def attach_compositor_known split: if_splits option.splits)

lemma run_binder_known: "run_binder mc rt user b w = (Inr u, w') \<Longrightarrow> bound_known w'"
  by (cases b) (simp_all add: run_binder_def x11_bind_known gnome_headless_bind_known gnome_console_bind_known)

text \<open>Binding touches the gate, the state directory and the bound session; whether a form
  is shown is not its business.\<close>

lemma attach_compositor_form [simp]: "ws_form (snd (attach_compositor mc rt user target w)) = ws_form w"
  by (simp add: attach_compositor_def split: prod.splits sum.splits)

lemma run_binder_form: "ws_form (snd (run_binder mc rt user b w)) = ws_form w"
proof (cases b)
  case BindX11
  then show ?thesis by (simp add: run_binder_def x11_bind_def bind_found_def Let_def split: prod.splits sum.splits)
next
  case BindGnomeHeadless
  have "ws_form w' = ws_form w" if "attach_compositor mc rt user target (w\<lparr>ws_fs := fs\<rparr>) = (r, w')" for target fs r w'
    using attach_compositor_form [of mc rt user target "w\<lparr>ws_fs := fs\<rparr>"] that by simp
  with BindGnomeHeadless show ?thesis
    by (simp add: run_binder_def gnome_headless_bind_def Let_def split: prod.splits sum.splits option.splits)
next
  case (BindGnomeConsole t)
  then show ?thesis by (simp add: run_binder_def gnome_console_bind_def split: option.splits)
qed

lemma worker_step_known:
  assumes "worker_step rt (mc, e) w = Some w'" "\<not> rt_greeter rt" "bound_known w" "\<not> ws_form w"
  shows "bound_known w' \<and> \<not> ws_form w'"
proof (cases e)
  case (Connected_info console desktop)
  define v where "v = w\<lparr>ws_console_requested := console, ws_client_size := desktop\<rparr>"
  have v: "bound_known v" "\<not> ws_form v" using assms by (simp_all add: v_def bound_known_def)
  from assms Connected_info have step: "on_connection_info mc rt console desktop w = Some w'" by simp
  show ?thesis
  proof (cases "rt_console rt")
    case True
    with step v show ?thesis
      by (auto simp: on_connection_info_def Let_def v_def bound_known_def set_console_user_def split: option.splits if_splits)
  next
    case False
    with step assms(2) have o: "or_exit (router_bind_session mc rt v) = Some w'"
      by (simp add: on_connection_info_def Let_def v_def)
    then obtain u p where "ws_pending v = Some (u, p)"
      and b: "bind_to_desktop mc rt u p (v\<lparr>ws_pending := None\<rparr>) = (Inr (), w')"
      by (auto simp: or_exit_def router_bind_session_def split: option.splits prod.splits sum.splits)
    then obtain c where "run_binder mc rt u c (v\<lparr>ws_pending := None\<rparr>) = (Inr (), w')"
      by (auto simp: bind_to_desktop_def split: if_splits sum.splits)
    from run_binder_known [OF this] run_binder_form [of mc rt u c "v\<lparr>ws_pending := None\<rparr>"] this v show ?thesis by simp
  qed
qed (use assms in \<open>auto simp: form_submit_def bound_known_def split: credential_decision.splits prod.splits if_splits\<close>)

lemma run_worker_known:
  "run_worker rt events w = Some w' \<Longrightarrow> \<not> rt_greeter rt \<Longrightarrow> bound_known w \<Longrightarrow> \<not> ws_form w \<Longrightarrow> bound_known w'"
proof (induction events arbitrary: w)
  case (Cons x events)
  obtain mc e where x: "x = (mc, e)" by fastforce
  with Cons.prems obtain v where "worker_step rt (mc, e) w = Some v" "run_worker rt events v = Some w'"
    by (auto simp: bind_eq_Some_conv)
  with Cons.IH Cons.prems(2-) worker_step_known show ?case by blast
qed simp

lemma session_lock_locks:
  assumes "filed base fs" "fs_refused fs (record_path base d) = None"
  shows "pred_option sr_locked (read_record base d (snd (session_lock base d fs)))"
proof (cases "read_record base d fs")
  case (Some rec)
  obtain fs' where "write_record base (rec\<lparr>sr_locked := True\<rparr>) fs = (Inr (), fs')"
    "\<And>x. read_record base x fs' = (if x = d then Some (reread (rec\<lparr>sr_locked := True\<rparr>)) else read_record base x fs)"
    using relock [OF assms(1) Some assms(2), where b = True] by blast
  with Some show ?thesis by (simp add: session_lock_def set_locked_def)
qed (simp add: session_lock_def set_locked_def)


text \<open>The state directory and the cookie file of the running session.\<close>

lemma sample_state:
  obtains fs where "filed ''/run/linrdp'' fs" "fs_refused fs = (\<lambda>_. None)" "read_record ''/run/linrdp'' 12 fs = Some sample_record"
    "cookie_for (sr_xauthority sample_record) 12 fs = Some (COOKIE_NAME, replicate 16 (CHR ''k''))"
proof -
  define fs0 where "fs0 = empty_fs\<lparr>fs_files := [sr_xauthority sample_record \<mapsto>
    \<lparr>f_content = xauthority_entry 12 (replicate 16 (CHR ''k'')), f_mode = MODE_PRIVATE\<rparr>]\<rparr>"
  have other: "record_path ''/run/linrdp'' d \<noteq> sr_xauthority sample_record" for d
    by (simp add: record_path_def path_join_def sample_record_def)
  have none: "read_record ''/run/linrdp'' d fs0 = None" for d
    using other by (simp add: read_record_def fs_read_to_string_def fs0_def empty_fs_def)
  obtain fs where w: "write_record ''/run/linrdp'' sample_record fs0 = (Inr (), fs)" "fs_refused fs = fs_refused fs0"
    "fs_files fs = (fs_files fs0)(record_path ''/run/linrdp'' (sr_display sample_record) \<mapsto>
       \<lparr>f_content = record_body sample_record, f_mode = MODE_PRIVATE\<rparr>)"
    by (rule write_record_ok [of fs0 "''/run/linrdp''" sample_record]) (simp add: fs0_def empty_fs_def)
  have safe: "line_safe sample_record" by (simp add: line_safe_def sample_record_def X11_ID_def)
  have same: "reread sample_record = sample_record" "sr_display sample_record = 12"
    by (rule reread_id [OF safe]) (simp_all add: sample_record_def one_line_def X11_ID_def)
  note r = read_after_write [OF safe w(3), unfolded none same]
  have "\<not> length (xauthority_entry 12 c) < 2" for c by (simp add: xauthority_entry_def be16_text_def)
  then have "cookie_scan (show_u16 12) (xauthority_entry 12 (replicate 16 (CHR ''k''))) = Some (COOKIE_NAME, replicate 16 (CHR ''k''))"
    using take_record_entry [of "replicate 16 (CHR ''k'')" 12 "[]"] by (subst cookie_scan.simps) simp
  moreover have "fs_files fs (sr_xauthority sample_record) = fs_files fs0 (sr_xauthority sample_record)"
    unfolding w(3) by (rule fun_upd_other) (rule other [symmetric])
  ultimately have "cookie_for (sr_xauthority sample_record) 12 fs = Some (COOKIE_NAME, replicate 16 (CHR ''k''))"
    by (simp add: cookie_for_def fs_read_to_string_def fs0_def)
  moreover have "filed ''/run/linrdp'' fs" using same by (simp add: filed_def r)
  moreover have "fs_refused fs = (\<lambda>_. None)" using w(2) by (simp add: fs0_def empty_fs_def)
  moreover have "read_record ''/run/linrdp'' 12 fs = Some sample_record" by (simp add: r)
  ultimately show thesis using that by blast
qed


section \<open>Headless GNOME\<close>

text \<open>A headless session's record names no cookie file, and no cookie means dead: such a
  session is never attached to, and one just started is refused.\<close>

lemma headless_gnome_never_live:
  assumes "sr_xauthority rec = []" "fs_files fs [] = None"
  shows "\<not> desktop_is_live mc fs rec"
  using assms by (simp add: desktop_is_live_def cookie_for_def fs_read_to_string_def)

end
