(* ===== verification/Tunnel_Pdu.thy ===== *)
theory Tunnel_Pdu
  imports Wire
begin

text \<open>
  The PDUs of the multitransport tunnel (\<open>crates/ironrdp-rdpemt/src/pdu\<close>): the common header
  with its sub-headers, the create request and response, and the data PDU. The \<open>while\<close>
  loop over the sub-headers is a recursion that ends because each of them takes at
  least two bytes off the cursor.
\<close>

section \<open>Sub-headers\<close>

datatype sub_header_type = AutoDetectRequest | AutoDetectResponse | UnknownSubHeader u8

definition sub_header_type_from_u8 :: "u8 \<Rightarrow> sub_header_type" where
  "sub_header_type_from_u8 v =
     (if v = 0 then AutoDetectRequest else if v = 1 then AutoDetectResponse else UnknownSubHeader v)"

fun sub_header_type_to_u8 :: "sub_header_type \<Rightarrow> u8" where
  "sub_header_type_to_u8 AutoDetectRequest = 0"
| "sub_header_type_to_u8 AutoDetectResponse = 1"
| "sub_header_type_to_u8 (UnknownSubHeader v) = v"

record tunnel_sub_header =
  sub_header_type :: sub_header_type
  sub_header_data :: bytes

definition SUB_HEADER_MIN_WIRE_SIZE :: usize where "SUB_HEADER_MIN_WIRE_SIZE = 2"

definition sub_header_wire_size :: "tunnel_sub_header \<Rightarrow> usize" where
  "sub_header_wire_size sub = SUB_HEADER_MIN_WIRE_SIZE + length (sub_header_data sub)"

definition u8_try_from :: "codec_error \<Rightarrow> usize \<Rightarrow> codec_error + u8" where
  "u8_try_from e n = (if n \<le> 255 then Inr (of_nat n) else Inl e)"

definition u16_try_from :: "codec_error \<Rightarrow> usize \<Rightarrow> codec_error + u16" where
  "u16_try_from e n = (if n \<le> 65535 then Inr (of_nat n) else Inl e)"

text \<open>A value computed by a fallible conversion, then written.\<close>

definition wlet :: "codec_error + 'a \<Rightarrow> ('a \<Rightarrow> writer) \<Rightarrow> writer" where
  "wlet r f dst = and_then r (\<lambda>x. f x dst)"

definition dlift :: "codec_error + 'a \<Rightarrow> 'a decoder" where
  "dlift r src = and_then r (\<lambda>x. Inr (x, src))"

text \<open>An error that names the position the cursor has reached.\<close>

definition dfail_at :: "(usize option \<Rightarrow> codec_error) \<Rightarrow> 'a decoder" where
  "dfail_at e src = Inl (e (Some (rc_pos src)))"

definition encode_sub_header :: "tunnel_sub_header \<Rightarrow> writer" where
  "encode_sub_header sub =
     wseq (ensure_size_in (sub_header_wire_size sub))
       (wlet (u8_try_from (InvalidField ''SubHeaderLength'' ''sub-header exceeds 255 bytes'' None) (sub_header_wire_size sub))
         (\<lambda>len. wseq (write_u8 len) (wseq (write_u8 (sub_header_type_to_u8 (sub_header_type sub))) (write_slice (sub_header_data sub)))))"

definition decode_sub_header :: "tunnel_sub_header decoder" where
  "decode_sub_header =
     dbind (ensure_size SUB_HEADER_MIN_WIRE_SIZE) (\<lambda>_.
     dbind read_u8 (\<lambda>sub_header_length.
       if sub_header_length < 2
       then dfail_at (InvalidField ''SubHeaderLength'' ''sub-header length must be at least 2'')
       else dbind read_u8 (\<lambda>kind.
         let data_len = unat sub_header_length - SUB_HEADER_MIN_WIRE_SIZE
         in dbind (ensure_size data_len) (\<lambda>_. dbind (read_slice data_len) (\<lambda>data.
              dreturn \<lparr>sub_header_type = sub_header_type_from_u8 kind, sub_header_data = data\<rparr>)))))"

section \<open>The header\<close>

datatype tunnel_action = ActionCreateRequest | ActionCreateResponse | ActionData

definition action_from_u8 :: "u8 \<Rightarrow> tunnel_action option" where
  "action_from_u8 v =
     (if v = 0 then Some ActionCreateRequest else if v = 1 then Some ActionCreateResponse
      else if v = 2 then Some ActionData else None)"

fun action_to_u8 :: "tunnel_action \<Rightarrow> u8" where
  "action_to_u8 ActionCreateRequest = 0"
| "action_to_u8 ActionCreateResponse = 1"
| "action_to_u8 ActionData = 2"

record tunnel_header =
  th_action :: tunnel_action
  th_payload_length :: u16
  th_header_length :: u8
  th_sub_headers :: "tunnel_sub_header list"

definition TUNNEL_HEADER_MIN_SIZE :: usize where "TUNNEL_HEADER_MIN_SIZE = 4"

definition tunnel_header_size :: "tunnel_header \<Rightarrow> usize" where
  "tunnel_header_size h = TUNNEL_HEADER_MIN_SIZE + sum_list (map sub_header_wire_size (th_sub_headers h))"

definition derived_header_length :: "tunnel_header \<Rightarrow> codec_error + u8" where
  "derived_header_length h =
     u8_try_from (InvalidField ''HeaderLength'' ''sub-headers exceed one byte of length'' None)
       (TUNNEL_HEADER_MIN_SIZE + sum_list (map sub_header_wire_size (th_sub_headers h)))"

definition encode_tunnel_header :: "tunnel_header \<Rightarrow> writer" where
  "encode_tunnel_header h =
     wseq (ensure_size_in (tunnel_header_size h))
       (wlet (derived_header_length h) (\<lambda>header_length.
          wseq (write_u8 (action_to_u8 (th_action h)))
         (wseq (write_u16 (th_payload_length h))
         (wseq (write_u8 header_length)
               (write_many encode_sub_header (th_sub_headers h))))))"

lemma decode_sub_header_shorter:
  assumes "decode_sub_header src = Inr (sub, src')"
  shows "rc_len src' < rc_len src"
proof -
  have "rc_ok src" using assms by (auto simp: decode_sub_header_def codec_simps SUB_HEADER_MIN_WIRE_SIZE_def intro!: rc_rest_ok split: if_splits)
  with assms show ?thesis
    by (auto simp: decode_sub_header_def codec_simps SUB_HEADER_MIN_WIRE_SIZE_def dfail_at_def Let_def read_slice_rest rc_len_eq
        split: list.splits if_splits)
qed

function read_sub_headers :: "read_cursor \<Rightarrow> codec_error + tunnel_sub_header list" where
  "read_sub_headers src =
     (if rc_len src = 0 then Inr []
      else case decode_sub_header src of
        Inl e \<Rightarrow> Inl e
      | Inr (sub, src') \<Rightarrow> and_then (read_sub_headers src') (\<lambda>subs. Inr (sub # subs)))"
  by pat_completeness auto

termination
  by (relation "measure rc_len") (auto dest: decode_sub_header_shorter)

declare read_sub_headers.simps [simp del]

definition decode_tunnel_header :: "tunnel_header decoder" where
  "decode_tunnel_header =
     dbind (ensure_size TUNNEL_HEADER_MIN_SIZE) (\<lambda>_.
     dbind read_u8 (\<lambda>byte0.
       let action_raw = byte0 AND 0x0F; flags = drop_bit 4 byte0
       in if flags \<noteq> 0 then dfail_at (InvalidField ''Flags'' ''flags must be zero'')
       else case action_from_u8 action_raw of
         None \<Rightarrow> dfail_at (UnexpectedMessageType action_raw)
       | Some action \<Rightarrow>
         dbind read_u16 (\<lambda>payload_length.
         dbind read_u8 (\<lambda>header_length.
           if header_length < 4 then dfail_at (InvalidField ''HeaderLength'' ''header length must be at least 4'')
           else
             let sub_header_bytes = unat header_length - TUNNEL_HEADER_MIN_SIZE
             in dbind (if sub_header_bytes > 0
                  then dbind (ensure_size sub_header_bytes) (\<lambda>_.
                       dbind (read_slice sub_header_bytes) (\<lambda>sub_data.
                         dlift (read_sub_headers (rc_new sub_data))))
                  else dreturn []) (\<lambda>sub_headers.
                dreturn \<lparr>th_action = action, th_payload_length = payload_length,
                  th_header_length = header_length, th_sub_headers = sub_headers\<rparr>)))))"

section \<open>The PDUs\<close>

record tunnel_create_request =
  tcr_request_id :: u32
  tcr_security_cookie :: bytes

record tunnel_create_response =
  tcs_hr_response :: u32

record tunnel_data =
  td_sub_headers :: "tunnel_sub_header list"
  td_higher_layer_data :: bytes

definition SECURITY_COOKIE_LEN :: usize where "SECURITY_COOKIE_LEN = 16"
definition CREATE_REQUEST_PAYLOAD_SIZE :: usize where "CREATE_REQUEST_PAYLOAD_SIZE = 4 + 4 + SECURITY_COOKIE_LEN"
definition CREATE_RESPONSE_PAYLOAD_SIZE :: usize where "CREATE_RESPONSE_PAYLOAD_SIZE = 4"
definition S_OK :: u32 where "S_OK = 0"
definition SEVERITY_BIT :: u32 where "SEVERITY_BIT = 0x80000000"

definition is_success :: "tunnel_create_response \<Rightarrow> bool" where
  "is_success r \<longleftrightarrow> tcs_hr_response r AND SEVERITY_BIT = 0"

definition create_request_size :: "tunnel_create_request \<Rightarrow> usize" where
  "create_request_size r = TUNNEL_HEADER_MIN_SIZE + CREATE_REQUEST_PAYLOAD_SIZE"

definition encode_create_request :: "tunnel_create_request \<Rightarrow> writer" where
  "encode_create_request r =
     wseq (ensure_size_in (create_request_size r))
    (wseq (encode_tunnel_header \<lparr>th_action = ActionCreateRequest, th_payload_length = of_nat CREATE_REQUEST_PAYLOAD_SIZE,
            th_header_length = 4, th_sub_headers = []\<rparr>)
    (wseq (write_u32 (tcr_request_id r))
    (wseq (write_u32 0)
          (write_slice (tcr_security_cookie r)))))"

definition decode_create_request :: "tunnel_create_request decoder" where
  "decode_create_request =
     dbind decode_tunnel_header (\<lambda>h.
       if th_action h \<noteq> ActionCreateRequest then dfail_at (UnexpectedMessageType (action_to_u8 (th_action h)))
       else if th_header_length h \<noteq> 4 then dfail_at (InvalidField ''HeaderLength'' ''must be 4 for CreateRequest'')
       else if unat (th_payload_length h) \<noteq> CREATE_REQUEST_PAYLOAD_SIZE
       then dfail_at (InvalidField ''PayloadLength'' ''must be 24 for CreateRequest'')
       else dbind (ensure_size CREATE_REQUEST_PAYLOAD_SIZE) (\<lambda>_.
            dbind read_u32 (\<lambda>request_id.
            dbind read_u32 (\<lambda>reserved.
            dbind (read_slice SECURITY_COOKIE_LEN) (\<lambda>cookie.
              dreturn \<lparr>tcr_request_id = request_id, tcr_security_cookie = cookie\<rparr>)))))"

definition create_response_size :: "tunnel_create_response \<Rightarrow> usize" where
  "create_response_size r = TUNNEL_HEADER_MIN_SIZE + CREATE_RESPONSE_PAYLOAD_SIZE"

definition encode_create_response :: "tunnel_create_response \<Rightarrow> writer" where
  "encode_create_response r =
     wseq (ensure_size_in (create_response_size r))
    (wseq (encode_tunnel_header \<lparr>th_action = ActionCreateResponse, th_payload_length = of_nat CREATE_RESPONSE_PAYLOAD_SIZE,
            th_header_length = 4, th_sub_headers = []\<rparr>)
          (write_u32 (tcs_hr_response r)))"

definition decode_create_response :: "tunnel_create_response decoder" where
  "decode_create_response =
     dbind decode_tunnel_header (\<lambda>h.
       if th_action h \<noteq> ActionCreateResponse then dfail_at (UnexpectedMessageType (action_to_u8 (th_action h)))
       else if th_header_length h \<noteq> 4 then dfail_at (InvalidField ''HeaderLength'' ''must be 4 for CreateResponse'')
       else if unat (th_payload_length h) \<noteq> CREATE_RESPONSE_PAYLOAD_SIZE
       then dfail_at (InvalidField ''PayloadLength'' ''must be 4 for CreateResponse'')
       else dbind (ensure_size CREATE_RESPONSE_PAYLOAD_SIZE) (\<lambda>_.
            dbind read_u32 (\<lambda>hr_response. dreturn \<lparr>tcs_hr_response = hr_response\<rparr>)))"

definition header_length_untruncated :: "tunnel_data \<Rightarrow> usize" where
  "header_length_untruncated d = TUNNEL_HEADER_MIN_SIZE + sum_list (map sub_header_wire_size (td_sub_headers d))"

definition tunnel_data_size :: "tunnel_data \<Rightarrow> usize" where
  "tunnel_data_size d = header_length_untruncated d + length (td_higher_layer_data d)"

definition encode_tunnel_data :: "tunnel_data \<Rightarrow> writer" where
  "encode_tunnel_data d =
     wseq (ensure_size_in (tunnel_data_size d))
       (wlet (u8_try_from (InvalidField ''HeaderLength'' ''sub-headers exceed one byte of length'' None) (header_length_untruncated d))
         (\<lambda>header_length.
        wlet (u16_try_from (InvalidField ''PayloadLength'' ''payload exceeds 65535 bytes'' None) (length (td_higher_layer_data d)))
         (\<lambda>payload_length.
           wseq (encode_tunnel_header \<lparr>th_action = ActionData, th_payload_length = payload_length,
                   th_header_length = header_length, th_sub_headers = td_sub_headers d\<rparr>)
                (write_slice (td_higher_layer_data d)))))"

definition decode_tunnel_data :: "tunnel_data decoder" where
  "decode_tunnel_data =
     dbind decode_tunnel_header (\<lambda>h.
       if th_action h \<noteq> ActionData then dfail_at (UnexpectedMessageType (action_to_u8 (th_action h)))
       else let payload_len = unat (th_payload_length h)
            in dbind (ensure_size payload_len) (\<lambda>_.
               dbind (read_slice payload_len) (\<lambda>data.
                 dreturn \<lparr>td_sub_headers = th_sub_headers h, td_higher_layer_data = data\<rparr>)))"

datatype tunnel_pdu =
    CreateRequest tunnel_create_request
  | CreateResponse tunnel_create_response
  | TunnelData tunnel_data

text \<open>\<open>src.remaining()[0]\<close>, which panics on an empty rest.\<close>

definition peek_u8 :: "u8 decoder" where
  "peek_u8 src = (case rc_rest src of b # _ \<Rightarrow> Inr (b, src) | [] \<Rightarrow> Inl Panic)"

definition dmap :: "('a \<Rightarrow> 'b) \<Rightarrow> 'a decoder \<Rightarrow> 'b decoder" where
  "dmap f d = dbind d (\<lambda>x. dreturn (f x))"

definition decode_tunnel_pdu :: "tunnel_pdu decoder" where
  "decode_tunnel_pdu =
     dbind (ensure_size 1) (\<lambda>_.
     dbind peek_u8 (\<lambda>byte0.
       let action_raw = byte0 AND 0x0F
       in case action_from_u8 action_raw of
         None \<Rightarrow> dfail_at (UnexpectedMessageType action_raw)
       | Some ActionCreateRequest \<Rightarrow> dmap CreateRequest decode_create_request
       | Some ActionCreateResponse \<Rightarrow> dmap CreateResponse decode_create_response
       | Some ActionData \<Rightarrow> dmap TunnelData decode_tunnel_data))"

section \<open>Layouts\<close>

lemma tunnel_codec_simps [codec_simps]:
  "wlet r f dst = and_then r (\<lambda>x. f x dst)" "dlift r src = and_then r (\<lambda>x. Inr (x, src))"
  "dfail_at e src = Inl (e (Some (rc_pos src)))" "dmap g d src = and_then (d src) (\<lambda>(x, src'). Inr (g x, src'))"
  by (simp_all add: wlet_def dlift_def dfail_at_def dmap_def codec_simps)

lemma action_round_trip [simp]:
  "action_to_u8 a AND 0x0F = action_to_u8 a" "drop_bit 4 (action_to_u8 a) = 0" "action_from_u8 (action_to_u8 a) = Some a"
  by (cases a; simp add: action_from_u8_def)+

text \<open>A sub-header that fits its length byte and does not use the unknown form for a known type.\<close>

definition sub_header_valid :: "tunnel_sub_header \<Rightarrow> bool" where
  "sub_header_valid sub \<longleftrightarrow> sub_header_wire_size sub \<le> 255 \<and> sub_header_type sub \<notin> {UnknownSubHeader 0, UnknownSubHeader 1}"

definition sub_header_layout :: "tunnel_sub_header \<Rightarrow> bytes" where
  "sub_header_layout sub = of_nat (sub_header_wire_size sub) # sub_header_type_to_u8 (sub_header_type sub) # sub_header_data sub"

lemma sub_header_type_round_trip:
  "k \<notin> {UnknownSubHeader 0, UnknownSubHeader 1} \<Longrightarrow> sub_header_type_from_u8 (sub_header_type_to_u8 k) = k"
  by (cases k) (auto simp: sub_header_type_from_u8_def)

lemma unat_of_nat_u8: "n \<le> 255 \<Longrightarrow> unat (of_nat n :: u8) = n"
  by (simp add: unat_of_nat take_bit_nat_eq_self)

lemma unat_of_nat_u16: "n \<le> 65535 \<Longrightarrow> unat (of_nat n :: u16) = n"
  by (simp add: unat_of_nat take_bit_nat_eq_self)

lemma decode_sub_header_layout:
  assumes "sub_header_valid x" "rc_ok src" "rc_rest src = sub_header_layout x @ r"
  shows "decode_sub_header src = Inr (x, rc_advance (length (sub_header_layout x)) src)"
proof -
  have len: "unat (of_nat (sub_header_wire_size x) :: u8) = sub_header_wire_size x"
    using assms(1) by (simp add: sub_header_valid_def unat_of_nat_u8)
  then have "\<not> (of_nat (sub_header_wire_size x) :: u8) < 2"
    by (simp add: word_less_nat_alt sub_header_wire_size_def SUB_HEADER_MIN_WIRE_SIZE_def)
  with len assms show ?thesis
    by (simp add: decode_sub_header_def codec_simps sub_header_layout_def SUB_HEADER_MIN_WIRE_SIZE_def Let_def
        read_slice_rest sub_header_type_round_trip sub_header_valid_def sub_header_wire_size_def)
qed

interpretation sub_header: wire_codec encode_sub_header decode_sub_header sub_header_wire_size
    sub_header_layout sub_header_valid
  by unfold_locales
    (auto simp: encode_sub_header_def sub_header_layout_def sub_header_valid_def sub_header_wire_size_def
      SUB_HEADER_MIN_WIRE_SIZE_def u8_try_from_def codec_simps
      intro: decode_sub_header_layout [unfolded sub_header_layout_def sub_header_valid_def sub_header_wire_size_def SUB_HEADER_MIN_WIRE_SIZE_def, where r = "[]", simplified]
        decode_sub_header_layout [unfolded sub_header_layout_def sub_header_valid_def sub_header_wire_size_def SUB_HEADER_MIN_WIRE_SIZE_def, simplified])

text \<open>A repeated part, written by the loop over its elements.\<close>

context wire_codec
begin

lemma write_many_layout:
  "list_all valid xs \<Longrightarrow> wc_room dst (length (concat (map layout xs))) \<Longrightarrow>
   write_many enc xs dst = Inr (wc_put (concat (map layout xs)) dst)"
proof (induction xs arbitrary: dst)
  case (Cons x xs)
  then have "enc x dst = Inr (wc_put (layout x) dst)" by (simp add: enc_layout)
  with Cons show ?case by (simp add: codec_simps)
qed (simp add: codec_simps)

end

lemma read_sub_headers_layout:
  "list_all sub_header_valid subs \<Longrightarrow> rc_ok src \<Longrightarrow> rc_rest src = concat (map sub_header_layout subs) \<Longrightarrow>
   read_sub_headers src = Inr subs"
proof (induction subs arbitrary: src)
  case Nil
  then show ?case by (subst read_sub_headers.simps) (simp add: rc_len_eq)
next
  case (Cons sub subs)
  let ?src = "rc_advance (length (sub_header_layout sub)) src"
  have d: "decode_sub_header src = Inr (sub, ?src)"
    by (rule decode_sub_header_layout [where r = "concat (map sub_header_layout subs)"]) (use Cons.prems in simp_all)
  have "read_sub_headers ?src = Inr subs"
    by (rule Cons.IH) (use Cons.prems in simp_all)
  with d Cons.prems show ?case
    by (subst read_sub_headers.simps) (simp add: rc_len_eq sub_header_layout_def)
qed

definition tunnel_header_valid :: "tunnel_header \<Rightarrow> bool" where
  "tunnel_header_valid h \<longleftrightarrow> tunnel_header_size h \<le> 255 \<and> th_header_length h = of_nat (tunnel_header_size h) \<and>
     list_all sub_header_valid (th_sub_headers h)"

definition tunnel_header_layout :: "tunnel_header \<Rightarrow> bytes" where
  "tunnel_header_layout h = action_to_u8 (th_action h) # u16_to_le_bytes (th_payload_length h) @
     th_header_length h # concat (map sub_header_layout (th_sub_headers h))"

lemma sub_headers_length:
  "length (concat (map sub_header_layout subs)) = sum_list (map sub_header_wire_size subs)"
  by (induction subs) (simp_all add: sub_header_layout_def sub_header_wire_size_def SUB_HEADER_MIN_WIRE_SIZE_def)

lemma tunnel_header_length: "tunnel_header_size h = length (tunnel_header_layout h)"
  by (simp add: tunnel_header_size_def tunnel_header_layout_def sub_headers_length TUNNEL_HEADER_MIN_SIZE_def)

lemma encode_tunnel_header_layout:
  assumes "tunnel_header_valid h" "wc_room dst (length (tunnel_header_layout h))"
  shows "encode_tunnel_header h dst = Inr (wc_put (tunnel_header_layout h) dst)"
proof -
  have "derived_header_length h = Inr (th_header_length h)"
    using assms(1) by (simp add: derived_header_length_def u8_try_from_def tunnel_header_valid_def tunnel_header_size_def)
  with assms show ?thesis
    by (simp add: encode_tunnel_header_def codec_simps tunnel_header_length sub_header.write_many_layout tunnel_header_valid_def)
      (simp add: tunnel_header_layout_def codec_simps sub_header.write_many_layout)
qed

lemma decode_tunnel_header_layout:
  assumes "tunnel_header_valid h" "rc_ok src" "rc_rest src = tunnel_header_layout h @ r"
  shows "decode_tunnel_header src = Inr (h, rc_advance (length (tunnel_header_layout h)) src)"
proof -
  let ?subs = "concat (map sub_header_layout (th_sub_headers h))"
  have "unat (of_nat (tunnel_header_size h) :: u8) = tunnel_header_size h"
    using assms(1) by (simp add: tunnel_header_valid_def unat_of_nat_u8)
  then have len: "unat (th_header_length h) = 4 + length ?subs"
    using assms(1) by (simp add: tunnel_header_valid_def tunnel_header_size_def sub_headers_length TUNNEL_HEADER_MIN_SIZE_def)
  then have "\<not> th_header_length h < 4" by (simp add: word_less_nat_alt)
  moreover have "read_sub_headers (rc_new ?subs) = Inr (th_sub_headers h)"
    by (rule read_sub_headers_layout) (use assms(1) in \<open>simp_all add: tunnel_header_valid_def\<close>)
  moreover have "th_sub_headers h = []" if "?subs = []"
    using that by (cases "th_sub_headers h") (simp_all add: sub_header_layout_def)
  ultimately show ?thesis
    using assms(2,3) len
    by (auto simp: decode_tunnel_header_def codec_simps tunnel_header_layout_def TUNNEL_HEADER_MIN_SIZE_def Let_def
        u16_to_le_bytes_def read_slice_rest)
qed

interpretation tunnel_header: wire_codec encode_tunnel_header decode_tunnel_header tunnel_header_size
    tunnel_header_layout tunnel_header_valid
  by unfold_locales
    (auto simp: encode_tunnel_header_layout tunnel_header_length decode_tunnel_header_layout
      intro: decode_tunnel_header_layout [where r = "[]", simplified])

section \<open>Whole PDUs\<close>

lemmas tunnel_sizes = TUNNEL_HEADER_MIN_SIZE_def CREATE_REQUEST_PAYLOAD_SIZE_def CREATE_RESPONSE_PAYLOAD_SIZE_def SECURITY_COOKIE_LEN_def

definition request_header :: tunnel_header where
  "request_header = \<lparr>th_action = ActionCreateRequest, th_payload_length = of_nat CREATE_REQUEST_PAYLOAD_SIZE,
     th_header_length = 4, th_sub_headers = []\<rparr>"

definition response_header :: tunnel_header where
  "response_header = \<lparr>th_action = ActionCreateResponse, th_payload_length = of_nat CREATE_RESPONSE_PAYLOAD_SIZE,
     th_header_length = 4, th_sub_headers = []\<rparr>"

definition data_pdu_header :: "tunnel_data \<Rightarrow> tunnel_header" where
  "data_pdu_header d = \<lparr>th_action = ActionData, th_payload_length = of_nat (length (td_higher_layer_data d)),
     th_header_length = of_nat (header_length_untruncated d), th_sub_headers = td_sub_headers d\<rparr>"

lemma tunnel_headers_valid:
  "tunnel_header_valid request_header" "tunnel_header_valid response_header"
  by (simp_all add: tunnel_header_valid_def request_header_def response_header_def tunnel_header_size_def tunnel_sizes)

lemma tunnel_headers_fields [simp]:
  "th_action request_header = ActionCreateRequest" "th_header_length request_header = 4" "th_payload_length request_header = 24"
  "th_action response_header = ActionCreateResponse" "th_header_length response_header = 4" "th_payload_length response_header = 4"
  "th_action (data_pdu_header d) = ActionData" "th_sub_headers (data_pdu_header d) = td_sub_headers d"
  by (simp_all add: request_header_def response_header_def data_pdu_header_def tunnel_sizes)

lemma tunnel_headers_length [simp]:
  "length (tunnel_header_layout request_header) = 4" "length (tunnel_header_layout response_header) = 4"
  "length (tunnel_header_layout (data_pdu_header d)) = header_length_untruncated d"
  by (simp_all add: tunnel_header_length [symmetric] tunnel_header_size_def request_header_def response_header_def data_pdu_header_def
      header_length_untruncated_def tunnel_sizes)

fun tunnel_pdu_layout :: "tunnel_pdu \<Rightarrow> bytes" where
  "tunnel_pdu_layout (CreateRequest r) =
     tunnel_header_layout request_header @ u32_to_le_bytes (tcr_request_id r) @ u32_to_le_bytes 0 @ tcr_security_cookie r"
| "tunnel_pdu_layout (CreateResponse r) = tunnel_header_layout response_header @ u32_to_le_bytes (tcs_hr_response r)"
| "tunnel_pdu_layout (TunnelData d) = tunnel_header_layout (data_pdu_header d) @ td_higher_layer_data d"

text \<open>The types of the source: a cookie is an array of 16 bytes, and the unknown sub-header
  types are those without a name.\<close>

fun tunnel_pdu_typed :: "tunnel_pdu \<Rightarrow> bool" where
  "tunnel_pdu_typed (CreateRequest r) \<longleftrightarrow> length (tcr_security_cookie r) = 16"
| "tunnel_pdu_typed (CreateResponse r) \<longleftrightarrow> True"
| "tunnel_pdu_typed (TunnelData d) \<longleftrightarrow>
     list_all (\<lambda>sub. sub_header_type sub \<notin> {UnknownSubHeader 0, UnknownSubHeader 1}) (td_sub_headers d)"

text \<open>What the length fields of the wire format can express.\<close>

fun tunnel_pdu_fits :: "tunnel_pdu \<Rightarrow> bool" where
  "tunnel_pdu_fits (TunnelData d) \<longleftrightarrow> header_length_untruncated d \<le> 255 \<and> length (td_higher_layer_data d) \<le> 65535"
| "tunnel_pdu_fits _ \<longleftrightarrow> True"

text \<open>Each variant is encoded by its own \<open>Encode\<close> instance.\<close>

fun tunnel_pdu_bytes :: "tunnel_pdu \<Rightarrow> codec_error + bytes" where
  "tunnel_pdu_bytes (CreateRequest r) = encode_vec create_request_size encode_create_request r"
| "tunnel_pdu_bytes (CreateResponse r) = encode_vec create_response_size encode_create_response r"
| "tunnel_pdu_bytes (TunnelData d) = encode_vec tunnel_data_size encode_tunnel_data d"

lemma sub_header_fits:
  "sub \<in> set subs \<Longrightarrow> sub_header_wire_size sub \<le> sum_list (map sub_header_wire_size subs)"
  by (induction subs) auto

lemma data_pdu_header_valid:
  assumes "tunnel_pdu_typed (TunnelData d)" "tunnel_pdu_fits (TunnelData d)"
  shows "tunnel_header_valid (data_pdu_header d)"
proof -
  have "sub_header_wire_size sub \<le> 255" if "sub \<in> set (td_sub_headers d)" for sub
    using sub_header_fits [OF that] assms(2) by (simp add: header_length_untruncated_def)
  with assms show ?thesis
    by (auto simp: tunnel_header_valid_def data_pdu_header_def tunnel_header_size_def header_length_untruncated_def list_all_iff sub_header_valid_def)
qed

lemma wc_new_put: "length bs = n \<Longrightarrow> wc_inner (wc_put bs (wc_new (replicate n 0))) = bs"
  by (simp add: wc_new_def wc_put_def)

lemma wc_new_room [simp]: "wc_pos (wc_new bs) = 0" "wc_inner (wc_new bs) = bs"
  by (simp_all add: wc_new_def)

lemma create_request_bytes:
  assumes "length (tcr_security_cookie r) = 16"
  shows "encode_vec create_request_size encode_create_request r = Inr (tunnel_pdu_layout (CreateRequest r))"
  using assms tunnel_header.enc_layout [OF tunnel_headers_valid(1)]
  unfolding encode_vec_def encode_create_request_def request_header_def [symmetric]
  by (simp add: create_request_size_def tunnel_sizes codec_simps wc_new_put)

lemma create_response_bytes:
  "encode_vec create_response_size encode_create_response r = Inr (tunnel_pdu_layout (CreateResponse r))"
  using tunnel_header.enc_layout [OF tunnel_headers_valid(2)]
  unfolding encode_vec_def encode_create_response_def response_header_def [symmetric]
  by (simp add: create_response_size_def tunnel_sizes codec_simps wc_new_put)

lemma tunnel_data_bytes:
  assumes "tunnel_pdu_typed (TunnelData d)"
  shows "encode_vec tunnel_data_size encode_tunnel_data d =
    (if tunnel_pdu_fits (TunnelData d) then Inr (tunnel_pdu_layout (TunnelData d))
     else if header_length_untruncated d \<le> 255 then Inl (InvalidField ''PayloadLength'' ''payload exceeds 65535 bytes'' None)
     else Inl (InvalidField ''HeaderLength'' ''sub-headers exceed one byte of length'' None))"
proof (cases "tunnel_pdu_fits (TunnelData d)")
  case True
  with tunnel_header.enc_layout [OF data_pdu_header_valid [OF assms True]] show ?thesis
    by (simp add: encode_vec_def encode_tunnel_data_def u8_try_from_def u16_try_from_def tunnel_data_size_def codec_simps
        data_pdu_header_def [symmetric] wc_new_put)
qed (auto simp: encode_vec_def encode_tunnel_data_def u8_try_from_def u16_try_from_def codec_simps)

lemma peek_append: "rc_rest src = bs @ r \<Longrightarrow> bs \<noteq> [] \<Longrightarrow> peek_u8 src = Inr (hd bs, src)"
  by (cases bs) (simp_all add: peek_u8_def)

lemma decode_tunnel_pdu_peek:
  assumes "rc_rest src = tunnel_header_layout h @ r"
  shows "decode_tunnel_pdu src =
    (case th_action h of
       ActionCreateRequest \<Rightarrow> dmap CreateRequest decode_create_request src
     | ActionCreateResponse \<Rightarrow> dmap CreateResponse decode_create_response src
     | ActionData \<Rightarrow> dmap TunnelData decode_tunnel_data src)"
  using assms by (cases "th_action h") (simp_all add: decode_tunnel_pdu_def codec_simps peek_u8_def tunnel_header_layout_def
      action_from_u8_def Let_def)

lemma decode_tunnel_pdu_layout:
  assumes "tunnel_pdu_typed p" "tunnel_pdu_fits p" "rc_ok src" "rc_rest src = tunnel_pdu_layout p @ r"
  shows "decode_tunnel_pdu src = Inr (p, rc_advance (length (tunnel_pdu_layout p)) src)"
proof (cases p)
  case (CreateRequest q)
  have h: "decode_tunnel_header src = Inr (request_header, rc_advance 4 src)"
    using tunnel_header.dec_layout [OF tunnel_headers_valid(1) assms(3)] assms(4) CreateRequest by simp
  have rest: "rc_ok (rc_advance 4 src)" "drop 4 (rc_rest src) =
      u32_to_le_bytes (tcr_request_id q) @ u32_to_le_bytes 0 @ tcr_security_cookie q @ r"
    using assms(3,4) CreateRequest by simp_all
  show ?thesis
    unfolding CreateRequest using assms(1,3,4) CreateRequest h rest
    by (simp add: decode_tunnel_pdu_peek [of src request_header] codec_simps decode_create_request_def tunnel_sizes
        u32_to_le_bytes_def read_slice_rest)
next
  case (CreateResponse q)
  have h: "decode_tunnel_header src = Inr (response_header, rc_advance 4 src)"
    using tunnel_header.dec_layout [OF tunnel_headers_valid(2) assms(3)] assms(4) CreateResponse by simp
  show ?thesis
    unfolding CreateResponse using assms(3,4) CreateResponse h
    by (simp add: decode_tunnel_pdu_peek [of src response_header] codec_simps decode_create_response_def tunnel_sizes
        u32_to_le_bytes_def)
next
  case (TunnelData d)
  have h: "decode_tunnel_header src = Inr (data_pdu_header d, rc_advance (header_length_untruncated d) src)"
    using tunnel_header.dec_layout [OF data_pdu_header_valid assms(3)] assms(1,2,4) TunnelData by simp
  have "unat (th_payload_length (data_pdu_header d)) = length (td_higher_layer_data d)"
    using assms(2) TunnelData by (simp add: data_pdu_header_def unat_of_nat_u16)
  with assms(3,4) TunnelData h show ?thesis
    unfolding TunnelData
    by (simp add: decode_tunnel_pdu_peek [of src "data_pdu_header d"] codec_simps decode_tunnel_data_def Let_def read_slice_rest)
qed

text \<open>
  A tunnel PDU is encoded exactly when its length fields can express it, and is then
  read back unchanged, whatever follows it in the buffer; one that does not fit is
  refused with an error rather than written with a truncated length.
\<close>

lemma tunnel_pdu_round_trip:
  assumes "tunnel_pdu_typed p"
  shows "case tunnel_pdu_bytes p of
      Inr bs \<Rightarrow> tunnel_pdu_fits p \<and> (\<forall>rest. decode decode_tunnel_pdu (bs @ rest) = Inr p)
    | Inl e \<Rightarrow> \<not> tunnel_pdu_fits p \<and> e \<noteq> Panic"
proof -
  have "decode decode_tunnel_pdu (tunnel_pdu_layout p @ rest) = Inr p" if "tunnel_pdu_fits p" for rest
    using decode_tunnel_pdu_layout [OF assms that, of "rc_new (tunnel_pdu_layout p @ rest)" rest] by (simp add: decode_def)
  with assms show ?thesis
    by (cases p) (auto simp: create_request_bytes create_response_bytes tunnel_data_bytes)
qed

section \<open>Whatever arrives\<close>

lemma dec_safe_fail_at [safe_intros]: "(\<And>p. e p \<noteq> Panic) \<Longrightarrow> dec_safe n (dfail_at e)"
  by (simp add: dec_safe_def dfail_at_def)

lemma dec_safe_lift [safe_intros]: "r \<noteq> Inl Panic \<Longrightarrow> dec_safe n (dlift r)"
  by (cases r) (simp_all add: dec_safe_def dlift_def)

lemma dec_safe_option [safe_intros]:
  "dec_safe n d \<Longrightarrow> (\<And>x. dec_safe n (f x)) \<Longrightarrow> dec_safe n (case r of None \<Rightarrow> d | Some x \<Rightarrow> f x)"
  by (cases r) simp_all

lemma dec_safe_peek [safe_intros]: "1 \<le> n \<Longrightarrow> (\<And>b. dec_safe n (f b)) \<Longrightarrow> dec_safe n (dbind peek_u8 f)"
  by (auto simp: dec_safe_def codec_simps peek_u8_def split: list.splits)

lemma dec_safe_map: "dec_safe 0 d \<Longrightarrow> dec_safe n (dmap g d)"
  unfolding dmap_def by (intro dec_safe_bind safe_intros) (rule dec_safe_weaken, assumption, simp)

lemma decode_sub_header_safe: "dec_safe 0 decode_sub_header"
  unfolding decode_sub_header_def Let_def SUB_HEADER_MIN_WIRE_SIZE_def by ((rule safe_intros | simp)+)

lemma read_sub_headers_safe: "rc_ok src \<Longrightarrow> read_sub_headers src \<noteq> Inl Panic"
proof (induction src rule: read_sub_headers.induct)
  case (1 src)
  show ?case
  proof (cases "decode_sub_header src")
    case (Inl e)
    with decode_sub_header_safe "1.prems" show ?thesis
      by (subst read_sub_headers.simps) (auto simp: dec_safe_def dest!: spec [of _ src])
  next
    case (Inr p)
    obtain sub src' where p: "p = (sub, src')" by fastforce
    have "rc_ok src'" using decode_sub_header_safe "1.prems" Inr p by (auto simp: dec_safe_def dest!: spec [of _ src])
    then have "read_sub_headers src' \<noteq> Inl Panic" if "rc_len src \<noteq> 0" using "1.IH" that Inr p by blast
    with Inr p show ?thesis by (subst read_sub_headers.simps) (auto simp: and_then_def split: sum.splits)
  qed
qed

lemma decode_tunnel_header_safe: "dec_safe 0 decode_tunnel_header"
  unfolding decode_tunnel_header_def Let_def TUNNEL_HEADER_MIN_SIZE_def
  by ((rule safe_intros | rule dec_safe_bind | simp add: read_sub_headers_safe)+)

lemma tunnel_decoders_safe:
  "dec_safe 0 decode_create_request" "dec_safe 0 decode_create_response" "dec_safe 0 decode_tunnel_data"
  unfolding decode_create_request_def decode_create_response_def decode_tunnel_data_def Let_def tunnel_sizes
  by (rule dec_safe_bind [OF decode_tunnel_header_safe], (rule safe_intros | simp)+)+

lemma decode_tunnel_pdu_safe: "dec_safe 0 decode_tunnel_pdu"
proof -
  have "dec_safe n (case a of
        ActionCreateRequest \<Rightarrow> dmap CreateRequest decode_create_request
      | ActionCreateResponse \<Rightarrow> dmap CreateResponse decode_create_response
      | ActionData \<Rightarrow> dmap TunnelData decode_tunnel_data)" for n a
    by (cases a) (simp_all add: dec_safe_map tunnel_decoders_safe)
  then show ?thesis
    unfolding decode_tunnel_pdu_def Let_def
    by (intro dec_safe_ensure dec_safe_peek dec_safe_option dec_safe_fail_at) simp_all
qed

text \<open>No tunnel PDU a peer sends makes the decoder read out of range.\<close>

lemma tunnel_decode_never_panics: "decode decode_tunnel_pdu wire \<noteq> Inl Panic"
  by (rule dec_safe_decode [OF decode_tunnel_pdu_safe])

end
