(* ===== verification/Tunnel.thy ===== *)
theory Tunnel
  imports Tunnel_Pdu
begin

text \<open>
  The multitransport tunnel (\<open>crates/ironrdp-rdpemt/src/tunnel.rs\<close>): the state machine that
  binds a UDP connection to the main session by request id and cookie, and then
  carries data both ways. An \<open>expect\<close> that fails is \<open>None\<close>.
\<close>

section \<open>State\<close>

datatype tunnel_side = TunnelClient | TunnelServer

datatype tunnel_event =
    TunnelEstablished
  | TunnelReceived "tunnel_sub_header list" bytes
  | TunnelFailed u32

record tunnel_config =
  tc_request_id :: u32
  tc_security_cookie :: bytes

datatype tunnel_state = TunnelCreated | TunnelAwaitingResponse | TunnelIsEstablished | TunnelHasFailed

record tunnel =
  tn_side :: tunnel_side
  tn_state :: tunnel_state
  tn_config :: tunnel_config
  tn_outgoing :: "bytes list"
  tn_events :: "tunnel_event list"

datatype rdpemt_error = EmtDecode codec_error | EmtEncode codec_error | EmtInvalidState

section \<open>Operations\<close>

text \<open>\<open>encode_vec(..).expect(..)\<close>\<close>

definition expect_bytes :: "codec_error + bytes \<Rightarrow> bytes option" where
  "expect_bytes r = (case r of Inr bs \<Rightarrow> Some bs | Inl _ \<Rightarrow> None)"

definition push_outgoing :: "bytes \<Rightarrow> tunnel \<Rightarrow> tunnel" where
  "push_outgoing bs t = t\<lparr>tn_outgoing := tn_outgoing t @ [bs]\<rparr>"

definition push_tunnel_event :: "tunnel_event \<Rightarrow> tunnel \<Rightarrow> tunnel" where
  "push_tunnel_event e t = t\<lparr>tn_events := tn_events t @ [e]\<rparr>"

definition enqueue_create_request :: "tunnel \<Rightarrow> tunnel option" where
  "enqueue_create_request t =
     map_option (\<lambda>bs. (push_outgoing bs t)\<lparr>tn_state := TunnelAwaitingResponse\<rparr>)
       (expect_bytes (encode_vec create_request_size encode_create_request
          \<lparr>tcr_request_id = tc_request_id (tn_config t), tcr_security_cookie = tc_security_cookie (tn_config t)\<rparr>))"

definition enqueue_create_response :: "u32 \<Rightarrow> tunnel \<Rightarrow> tunnel option" where
  "enqueue_create_response hr t =
     map_option (\<lambda>bs. push_outgoing bs t)
       (expect_bytes (encode_vec create_response_size encode_create_response \<lparr>tcs_hr_response = hr\<rparr>))"

definition tunnel_client :: "tunnel_config \<Rightarrow> tunnel option" where
  "tunnel_client config = enqueue_create_request
     \<lparr>tn_side = TunnelClient, tn_state = TunnelCreated, tn_config = config, tn_outgoing = [], tn_events = []\<rparr>"

definition tunnel_server :: "tunnel_config \<Rightarrow> tunnel" where
  "tunnel_server config =
     \<lparr>tn_side = TunnelServer, tn_state = TunnelCreated, tn_config = config, tn_outgoing = [], tn_events = []\<rparr>"

definition E_ACCESSDENIED :: u32 where "E_ACCESSDENIED = 0x80070005"

text \<open>The constant-time comparison of the cookies compares them.\<close>

definition tunnel_handle_pdu :: "bytes \<Rightarrow> tunnel \<Rightarrow> ((rdpemt_error + unit) \<times> tunnel) option" where
  "tunnel_handle_pdu wire t =
     (case decode decode_tunnel_pdu wire of
        Inl e \<Rightarrow> Some (Inl (EmtDecode e), t)
      | Inr pdu \<Rightarrow>
         (case (tn_state t, tn_side t, pdu) of
            (TunnelAwaitingResponse, TunnelClient, CreateResponse resp) \<Rightarrow>
              if is_success resp
              then Some (Inr (), push_tunnel_event TunnelEstablished (t\<lparr>tn_state := TunnelIsEstablished\<rparr>))
              else Some (Inr (), push_tunnel_event (TunnelFailed (tcs_hr_response resp)) (t\<lparr>tn_state := TunnelHasFailed\<rparr>))
          | (TunnelCreated, TunnelServer, CreateRequest req) \<Rightarrow>
              if tcr_request_id req = tc_request_id (tn_config t) \<and>
                 tcr_security_cookie req = tc_security_cookie (tn_config t)
              then map_option (\<lambda>t. (Inr (), push_tunnel_event TunnelEstablished t))
                     (enqueue_create_response S_OK (t\<lparr>tn_state := TunnelIsEstablished\<rparr>))
              else map_option (\<lambda>t. (Inr (), push_tunnel_event (TunnelFailed E_ACCESSDENIED) t))
                     (enqueue_create_response E_ACCESSDENIED (t\<lparr>tn_state := TunnelHasFailed\<rparr>))
          | (TunnelIsEstablished, _, TunnelData d) \<Rightarrow>
              Some (Inr (), push_tunnel_event (TunnelReceived (td_sub_headers d) (td_higher_layer_data d)) t)
          | _ \<Rightarrow> Some (Inl EmtInvalidState, t)))"

definition tunnel_poll_pdu :: "tunnel \<Rightarrow> bytes option \<times> tunnel" where
  "tunnel_poll_pdu t =
     (case tn_outgoing t of [] \<Rightarrow> (None, t) | bs # rest \<Rightarrow> (Some bs, t\<lparr>tn_outgoing := rest\<rparr>))"

definition tunnel_poll_event :: "tunnel \<Rightarrow> tunnel_event option \<times> tunnel" where
  "tunnel_poll_event t =
     (case tn_events t of [] \<Rightarrow> (None, t) | e # rest \<Rightarrow> (Some e, t\<lparr>tn_events := rest\<rparr>))"

definition send_data_with_sub_headers :: "tunnel_sub_header list \<Rightarrow> bytes \<Rightarrow> tunnel \<Rightarrow> (rdpemt_error + unit) \<times> tunnel" where
  "send_data_with_sub_headers sub_headers data t =
     (if tn_state t \<noteq> TunnelIsEstablished then (Inl EmtInvalidState, t)
      else case encode_vec tunnel_data_size encode_tunnel_data \<lparr>td_sub_headers = sub_headers, td_higher_layer_data = data\<rparr> of
        Inl e \<Rightarrow> (Inl (EmtEncode e), t)
      | Inr bs \<Rightarrow> (Inr (), push_outgoing bs t))"

definition tunnel_send_data :: "bytes \<Rightarrow> tunnel \<Rightarrow> (rdpemt_error + unit) \<times> tunnel" where
  "tunnel_send_data data t = send_data_with_sub_headers [] data t"

definition tunnel_is_established :: "tunnel \<Rightarrow> bool" where
  "tunnel_is_established t \<longleftrightarrow> tn_state t = TunnelIsEstablished"

definition tunnel_is_failed :: "tunnel \<Rightarrow> bool" where
  "tunnel_is_failed t \<longleftrightarrow> tn_state t = TunnelHasFailed"

section \<open>Runs\<close>

text \<open>What a driver does with a tunnel, and what came out: the PDUs handed to TLS and the
  events handed to the application so far.\<close>

datatype tunnel_call =
    HandlePdu bytes
  | PollPdu
  | PollEvent
  | SendData "tunnel_sub_header list" bytes

record tunnel_run =
  tr_tunnel :: tunnel
  tr_sent :: "bytes list"
  tr_seen :: "tunnel_event list"

fun tunnel_step :: "tunnel_call \<Rightarrow> tunnel_run \<Rightarrow> tunnel_run option" where
  "tunnel_step (HandlePdu wire) r =
     map_option (\<lambda>(_, t). r\<lparr>tr_tunnel := t\<rparr>) (tunnel_handle_pdu wire (tr_tunnel r))"
| "tunnel_step PollPdu r =
     (case tunnel_poll_pdu (tr_tunnel r) of
        (sent, t) \<Rightarrow> Some (r\<lparr>tr_tunnel := t, tr_sent := tr_sent r @ (case sent of None \<Rightarrow> [] | Some bs \<Rightarrow> [bs])\<rparr>))"
| "tunnel_step PollEvent r =
     (case tunnel_poll_event (tr_tunnel r) of
        (seen, t) \<Rightarrow> Some (r\<lparr>tr_tunnel := t, tr_seen := tr_seen r @ (case seen of None \<Rightarrow> [] | Some e \<Rightarrow> [e])\<rparr>))"
| "tunnel_step (SendData subs data) r =
     Some (r\<lparr>tr_tunnel := snd (send_data_with_sub_headers subs data (tr_tunnel r))\<rparr>)"

fun tunnel_calls :: "tunnel_call list \<Rightarrow> tunnel_run \<Rightarrow> tunnel_run option" where
  "tunnel_calls [] r = Some r"
| "tunnel_calls (c # cs) r = Option.bind (tunnel_step c r) (tunnel_calls cs)"

definition all_pdus :: "tunnel_run \<Rightarrow> bytes list" where
  "all_pdus r = tr_sent r @ tn_outgoing (tr_tunnel r)"

definition all_events :: "tunnel_run \<Rightarrow> tunnel_event list" where
  "all_events r = tr_seen r @ tn_events (tr_tunnel r)"

definition start_run :: "tunnel \<Rightarrow> tunnel_run" where
  "start_run t = \<lparr>tr_tunnel = t, tr_sent = [], tr_seen = []\<rparr>"

section \<open>Order on the wire\<close>

definition request_bytes :: "tunnel_config \<Rightarrow> bytes" where
  "request_bytes cfg = tunnel_pdu_layout (CreateRequest \<lparr>tcr_request_id = tc_request_id cfg, tcr_security_cookie = tc_security_cookie cfg\<rparr>)"

definition response_bytes :: "u32 \<Rightarrow> bytes" where
  "response_bytes hr = tunnel_pdu_layout (CreateResponse \<lparr>tcs_hr_response = hr\<rparr>)"

lemma expect_response [simp]:
  "enqueue_create_response hr t = Some (push_outgoing (response_bytes hr) t)"
  by (simp add: enqueue_create_response_def expect_bytes_def create_response_bytes response_bytes_def)

definition is_data :: "bytes \<Rightarrow> bool" where
  "is_data wire \<longleftrightarrow> (\<exists>d. encode_vec tunnel_data_size encode_tunnel_data d = Inr wire)"

definition is_received :: "tunnel_event \<Rightarrow> bool" where
  "is_received e \<longleftrightarrow> (\<exists>subs data. e = TunnelReceived subs data)"

text \<open>What the two ends have queued and reported, by the state they are in.\<close>

definition tunnel_ok :: "tunnel_run \<Rightarrow> bool" where
  "tunnel_ok r \<longleftrightarrow> (let t = tr_tunnel r in
     case (tn_side t, tn_state t) of
       (TunnelClient, TunnelAwaitingResponse) \<Rightarrow> all_pdus r = [request_bytes (tn_config t)] \<and> all_events r = []
     | (TunnelClient, TunnelIsEstablished) \<Rightarrow>
         (\<exists>data. all_pdus r = request_bytes (tn_config t) # data \<and> list_all is_data data) \<and>
         (\<exists>es. all_events r = TunnelEstablished # es \<and> list_all is_received es)
     | (TunnelClient, TunnelHasFailed) \<Rightarrow>
         all_pdus r = [request_bytes (tn_config t)] \<and> (\<exists>hr. all_events r = [TunnelFailed hr])
     | (TunnelClient, TunnelCreated) \<Rightarrow> False
     | (TunnelServer, TunnelCreated) \<Rightarrow> all_pdus r = [] \<and> all_events r = []
     | (TunnelServer, TunnelIsEstablished) \<Rightarrow>
         (\<exists>data. all_pdus r = response_bytes S_OK # data \<and> list_all is_data data) \<and>
         (\<exists>es. all_events r = TunnelEstablished # es \<and> list_all is_received es)
     | (TunnelServer, TunnelHasFailed) \<Rightarrow>
         all_pdus r = [response_bytes E_ACCESSDENIED] \<and> all_events r = [TunnelFailed E_ACCESSDENIED]
     | (TunnelServer, TunnelAwaitingResponse) \<Rightarrow> False)"

text \<open>Polling moves an element from the queue to the outside and changes nothing else.\<close>

lemma poll_frames:
  assumes "tunnel_step PollPdu r = Some r' \<or> tunnel_step PollEvent r = Some r'"
  shows "all_pdus r' = all_pdus r \<and> all_events r' = all_events r \<and> tn_state (tr_tunnel r') = tn_state (tr_tunnel r) \<and>
    tn_side (tr_tunnel r') = tn_side (tr_tunnel r) \<and> tn_config (tr_tunnel r') = tn_config (tr_tunnel r)"
  using assms
  by (auto simp: all_pdus_def all_events_def tunnel_poll_pdu_def tunnel_poll_event_def split: list.splits)

lemma tunnel_ok_cong:
  assumes "all_pdus r' = all_pdus r \<and> all_events r' = all_events r \<and> tn_state (tr_tunnel r') = tn_state (tr_tunnel r) \<and>
    tn_side (tr_tunnel r') = tn_side (tr_tunnel r) \<and> tn_config (tr_tunnel r') = tn_config (tr_tunnel r)"
  shows "tunnel_ok r' = tunnel_ok r"
  unfolding tunnel_ok_def Let_def using assms by (simp only:)

lemma queue_frames [simp]:
  "all_pdus (r\<lparr>tr_tunnel := push_outgoing bs t\<rparr>) = tr_sent r @ tn_outgoing t @ [bs]"
  "all_events (r\<lparr>tr_tunnel := push_outgoing bs t\<rparr>) = tr_seen r @ tn_events t"
  "all_pdus (r\<lparr>tr_tunnel := push_tunnel_event e t\<rparr>) = tr_sent r @ tn_outgoing t"
  "all_events (r\<lparr>tr_tunnel := push_tunnel_event e t\<rparr>) = tr_seen r @ tn_events t @ [e]"
  "tn_state (push_outgoing bs t) = tn_state t" "tn_side (push_outgoing bs t) = tn_side t" "tn_config (push_outgoing bs t) = tn_config t"
  "tn_state (push_tunnel_event e t) = tn_state t" "tn_side (push_tunnel_event e t) = tn_side t"
  "tn_config (push_tunnel_event e t) = tn_config t"
  "tn_outgoing (push_outgoing bs t) = tn_outgoing t @ [bs]" "tn_events (push_outgoing bs t) = tn_events t"
  "tn_outgoing (push_tunnel_event e t) = tn_outgoing t" "tn_events (push_tunnel_event e t) = tn_events t @ [e]"
  by (simp_all add: all_pdus_def all_events_def push_outgoing_def push_tunnel_event_def)

lemma handle_pdu_ok:
  assumes "tunnel_ok r" "tunnel_handle_pdu wire (tr_tunnel r) = Some (res, t)"
  shows "tunnel_ok (r\<lparr>tr_tunnel := t\<rparr>)"
proof (cases "res = Inr ()")
  case False
  then have "t = tr_tunnel r"
    using assms(2) by (auto simp: tunnel_handle_pdu_def split: sum.splits tunnel_state.splits tunnel_side.splits tunnel_pdu.splits if_splits)
  with assms(1) show ?thesis by (simp add: tunnel_ok_def all_pdus_def all_events_def)
next
  case True
  have q: "tr_sent r @ tn_outgoing (tr_tunnel r) = all_pdus r" "tr_seen r @ tn_events (tr_tunnel r) = all_events r"
    by (simp_all add: all_pdus_def all_events_def)
  from assms True show ?thesis
    by (auto simp: tunnel_handle_pdu_def tunnel_ok_def Let_def q is_received_def append_assoc [symmetric] simp del: append_assoc
        split: sum.splits tunnel_state.splits tunnel_side.splits tunnel_pdu.splits if_splits)
qed

lemma send_ok:
  assumes "tunnel_ok r"
  shows "tunnel_ok (r\<lparr>tr_tunnel := snd (send_data_with_sub_headers subs data (tr_tunnel r))\<rparr>)"
proof (cases "fst (send_data_with_sub_headers subs data (tr_tunnel r))")
  case (Inl e)
  then have "snd (send_data_with_sub_headers subs data (tr_tunnel r)) = tr_tunnel r"
    by (auto simp: send_data_with_sub_headers_def split: sum.splits if_splits)
  with assms show ?thesis by (simp add: tunnel_ok_def all_pdus_def all_events_def)
next
  case (Inr u)
  then obtain bs where bs: "tn_state (tr_tunnel r) = TunnelIsEstablished" "is_data bs"
    "snd (send_data_with_sub_headers subs data (tr_tunnel r)) = push_outgoing bs (tr_tunnel r)"
    by (auto simp: send_data_with_sub_headers_def is_data_def split: sum.splits if_splits)
  have q: "tr_sent r @ tn_outgoing (tr_tunnel r) = all_pdus r" "tr_seen r @ tn_events (tr_tunnel r) = all_events r"
    by (simp_all add: all_pdus_def all_events_def)
  from assms bs(1,2) show ?thesis unfolding bs(3)
    by (auto simp: tunnel_ok_def Let_def q append_assoc [symmetric] simp del: append_assoc split: tunnel_side.splits)
qed

lemma handle_pdu_total: "tunnel_handle_pdu wire t \<noteq> None"
  by (simp add: tunnel_handle_pdu_def split: sum.splits tunnel_state.splits tunnel_side.splits tunnel_pdu.splits)

lemma tunnel_step_ok:
  assumes "tunnel_ok r"
  shows "\<exists>r'. tunnel_step c r = Some r' \<and> tunnel_ok r' \<and> tn_side (tr_tunnel r') = tn_side (tr_tunnel r) \<and>
    tn_config (tr_tunnel r') = tn_config (tr_tunnel r)"
proof (cases c)
  case (HandlePdu wire)
  obtain res t where h: "tunnel_handle_pdu wire (tr_tunnel r) = Some (res, t)" using handle_pdu_total by fastforce
  then have "tn_side t = tn_side (tr_tunnel r) \<and> tn_config t = tn_config (tr_tunnel r)"
    by (auto simp: tunnel_handle_pdu_def split: sum.splits tunnel_state.splits tunnel_side.splits tunnel_pdu.splits if_splits)
  with h handle_pdu_ok [OF assms h] HandlePdu show ?thesis by simp
next
  case PollPdu
  obtain r' where r': "tunnel_step PollPdu r = Some r'" by (cases "tunnel_poll_pdu (tr_tunnel r)") simp
  from poll_frames [OF disjI1 [OF r']] tunnel_ok_cong [OF poll_frames [OF disjI1 [OF r']]] assms r' PollPdu show ?thesis by blast
next
  case PollEvent
  obtain r' where r': "tunnel_step PollEvent r = Some r'" by (cases "tunnel_poll_event (tr_tunnel r)") simp
  from poll_frames [OF disjI2 [OF r']] tunnel_ok_cong [OF poll_frames [OF disjI2 [OF r']]] assms r' PollEvent show ?thesis by blast
next
  case (SendData subs data)
  have "tn_side (snd (send_data_with_sub_headers subs data t)) = tn_side t \<and>
      tn_config (snd (send_data_with_sub_headers subs data t)) = tn_config t" for t
    by (simp add: send_data_with_sub_headers_def split: sum.splits)
  with send_ok [OF assms] SendData show ?thesis by simp
qed

lemma tunnel_calls_ok:
  "tunnel_ok r \<Longrightarrow> \<exists>r'. tunnel_calls calls r = Some r' \<and> tunnel_ok r' \<and> tn_side (tr_tunnel r') = tn_side (tr_tunnel r)"
proof (induction calls arbitrary: r)
  case (Cons c calls)
  from tunnel_step_ok [OF Cons.prems, of c] obtain r1 where
    "tunnel_step c r = Some r1" "tunnel_ok r1" "tn_side (tr_tunnel r1) = tn_side (tr_tunnel r)" by blast
  with Cons.IH [of r1] show ?case by simp
qed simp

lemma server_run_ok: "tunnel_ok (start_run (tunnel_server cfg))"
  by (simp add: tunnel_ok_def start_run_def tunnel_server_def all_pdus_def all_events_def Let_def)


section \<open>Who is let in\<close>

definition presents :: "tunnel_config \<Rightarrow> tunnel_call \<Rightarrow> bool" where
  "presents cfg c \<longleftrightarrow> (\<exists>wire. c = HandlePdu wire \<and> decode decode_tunnel_pdu wire =
     Inr (CreateRequest \<lparr>tcr_request_id = tc_request_id cfg, tcr_security_cookie = tc_security_cookie cfg\<rparr>))"

lemma step_establishes:
  assumes "tunnel_step c r = Some r'" "tn_side (tr_tunnel r) = TunnelServer"
    "tn_state (tr_tunnel r') = TunnelIsEstablished" "tn_state (tr_tunnel r) \<noteq> TunnelIsEstablished"
  shows "presents (tn_config (tr_tunnel r)) c"
proof (cases c)
  case (HandlePdu wire)
  with assms obtain req where "decode decode_tunnel_pdu wire = Inr (CreateRequest req)"
    "tcr_request_id req = tc_request_id (tn_config (tr_tunnel r))"
    "tcr_security_cookie req = tc_security_cookie (tn_config (tr_tunnel r))"
    by (auto simp: tunnel_handle_pdu_def split: sum.splits tunnel_state.splits tunnel_side.splits tunnel_pdu.splits if_splits)
  with HandlePdu show ?thesis by (auto simp: presents_def intro!: tunnel_create_request.equality)
qed (use assms in \<open>auto simp: tunnel_poll_pdu_def tunnel_poll_event_def send_data_with_sub_headers_def
      split: list.splits sum.splits if_splits\<close>)

text \<open>
  C14. The cookie is the key: a server tunnel is established only if some PDU it was
  given was a create request with the very request id and security cookie of its
  configuration, whatever else was sent to it.
\<close>

theorem tunnel_established_by_cookie:
  assumes "tunnel_calls calls (start_run (tunnel_server cfg)) = Some r" "tunnel_is_established (tr_tunnel r)"
  shows "list_ex (presents cfg) calls"
proof -
  have "list_ex (presents cfg) calls"
    if "tunnel_calls calls r0 = Some r" "tunnel_ok r0" "tn_side (tr_tunnel r0) = TunnelServer" "tn_config (tr_tunnel r0) = cfg"
      "tn_state (tr_tunnel r0) \<noteq> TunnelIsEstablished" for r0
    using that
  proof (induction calls arbitrary: r0)
    case Nil
    with assms(2) show ?case by (simp add: tunnel_is_established_def)
  next
    case (Cons c calls)
    from tunnel_step_ok [OF Cons.prems(2), of c] obtain r1 where r1: "tunnel_step c r0 = Some r1" "tunnel_ok r1"
      "tn_side (tr_tunnel r1) = TunnelServer" "tn_config (tr_tunnel r1) = cfg" using Cons.prems(3,4) by auto
    with Cons.prems(1) have "tunnel_calls calls r1 = Some r" by simp
    show ?case
    proof (cases "tn_state (tr_tunnel r1) = TunnelIsEstablished")
      case True
      with step_establishes [OF r1(1) Cons.prems(3) True Cons.prems(5)] Cons.prems(4) show ?thesis by simp
    next
      case False
      with Cons.IH [OF \<open>tunnel_calls calls r1 = Some r\<close> r1(2-4)] show ?thesis by simp
    qed
  qed
  from this [OF assms(1) server_run_ok] show ?thesis by (simp add: start_run_def tunnel_server_def)
qed

section \<open>End to end\<close>

text \<open>A driver that hands over every PDU the other end has queued.\<close>

fun tunnel_feed :: "bytes list \<Rightarrow> tunnel \<Rightarrow> tunnel option" where
  "tunnel_feed [] t = Some t"
| "tunnel_feed (wire # wires) t = Option.bind (tunnel_handle_pdu wire t) (\<lambda>(_, t). tunnel_feed wires t)"

lemma decode_pdu_layout:
  "tunnel_pdu_typed p \<Longrightarrow> tunnel_pdu_fits p \<Longrightarrow> decode decode_tunnel_pdu (tunnel_pdu_layout p) = Inr p"
  using decode_tunnel_pdu_layout [of p "rc_new (tunnel_pdu_layout p)" "[]"] by (simp add: decode_def)

definition data_bytes :: "bytes \<Rightarrow> bytes" where
  "data_bytes data = tunnel_pdu_layout (TunnelData \<lparr>td_sub_headers = [], td_higher_layer_data = data\<rparr>)"

lemma data_fits: "tunnel_pdu_fits (TunnelData \<lparr>td_sub_headers = [], td_higher_layer_data = data\<rparr>) \<longleftrightarrow> length data \<le> 65535"
  by (simp add: header_length_untruncated_def TUNNEL_HEADER_MIN_SIZE_def)

lemma send_all_data:
  "tn_state t = TunnelIsEstablished \<Longrightarrow> list_all (\<lambda>d. length d \<le> 65535) datas \<Longrightarrow>
   fold (\<lambda>d t. snd (tunnel_send_data d t)) datas t = t\<lparr>tn_outgoing := tn_outgoing t @ map data_bytes datas\<rparr>"
proof (induction datas arbitrary: t)
  case (Cons d datas)
  then have "snd (tunnel_send_data d t) = push_outgoing (data_bytes d) t"
    by (simp add: tunnel_send_data_def send_data_with_sub_headers_def tunnel_data_bytes data_fits data_bytes_def
        del: tunnel_pdu_fits.simps)
  with Cons show ?case by (simp add: push_outgoing_def)
qed simp

lemma feed_data:
  "tn_state t = TunnelIsEstablished \<Longrightarrow> list_all (\<lambda>d. length d \<le> 65535) datas \<Longrightarrow>
   tunnel_feed (map data_bytes datas) t = Some (t\<lparr>tn_events := tn_events t @ map (TunnelReceived []) datas\<rparr>)"
proof (induction datas arbitrary: t)
  case (Cons d datas)
  then have "decode decode_tunnel_pdu (data_bytes d) = Inr (TunnelData \<lparr>td_sub_headers = [], td_higher_layer_data = d\<rparr>)"
    unfolding data_bytes_def by (intro decode_pdu_layout) (simp_all add: data_fits del: tunnel_pdu_fits.simps)
  with Cons show ?case by (simp add: tunnel_handle_pdu_def push_tunnel_event_def)
qed simp


definition sample_tunnel_config :: tunnel_config where
  "sample_tunnel_config = \<lparr>tc_request_id = 5, tc_security_cookie = replicate 16 7\<rparr>"


theorem tunnel_established_by_cookie_witness:
  "\<exists>calls r. tunnel_calls calls (start_run (tunnel_server sample_tunnel_config)) = Some r \<and> tunnel_is_established (tr_tunnel r) \<and>
     list_ex (presents sample_tunnel_config) calls"
proof -
  let ?calls = "[PollPdu, HandlePdu (request_bytes sample_tunnel_config)]"
  have "decode decode_tunnel_pdu (request_bytes sample_tunnel_config) = Inr (CreateRequest
      \<lparr>tcr_request_id = tc_request_id sample_tunnel_config, tcr_security_cookie = tc_security_cookie sample_tunnel_config\<rparr>)"
    unfolding request_bytes_def by (rule decode_pdu_layout) (simp_all add: sample_tunnel_config_def)
  then obtain r where "tunnel_calls ?calls (start_run (tunnel_server sample_tunnel_config)) = Some r" "tunnel_is_established (tr_tunnel r)"
    by (simp add: start_run_def tunnel_server_def tunnel_poll_pdu_def tunnel_handle_pdu_def tunnel_is_established_def)
  with tunnel_established_by_cookie [OF this] show ?thesis by blast
qed

end
