(* ===== verification/Spec2Isabelle.thy ===== *)
theory Spec2Isabelle
  imports Seq Progress Worker_Exec Supervisor Session_Login Tunnel
begin

text \<open>
  This library verifies the parts of LinRDP, an RDP server for Linux, that decide who is
  served what: the UDP transport a client's data travels over, and the processes and
  sessions a login goes through.

  \<^bold>\<open>The program.\<close> A supervisor process listens on TCP and UDP, forks a worker per TCP
  connection, and forwards each UDP datagram to the worker it belongs to. A worker runs the
  RDP protocol for one client. After the client has authenticated, the worker finds or makes
  the account's desktop session, which a keeper process holds, and is bound to it. A second
  transport for the same client runs over UDP: reliable RDP-UDP2 connections
  (\<open>crates/ironrdp-rdpeudp\<close>), and on top of them, inside TLS, a multitransport tunnel
  (\<open>crates/ironrdp-rdpemt\<close>).

  \<^bold>\<open>The transport.\<close>
  \<^item> \<open>Prelude\<close> has the machine types and the arithmetic that can leave their range; \<open>Wire\<close> the
    cursors of \<open>ironrdp-core\<close>, the contracts of a codec as the locales \<open>tail_codec\<close> and
    \<open>wire_codec\<close>, and the calculus \<open>dec_safe\<close> for decoders that never read out of range.
  \<^item> \<open>Pdu_V1\<close>, \<open>Pdu_V2\<close> and \<open>Prefix_Frame\<close> are \<open>pdu/*.rs\<close>: every structure is an instance of a
    contract, and the round trips and the absence of panics follow.
  \<^item> \<open>Seq\<close> (\<open>seq.rs\<close>), \<open>Recv_Window\<close>, \<open>Send_Window\<close>, \<open>Reliability\<close>, \<open>Loss\<close>, \<open>Congestion\<close>, \<open>Rtt\<close> and
    \<open>Timer_Table\<close> are the files of the same names, with \<open>Instants\<close> for time. Each has its
    record, one definition per method, an invariant, and the lemmas that say what the
    methods do to an abstract view: the stream delivered so far, the packets in flight, the
    queue as a list, the earliest deadline. The locales \<open>wire_counter\<close> (\<open>Seq\<close>),
    \<open>keyed_queue\<close> (\<open>Reliability\<close>) and \<open>deadline_map\<close> (\<open>Timer_Table\<close>) state the contracts their
    clients rely on and are interpreted on the code's own functions.
  \<^item> \<open>Connection\<close> and \<open>Data_Transfer\<close> are \<open>connection.rs\<close>. A method is a function from connection
    to connection; a call that can panic returns an option, \<open>None\<close> the panic.
  \<^item> \<open>Lifecycle\<close> shows that no reachable connection panics and that a closed one is silent;
    \<open>Handshake\<close> that \<open>accept\<close> admits exactly the right clients and that the three datagrams of
    the handshake establish both ends; \<open>Sender\<close> and \<open>Data_Path\<close> that a connection refines an
    abstract reliable sender, so that accepted data is never lost or duplicated and only the
    peer releases it; \<open>Progress\<close> that packets fit the MTU and that unacknowledged data always
    has a timer.
  \<^item> \<open>Tunnel_Pdu\<close> and \<open>Tunnel\<close> are \<open>ironrdp-rdpemt\<close>: the PDUs, and the state machine with the
    order of what it sends, who it lets in, and the delivery of data end to end.

  \<^bold>\<open>The processes and sessions.\<close>
  \<^item> \<open>Udp_Dispatch\<close> (\<open>linrdp/src/udp_dispatch.rs\<close>): the store that ties a client's address to
    the worker whose cookie hash it presented; \<open>Supervisor\<close> (\<open>supervisor.rs\<close>): binding,
    admission within the budget, reaping (over the locale \<open>process_table\<close>) and one pass of
    the \<open>poll\<close> loop as a function of what its system calls return; \<open>Worker_Exec\<close>: how a new
    worker is given its descriptors.
  \<^item> \<open>Rust_Text\<close>, \<open>Registry\<close> (\<open>session/registry.rs\<close>) and \<open>Xauth\<close> (\<open>session/xauth.rs\<close>): the text
    files that describe sessions and the cookie files of their X servers, over a map from
    paths to contents.
  \<^item> \<open>Display_Alloc\<close> (\<open>session/display_alloc.rs\<close> and the hand-over in \<open>session/mod.rs\<close>): display
    numbers are claimed by \<open>flock\<close>, so this theory has the kernel's descriptor tables, open
    file descriptions and locks; whatever workers, keepers and their children do, claims in
    force are on different numbers.
  \<^item> \<open>Gate\<close> (\<open>session/gate.rs\<close>): what a worker may touch, and that it never changes desktops.
  \<^item> \<open>Session_Login\<close> (\<open>auth.rs\<close>, \<open>session/router.rs\<close>, \<open>session/mod.rs\<close>, \<open>session/backends\<close>): from
    credentials to a bound desktop. A worker acts only for an account PAM accepted, the
    choice of a desktop keeps to what was asked, and a disconnect locks the session.

  This theory adds what spans the two halves: a client that connects with a worker's cookie
  is dispatched to that worker and accepted there.

  \<^bold>\<open>How the code is rendered.\<close> \<open>u8\<close>, \<open>u16\<close> and \<open>u32\<close> are words; \<open>u64\<close> and \<open>usize\<close> are naturals with
  the wrap-around written out where it could happen. A \<open>Result\<close> is a sum, \<open>Inl\<close> the error; a
  panic or the exit of the process is \<open>None\<close>; \<open>&mut self\<close> is a state passed and returned. A
  \<open>HashMap\<close> or \<open>BTreeMap\<close> is an association list or a function to options. Loops are recursions
  with a termination proof, so no definition needs fuel; the loops that read sockets or
  wait for a file recurse over the list of what the system calls return. Floating-point
  arithmetic in \<open>Rtt\<close> is exact rational arithmetic followed by the rounding of a double.
  The C library, PAM, the X server, Mutter, SHA-256 and the scheduler appear as parameters
  or as steps that may happen at any time.

  \<^bold>\<open>Bounds.\<close> Statements about \<open>u64\<close> counters assume times and sequence numbers below \<open>2 ^ 64\<close>
  where the code's own arithmetic relies on it; \<open>config_ok\<close> asks of a configuration what its
  Rust types ask. \<open>log_window_size\<close> is at most 15, the largest the code accepts.

  \<^bold>\<open>Not modelled.\<close> The TCP protocol stack (\<open>ironrdp-pdu\<close>, \<open>-acceptor\<close>, \<open>-connector\<close>, \<open>-session\<close>,
  \<open>-server\<close>), the virtual channels, the graphics and compression codecs and their glue to X11,
  PipeWire, PulseAudio and x264 in \<open>linrdp\<close>; they are many independent codecs and much I/O,
  and none of them is needed for what is shown here. The async drivers
  (\<open>ironrdp-rdpeudp-tokio\<close> except for the cookie hash, \<open>udp.rs\<close>) schedule the state machines
  that are modelled. Configuration, command line, diagnostics and service files are operator
  tooling. Log messages and the context strings of errors are left out throughout.
\<close>

section \<open>From a client's SYN to its worker\<close>

lemma connect_syn_short:
  assumes "config_ok cfg" "cf_cookie_hash cfg \<noteq> None" "cf_log_window_size cfg \<le> 15"
    "mtu_in_range (cf_upstream_mtu cfg)" "mtu_in_range (cf_downstream_mtu cfg)"
  shows "v1_datagram_valid (syn_datagram (conn_new Client cfg))"
    "length (v1_datagram_layout (syn_datagram (conn_new Client cfg))) \<le> 9000"
proof -
  show valid: "v1_datagram_valid (syn_datagram (conn_new Client cfg))"
    by (rule syn_valid) (use assms in \<open>simp_all add: conn_new_def\<close>)
  show "length (v1_datagram_layout (syn_datagram (conn_new Client cfg))) \<le> 9000"
    unfolding v1_datagram_size_layout [OF valid, symmetric]
    by (simp add: syn_datagram_def v1_datagram_size_def size_opt_def fec_header_size_def syn_data_size_def syn_data_ex_size_def)
qed

text \<open>
  C11. A client finds its own worker: once a worker has registered the hash of the cookie
  it handed to its client over TCP, the first datagram of a client that connects with that
  cookie, from an address not seen before, is sent to that worker and to no other, arrives
  there byte for byte, and is a SYN the worker's transport accepts.
\<close>

theorem cookie_brings_client_to_its_worker:
  assumes "config_ok ccfg" "cf_log_window_size ccfg \<le> 15"
    "mtu_in_range (cf_upstream_mtu ccfg)" "mtu_in_range (cf_downstream_mtu ccfg)"
    and "config_ok scfg" "cf_log_window_size scfg \<le> 15"
    and "cf_cookie_hash ccfg = Some hash" "cf_cookie_hash scfg = Some hash" "t0 < 2 ^ 64" "t1 < 2 ^ 64"
    and "map_of (ds_channels d) pid = Some listener" "map_of (clients (ds_store d)) (listener, peer) = None" "octets_ok peer"
  shows "\<exists>c0 c1 syn message peer' datagram s.
    connect ccfg t0 = Some (Inr c0) \<and> poll_transmit t0 c0 = Some (Some syn, c1) \<and>
    snd (socket_datagram listener syn peer (channel_message pid listener (encode_register hash) d)) = [(pid, message)] \<and>
    decode_datagram message = Some (peer', syn) \<and>
    decode decode_v1_datagram syn = Inr datagram \<and> accept scfg datagram t1 = Some (Inr s)"
proof -
  let ?syn = "syn_datagram (conn_new Client ccfg)"
  have hash: "length hash = 32" using assms(1,7) by (simp add: config_ok_def)
  have cfg: "c_config (conn_new Client ccfg) = ccfg" by (simp add: conn_new_def)
  note short = connect_syn_short [OF assms(1) _ assms(2-4), unfolded assms(7), simplified]
  obtain c0 c1 where c: "connect ccfg t0 = Some (Inr c0)" "poll_transmit t0 c0 = Some (Some (v1_datagram_layout ?syn), c1)"
    by (rule connect_syn_sent [of ccfg t0]) (use assms in auto)
  obtain s where s: "accept scfg (v1_normal ?syn) t1 = Some (Inr s)"
    by (rule accept_syn_ack_sent [of scfg hash t1 "conn_new Client ccfg"]) (use assms cfg in auto)
  have "syn_cookie_hash (take 9000 (v1_datagram_layout ?syn)) = Some hash"
    using syn_cookie_hash_layout [OF short(1), of "[]"] short(2) assms(7) cfg
    by (simp add: syn_datagram_def v1_compute_flags_def flag_eval)
  moreover have "take 9000 (v1_datagram_layout ?syn) = v1_datagram_layout ?syn" using short(2) by simp
  ultimately have "snd (socket_datagram listener (v1_datagram_layout ?syn) peer (channel_message pid listener (encode_register hash) d)) =
      [(pid, encode_datagram peer (v1_datagram_layout ?syn))]"
    using syn_reaches_worker [of "channel_message pid listener (encode_register hash) d" listener peer "v1_datagram_layout ?syn" hash pid listener]
      assms(11,12) hash
    by (simp add: channel_message_def register_round_trip store_register_def update_conv')
  with c s channel_datagram_round_trip [OF assms(13)] decode_v1_layout [OF short(1)] show ?thesis by blast
qed

theorem cookie_brings_client_to_its_worker_witness:
  "\<exists>c0 c1 syn message peer' datagram s.
    connect sample_config 0 = Some (Inr c0) \<and> poll_transmit 0 c0 = Some (Some syn, c1) \<and>
    snd (socket_datagram 0 syn (SocketV4 [10, 0, 0, 1] 50000)
      (channel_message 100 0 (encode_register (replicate 32 7)) (add_worker 100 0 dispatch_default))) = [(100, message)] \<and>
    decode_datagram message = Some (peer', syn) \<and>
    decode decode_v1_datagram syn = Inr datagram \<and> accept sample_config datagram 10 = Some (Inr s)"
  by (rule cookie_brings_client_to_its_worker)
    (simp_all add: sample_config_def default_config_def config_ok_def MTU_MIN_def MTU_MAX_def add_worker_def dispatch_default_def)

end
